(* ===== verification/Kernel_Prelude.thy ===== *)
theory Kernel_Prelude
  imports Main "HOL-Library.Word"
begin

unbundle bit_operations_syntax

text \<open>
  Shared vocabulary of the development: machine words, byte-addressed memory, the faults a C
  statement can run into, C pointers to bytes, and the list, word and memory lemmas the
  component theories use.

  Memory is a total function from 32-bit addresses to bytes. Two list-level views of it carry
  the specifications: \<open>rd m a n\<close> is the list of the \<open>n\<close> bytes from \<open>a\<close> on, and
  \<open>wr m a xs\<close> is the memory after \<open>xs\<close> has been stored from \<open>a\<close> on. Both wrap around
  at the top of the address space, as address arithmetic of the machine does.
\<close>

section \<open>Types\<close>

type_synonym u8 = "8 word"
type_synonym u16 = "16 word"
type_synonym u32 = "32 word"
type_synonym mem = "u32 \<Rightarrow> u8"

text \<open>
  The ways an execution leaves the defined behaviour of the C source: an index outside an array
  object, an access the page tables do not map, a division by zero, an arithmetic operation C
  leaves undefined, and a loop that never ends.
\<close>

datatype fault = OutOfBounds | PageFault | DivideError | UndefinedArith | Hang

type_synonym 'a res = "fault + 'a"

definition rbind :: "'a res \<Rightarrow> ('a \<Rightarrow> 'b res) \<Rightarrow> 'b res" where
  "rbind r f = (case r of Inl e \<Rightarrow> Inl e | Inr x \<Rightarrow> f x)"

lemma rbind_cong [fundef_cong]:
  "r = r' \<Longrightarrow> (\<And>x. r' = Inr x \<Longrightarrow> f x = g x) \<Longrightarrow> rbind r f = rbind r' g"
  by (cases r') (simp_all add: rbind_def)

text \<open>
  A pointer to bytes is the null pointer, the start of an array object whose bytes are known
  (a string literal or a local array), or an address in memory.
\<close>

datatype cptr = Null | Obj "u8 list" | Ptr u32

definition is_null :: "cptr \<Rightarrow> bool" where
  "is_null p = (case p of Null \<Rightarrow> True | Obj _ \<Rightarrow> False | Ptr a \<Rightarrow> a = 0)"

definition fetch :: "mem \<Rightarrow> cptr \<Rightarrow> nat \<Rightarrow> u8 res" where
  "fetch m p i =
     (case p of
        Null \<Rightarrow> Inl PageFault
      | Obj xs \<Rightarrow> if i < length xs then Inr (xs ! i) else Inl OutOfBounds
      | Ptr a \<Rightarrow> Inr (m (a + of_nat i)))"

text \<open>The bytes of a string literal, and the literal as a C string with its terminating null byte.\<close>

definition bytes :: "string \<Rightarrow> u8 list" where
  "bytes s = map of_char s"

definition lit :: "string \<Rightarrow> cptr" where
  "lit s = Obj (bytes s @ [0])"

definition bset :: "u8 list \<Rightarrow> nat \<Rightarrow> u8 \<Rightarrow> u8 list res" where
  "bset xs i v = (if i < length xs then Inr (xs[i := v]) else Inl OutOfBounds)"

section \<open>Memory access\<close>

definition rd :: "mem \<Rightarrow> u32 \<Rightarrow> nat \<Rightarrow> u8 list" where
  "rd m a n = map (\<lambda>i. m (a + of_nat i)) [0..<n]"

definition wr :: "mem \<Rightarrow> u32 \<Rightarrow> u8 list \<Rightarrow> mem" where
  "wr m a xs = (\<lambda>x. if unat (x - a) < length xs then xs ! unat (x - a) else m x)"

text \<open>The address range of \<open>n\<close> bytes from \<open>a\<close> on.\<close>

definition in_range :: "u32 \<Rightarrow> nat \<Rightarrow> u32 \<Rightarrow> bool" where
  "in_range a n x \<longleftrightarrow> unat (x - a) < n"

definition disjoint_ranges :: "u32 \<Rightarrow> nat \<Rightarrow> u32 \<Rightarrow> nat \<Rightarrow> bool" where
  "disjoint_ranges a n b k \<longleftrightarrow> (\<forall>i < n. \<not> in_range b k (a + of_nat i))"

text \<open>Little-endian words in memory and in byte lists.\<close>

definition le32 :: "u8 list \<Rightarrow> u32" where
  "le32 bs = ucast (bs ! 0) OR push_bit 8 (ucast (bs ! 1))
     OR push_bit 16 (ucast (bs ! 2)) OR push_bit 24 (ucast (bs ! 3))"

definition bytes32 :: "u32 \<Rightarrow> u8 list" where
  "bytes32 w = [ucast w, ucast (drop_bit 8 w), ucast (drop_bit 16 w), ucast (drop_bit 24 w)]"

definition ld32 :: "mem \<Rightarrow> u32 \<Rightarrow> u32" where
  "ld32 m a = le32 (rd m a 4)"

definition st32 :: "mem \<Rightarrow> u32 \<Rightarrow> u32 \<Rightarrow> mem" where
  "st32 m a w = wr m a (bytes32 w)"

definition st16 :: "mem \<Rightarrow> u32 \<Rightarrow> u16 \<Rightarrow> mem" where
  "st16 m a w = wr m a [ucast w, ucast (drop_bit 8 w)]"

named_theorems res_simps \<open>how the result monad reduces\<close>
named_theorems mem_simps \<open>reading back what was written\<close>

text \<open>
  A busy wait on a condition only interrupt handlers change: \<open>hs\<close> are the handlers that run while
  the loop polls, in order. When they have all run and the condition still does not hold, the loop has
  not ended.
\<close>

fun spin_until :: "('s \<Rightarrow> bool) \<Rightarrow> ('s \<Rightarrow> 's res) list \<Rightarrow> 's \<Rightarrow> 's res" where
  "spin_until ready [] s = (if ready s then Inr s else Inl Hang)"
| "spin_until ready (h # hs) s = (if ready s then Inr s else rbind (h s) (spin_until ready hs))"

section \<open>Results\<close>

lemma rbind_Inl [simp, res_simps]: "rbind (Inl e) f = Inl e"
  by (simp add: rbind_def)

lemma rbind_Inr [simp, res_simps]: "rbind (Inr x) f = f x"
  by (simp add: rbind_def)

lemma rbind_eq_Inr [res_simps]: "rbind r f = Inr y \<longleftrightarrow> (\<exists>x. r = Inr x \<and> f x = Inr y)"
  by (cases r) simp_all

lemma rbind_assoc: "rbind (rbind r f) g = rbind r (\<lambda>x. rbind (f x) g)"
  by (cases r) simp_all

lemma fetch_simps [simp, res_simps]:
  "fetch m Null i = Inl PageFault"
  "i < length xs \<Longrightarrow> fetch m (Obj xs) i = Inr (xs ! i)"
  "length xs \<le> i \<Longrightarrow> fetch m (Obj xs) i = Inl OutOfBounds"
  "fetch m (Ptr a) i = Inr (m (a + of_nat i))"
  by (simp_all add: fetch_def)

lemma bset_Inr [simp, res_simps]: "i < length xs \<Longrightarrow> bset xs i v = Inr (xs[i := v])"
  by (simp add: bset_def)

lemma bset_Inl [simp, res_simps]: "length xs \<le> i \<Longrightarrow> bset xs i v = Inl OutOfBounds"
  by (simp add: bset_def)

section \<open>Busy waits\<close>

lemma spin_until_ready: "ready s \<Longrightarrow> spin_until ready hs s = Inr s"
  by (cases hs) simp_all

lemma spin_until_sound: "spin_until ready hs s = Inr s' \<Longrightarrow> ready s'"
  by (induction hs arbitrary: s) (auto simp: rbind_def split: if_splits sum.splits)

text \<open>Handlers that never make the condition true leave the loop waiting.\<close>

lemma spin_until_hang:
  assumes "\<And>h t. h \<in> set hs \<Longrightarrow> \<not> ready t \<Longrightarrow> \<exists>t'. h t = Inr t' \<and> \<not> ready t'" and "\<not> ready s"
  shows "spin_until ready hs s = Inl Hang"
  using assms
proof (induction hs arbitrary: s)
  case (Cons h hs)
  obtain t where t: "h s = Inr t" "\<not> ready t" using Cons.prems(1) [of h s] Cons.prems(2) by auto
  have "spin_until ready hs t = Inl Hang" using Cons.prems(1) t(2) by (intro Cons.IH) auto
  with t(1) Cons.prems(2) show ?case by simp
qed simp

text \<open>A handler that makes the condition true ends the loop.\<close>

lemma spin_until_wakes:
  assumes "h \<in> set hs" and "\<And>t. \<exists>t'. h t = Inr t' \<and> ready t'"
    and "\<And>g t. g \<in> set hs \<Longrightarrow> \<exists>t'. g t = Inr t'"
  shows "\<exists>s'. spin_until ready hs s = Inr s'"
  using assms(1,3)
proof (induction hs arbitrary: s)
  case (Cons g hs)
  show ?case
  proof (cases "ready s")
    case False
    obtain t where t: "g s = Inr t" using Cons.prems(2) [of g s] by auto
    show ?thesis
    proof (cases "g = h")
      case True
      with assms(2) [of s] t have "ready t" by auto
      with t False show ?thesis by (simp add: spin_until_ready)
    next
      case False
      with Cons have "\<exists>s'. spin_until ready hs t = Inr s'" by auto
      with t \<open>\<not> ready s\<close> show ?thesis by simp
    qed
  qed simp
qed simp

section \<open>Addresses\<close>

lemma unat_of_nat_u32 [simp]: "i < 4294967296 \<Longrightarrow> unat (of_nat i :: u32) = i"
  by (simp add: unat_of_nat take_bit_nat_eq_self_iff)

lemma unat_add_diff [simp]:
  "i < 4294967296 \<Longrightarrow> unat ((a :: u32) + of_nat i - a) = i"
  by simp

lemma u32_eq_add_unat_diff: "(x :: u32) = a + of_nat (unat (x - a))"
  by simp

lemma unat_u32_bound [simp]: "unat (x :: u32) < 4294967296"
  using unsigned_less [of x] by simp

lemma add_of_nat_cancel [simp]:
  assumes "i < 4294967296" and "j < 4294967296"
  shows "(a :: u32) + of_nat i = a + of_nat j \<longleftrightarrow> i = j"
  using assms by (metis add_left_cancel unat_of_nat_u32)

lemma in_range_iff:
  assumes "n \<le> 4294967296"
  shows "in_range a n x \<longleftrightarrow> (\<exists>i < n. x = a + of_nat i)"
proof
  assume "in_range a n x"
  then show "\<exists>i < n. x = a + of_nat i"
    unfolding in_range_def using u32_eq_add_unat_diff by blast
next
  assume "\<exists>i < n. x = a + of_nat i"
  with assms show "in_range a n x" by (auto simp: in_range_def)
qed

lemma u32_less_add_eq:
  assumes "unat (a :: u32) + i < 4294967296"
  shows "unat (a + of_nat i) = unat a + i"
  using assms by (simp add: unat_word_ariths unat_of_nat take_bit_nat_eq_self_iff)

lemma unat_diff_Suc:
  assumes "unat (x - a) \<noteq> 0"
  shows "unat (x - (a + 1 :: u32)) = unat (x - a) - 1"
proof -
  from assms have "x - a \<noteq> 0" by auto
  then have "unat (x - a - 1) = unat (x - a) - 1" by (rule unat_minus_one)
  then show ?thesis by (simp add: diff_diff_eq)
qed

lemma sint_small:
  assumes "unat (x :: u32) < 2147483648"
  shows "sint x = int (unat x)"
proof -
  have "sint x = signed_take_bit 31 (uint x)" by (simp add: sint_uint)
  moreover have "int (unat x) < 2147483648" using assms by linarith
  then have "uint x < 2 ^ 31" by simp
  then have "signed_take_bit 31 (uint x) = uint x"
    by (intro signed_take_bit_int_eq_self) (use uint_ge_0 [of x] in linarith)+
  ultimately show ?thesis by simp
qed

lemma u8_bit_high [simp]: "8 \<le> n \<Longrightarrow> \<not> bit (b :: u8) n"
  by (auto dest!: bit_imp_le_length)

lemma u16_bit_high [simp]: "16 \<le> n \<Longrightarrow> \<not> bit (b :: u16) n"
  by (auto dest!: bit_imp_le_length)

lemma u32_bit_high [simp]: "32 \<le> n \<Longrightarrow> \<not> bit (b :: u32) n"
  by (auto dest!: bit_imp_le_length)

section \<open>Reading and writing ranges\<close>

lemma length_rd [simp]: "length (rd m a n) = n"
  by (simp add: rd_def)

lemma nth_rd [simp]: "i < n \<Longrightarrow> rd m a n ! i = m (a + of_nat i)"
  by (simp add: rd_def)

lemma rd_0 [simp]: "rd m a 0 = []"
  by (simp add: rd_def)

lemma rd_Suc: "rd m a (Suc n) = m a # rd m (a + 1) n"
  by (rule nth_equalityI) (auto simp: nth_Cons' rd_def of_nat_diff algebra_simps simp del: upt_Suc)

lemma rd_cong: "(\<And>i. i < n \<Longrightarrow> m (a + of_nat i) = m' (a + of_nat i)) \<Longrightarrow> rd m a n = rd m' a n"
  by (rule nth_equalityI) auto

lemma rd_append: "rd m a (n + k) = rd m a n @ rd m (a + of_nat n) k"
  by (rule nth_equalityI) (auto simp: nth_append algebra_simps of_nat_diff)

lemma take_rd: "k \<le> n \<Longrightarrow> take k (rd m a n) = rd m a k"
  by (rule nth_equalityI) simp_all

lemma drop_rd: "k \<le> n \<Longrightarrow> drop k (rd m a n) = rd m (a + of_nat k) (n - k)"
  by (rule nth_equalityI) (simp_all add: algebra_simps)

lemma wr_Nil [simp]: "wr m a [] = m"
  by (simp add: wr_def)

lemma wr_outside [mem_simps]: "\<not> in_range a (length xs) x \<Longrightarrow> wr m a xs x = m x"
  by (simp add: wr_def in_range_def)

lemma wr_inside [mem_simps]:
  "i < length xs \<Longrightarrow> length xs \<le> 4294967296 \<Longrightarrow> wr m a xs (a + of_nat i) = xs ! i"
  by (simp add: wr_def)

lemma wr_Cons:
  assumes "length xs < 4294967296"
  shows "wr m a (x # xs) = wr (m(a := x)) (a + 1) xs"
proof
  fix y
  show "wr m a (x # xs) y = wr (m(a := x)) (a + 1) xs y"
  proof (cases "unat (y - a) = 0")
    case True
    then have "y = a" using u32_eq_add_unat_diff [of y a] by simp
    moreover have "unat (a - (a + 1)) = 4294967295"
      by (simp add: unsigned_minus_1_eq_mask mask_eq_exp_minus_1)
    ultimately show ?thesis using assms by (simp add: wr_def)
  next
    case False
    then have "y \<noteq> a" by auto
    moreover have "unat (y - a) < Suc (length xs) \<longleftrightarrow> unat (y - (a + 1)) < length xs"
      using False by (auto simp: unat_diff_Suc)
    ultimately show ?thesis
      using False by (simp add: wr_def unat_diff_Suc nth_Cons')
  qed
qed

lemma wr_single: "wr m a [x] = m(a := x)"
  by (simp add: wr_Cons)

lemma wr_append:
  "length xs + length ys \<le> 4294967296 \<Longrightarrow>
     wr m a (xs @ ys) = wr (wr m a xs) (a + of_nat (length xs)) ys"
proof (induction xs arbitrary: m a)
  case Nil
  then show ?case by simp
next
  case (Cons x xs)
  then have "wr m a ((x # xs) @ ys) = wr (m(a := x)) (a + 1) (xs @ ys)"
    by (simp add: wr_Cons)
  also have "\<dots> = wr (wr (m(a := x)) (a + 1) xs) (a + 1 + of_nat (length xs)) ys"
    using Cons.prems by (intro Cons.IH) simp
  also have "wr (m(a := x)) (a + 1) xs = wr m a (x # xs)"
    using Cons.prems by (simp add: wr_Cons)
  finally show ?case by (simp add: algebra_simps)
qed

lemma rd_wr_same [simp]: "length xs \<le> 4294967296 \<Longrightarrow> rd (wr m a xs) a (length xs) = xs"
  by (rule nth_equalityI) (simp_all add: wr_def)

lemma rd_wr_disjoint [mem_simps]:
  "disjoint_ranges b k a (length xs) \<Longrightarrow> rd (wr m a xs) b k = rd m b k"
  by (rule rd_cong) (auto simp: disjoint_ranges_def wr_outside)

lemma disjoint_ranges_mono:
  "disjoint_ranges a n b k \<Longrightarrow> n' \<le> n \<Longrightarrow> k' \<le> k \<Longrightarrow> disjoint_ranges a n' b k'"
  unfolding disjoint_ranges_def in_range_def by (meson less_le_trans)

lemma disjoint_ranges_sym:
  assumes "disjoint_ranges a n b k" and "n \<le> 4294967296" and "k \<le> 4294967296"
  shows "disjoint_ranges b k a n"
  using assms by (auto simp: disjoint_ranges_def in_range_iff) metis

lemma wr_upd_end:
  "length xs < 4294967296 \<Longrightarrow> (wr m a xs)(a + of_nat (length xs) := x) = wr m a (xs @ [x])"
  by (simp add: wr_append wr_single)

lemma rd_snoc: "rd m a (Suc n) = rd m a n @ [m (a + of_nat n)]"
  using rd_append [of m a n 1] by (simp add: rd_Suc)

lemma disjoint_ranges_apart:
  assumes "unat a + n \<le> unat b \<and> unat b + k \<le> 4294967296 \<or> unat b + k \<le> unat a \<and> unat a + n \<le> 4294967296"
  shows "disjoint_ranges a n b k"
  unfolding disjoint_ranges_def
proof (intro allI impI notI)
  fix i assume "i < n" and "in_range b k (a + of_nat i)"
  moreover have "k \<le> 4294967296" using assms by auto
  ultimately obtain j where j: "j < k" "a + of_nat i = b + of_nat j"
    by (auto simp: in_range_iff)
  have "unat (a + of_nat i) = unat a + i"
    using assms \<open>i < n\<close> unat_u32_bound [of b] by (intro u32_less_add_eq) linarith
  moreover have "unat (b + of_nat j) = unat b + j"
    using assms j(1) unat_u32_bound [of a] by (intro u32_less_add_eq) linarith
  ultimately show False using assms j \<open>i < n\<close> by auto
qed

end
