(* ===== verification/Lib_Memory.thy ===== *)
theory Lib_Memory
  imports Kernel_Prelude
begin

text \<open>
  The memory primitives of \<^verbatim>\<open>lib.c\<close> (\<^verbatim>\<open>memset\<close>, \<^verbatim>\<open>memset_word\<close>, \<^verbatim>\<open>memset_dword\<close>,
  \<^verbatim>\<open>memcpy\<close>, \<^verbatim>\<open>memmove\<close>), translated from their inline assembly: the register moves of each
  labelled loop are one recursive function, with \<^verbatim>\<open>edi\<close>, \<^verbatim>\<open>esi\<close> as 32-bit words and the
  counters \<^verbatim>\<open>ecx\<close>, \<^verbatim>\<open>edx\<close> as naturals (they only count down to zero).
  Each primitive is shown to have the effect of one list-level store \<open>wr\<close>, and the
  locale \<open>block_copy\<close> collects what the callers rely on.
\<close>

section \<open>String instructions\<close>

text \<open>\<^verbatim>\<open>rep stosl\<close>, \<^verbatim>\<open>rep stosw\<close>: store \<^verbatim>\<open>eax\<close> (\<^verbatim>\<open>ax\<close>) \<^verbatim>\<open>ecx\<close> times, moving up.\<close>

fun rep_stosl :: "mem \<Rightarrow> u32 \<Rightarrow> u32 \<Rightarrow> nat \<Rightarrow> mem" where
  "rep_stosl m edi eax 0 = m"
| "rep_stosl m edi eax (Suc ecx) = rep_stosl (st32 m edi eax) (edi + 4) eax ecx"

fun rep_stosw :: "mem \<Rightarrow> u32 \<Rightarrow> u16 \<Rightarrow> nat \<Rightarrow> mem" where
  "rep_stosw m edi ax 0 = m"
| "rep_stosw m edi ax (Suc ecx) = rep_stosw (st16 m edi ax) (edi + 2) ax ecx"

text \<open>\<^verbatim>\<open>rep movsl\<close>: copy \<^verbatim>\<open>ecx\<close> doublewords, moving up.\<close>

fun rep_movsl :: "mem \<Rightarrow> u32 \<Rightarrow> u32 \<Rightarrow> nat \<Rightarrow> mem" where
  "rep_movsl m edi esi 0 = m"
| "rep_movsl m edi esi (Suc ecx) = rep_movsl (st32 m edi (ld32 m esi)) (edi + 4) (esi + 4) ecx"

text \<open>\<^verbatim>\<open>rep movsb\<close> with the direction flag clear and set.\<close>

fun rep_movsb_up :: "mem \<Rightarrow> u32 \<Rightarrow> u32 \<Rightarrow> nat \<Rightarrow> mem" where
  "rep_movsb_up m edi esi 0 = m"
| "rep_movsb_up m edi esi (Suc ecx) = rep_movsb_up (m(edi := m esi)) (edi + 1) (esi + 1) ecx"

fun rep_movsb_down :: "mem \<Rightarrow> u32 \<Rightarrow> u32 \<Rightarrow> nat \<Rightarrow> mem" where
  "rep_movsb_down m edi esi 0 = m"
| "rep_movsb_down m edi esi (Suc ecx) =
     rep_movsb_down (m(edi := m esi)) (edi - 1) (esi - 1) ecx"

section \<open>memset\<close>

text \<open>The \<^verbatim>\<open>.memset_bottom\<close> loop.\<close>

fun memset_bottom :: "mem \<Rightarrow> u32 \<Rightarrow> u8 \<Rightarrow> nat \<Rightarrow> mem" where
  "memset_bottom m edi al 0 = m"
| "memset_bottom m edi al (Suc edx) = memset_bottom (m(edi := al)) (edi + 1) al edx"

text \<open>The \<^verbatim>\<open>.memset_top\<close> loop with the \<^verbatim>\<open>.memset_aligned\<close> block it leaves through.\<close>

fun memset_top :: "mem \<Rightarrow> u32 \<Rightarrow> u32 \<Rightarrow> nat \<Rightarrow> mem" where
  "memset_top m edi eax 0 = m"
| "memset_top m edi eax (Suc ecx) =
     (if edi AND 3 = 0
      then let n = Suc ecx; k = n div 4
           in memset_bottom (rep_stosl m edi eax k) (edi + of_nat (4 * k)) (ucast eax) (n mod 4)
      else memset_top (m(edi := ucast eax)) (edi + 1) eax ecx)"

definition memset :: "mem \<Rightarrow> u32 \<Rightarrow> u32 \<Rightarrow> nat \<Rightarrow> mem" where
  "memset m s c n =
     (let c = c AND 255
      in memset_top m s (push_bit 24 c OR push_bit 16 c OR push_bit 8 c OR c) n)"

definition memset_word :: "mem \<Rightarrow> u32 \<Rightarrow> u32 \<Rightarrow> nat \<Rightarrow> mem" where
  "memset_word m s c n = rep_stosw m s (ucast c) n"

definition memset_dword :: "mem \<Rightarrow> u32 \<Rightarrow> u32 \<Rightarrow> nat \<Rightarrow> mem" where
  "memset_dword m s c n = rep_stosl m s c n"

section \<open>memcpy and memmove\<close>

fun memcpy_bottom :: "mem \<Rightarrow> u32 \<Rightarrow> u32 \<Rightarrow> nat \<Rightarrow> mem" where
  "memcpy_bottom m edi esi 0 = m"
| "memcpy_bottom m edi esi (Suc edx) = memcpy_bottom (m(edi := m esi)) (edi + 1) (esi + 1) edx"

fun memcpy_top :: "mem \<Rightarrow> u32 \<Rightarrow> u32 \<Rightarrow> nat \<Rightarrow> mem" where
  "memcpy_top m edi esi 0 = m"
| "memcpy_top m edi esi (Suc ecx) =
     (if edi AND 3 = 0
      then let n = Suc ecx; k = n div 4
           in memcpy_bottom (rep_movsl m edi esi k)
                (edi + of_nat (4 * k)) (esi + of_nat (4 * k)) (n mod 4)
      else memcpy_top (m(edi := m esi)) (edi + 1) (esi + 1) ecx)"

definition memcpy :: "mem \<Rightarrow> u32 \<Rightarrow> u32 \<Rightarrow> nat \<Rightarrow> mem" where
  "memcpy m dest src n = memcpy_top m dest src n"

definition memmove :: "mem \<Rightarrow> u32 \<Rightarrow> u32 \<Rightarrow> nat \<Rightarrow> mem" where
  "memmove m dest src n =
     (if dest \<le> src then rep_movsb_up m dest src n
      else rep_movsb_down m (dest + of_nat n - 1) (src + of_nat n - 1) n)"

section \<open>The effect of the fill loops\<close>

lemma wr_Cons_list:
  "length xs + length ys \<le> 4294967296 \<Longrightarrow> wr (wr m a xs) (a + of_nat (length xs)) ys = wr m a (xs @ ys)"
  by (simp add: wr_append)

lemma memset_bottom_wr: "n \<le> 4294967296 \<Longrightarrow> memset_bottom m a c n = wr m a (replicate n c)"
  by (induction n arbitrary: m a) (simp_all add: wr_Cons)

text \<open>Four bytes of one value, as \<^verbatim>\<open>memset\<close> builds them in \<^verbatim>\<open>eax\<close>.\<close>

lemma replicate_4: "replicate 4 x = [x, x, x, x]"
  by (simp add: numeral_eq_Suc)

lemma and_255: "(c :: u32) AND 255 = take_bit 8 c"
  by (simp add: take_bit_eq_mask mask_eq_exp_minus_1)

lemma ucast_spread:
  fixes c :: u32
  assumes "c AND 255 = c"
  shows "bytes32 (push_bit 24 c OR push_bit 16 c OR push_bit 8 c OR c) = replicate 4 (ucast c)"
proof -
  from assms have "take_bit 8 c = c" by (simp add: and_255)
  then have high: "\<not> bit c i" if "8 \<le> i" for i
    using that by (metis bit_take_bit_iff not_le)
  show ?thesis
    unfolding bytes32_def replicate_4
    by (auto intro!: bit_eqI simp: bit_simps high)
qed

lemma st32_wr: "st32 m a w = wr m a (bytes32 w)"
  by (rule st32_def)

lemma rep_stosl_wr:
  "4 * n \<le> 4294967296 \<Longrightarrow> rep_stosl m a w n = wr m a (concat (replicate n (bytes32 w)))"
proof (induction n arbitrary: m a)
  case 0
  then show ?case by simp
next
  case (Suc n)
  have "rep_stosl m a w (Suc n) = wr (wr m a (bytes32 w)) (a + 4) (concat (replicate n (bytes32 w)))"
    using Suc by (simp add: st32_def)
  also have "\<dots> = wr m a (bytes32 w @ concat (replicate n (bytes32 w)))"
    using Suc.prems
      wr_Cons_list [of "bytes32 w" "concat (replicate n (bytes32 w))" m a]
    by (simp add: bytes32_def length_concat sum_list_replicate)
  finally show ?case by simp
qed

lemma concat_replicate_replicate: "concat (replicate n (replicate k x)) = replicate (n * k) x"
  by (induction n) (simp_all add: replicate_add)

lemma ucast_low_byte: "(ucast (c AND 255 :: u32) :: u8) = ucast c"
  by (rule bit_eqI) (auto simp: and_255 bit_simps)

text \<open>\<^verbatim>\<open>memset\<close> stores \<open>n\<close> copies of the low byte of its argument.\<close>

lemma memset_top_wr:
  assumes "bytes32 eax = replicate 4 (ucast eax)"
  shows "n \<le> 4294967296 \<Longrightarrow> memset_top m a eax n = wr m a (replicate n (ucast eax))"
proof (induction n arbitrary: m a)
  case 0
  then show ?case by simp
next
  case (Suc n)
  let ?n = "Suc n" and ?c = "ucast eax :: u8"
  show ?case
  proof (cases "a AND 3 = 0")
    case True
    have split: "?n = ?n div 4 * 4 + ?n mod 4" by simp
    have "memset_top m a eax ?n =
        wr (wr m a (replicate (?n div 4 * 4) ?c)) (a + of_nat (?n div 4 * 4)) (replicate (?n mod 4) ?c)"
      using True Suc.prems
      by (simp add: Let_def memset_bottom_wr rep_stosl_wr assms concat_replicate_replicate
          mult.commute del: of_nat_Suc)
    also have "\<dots> = wr m a (replicate (?n div 4 * 4) ?c @ replicate (?n mod 4) ?c)"
      using Suc.prems split wr_Cons_list [of "replicate (?n div 4 * 4) ?c" "replicate (?n mod 4) ?c"]
      by simp
    also have "\<dots> = wr m a (replicate ?n ?c)"
      by (metis split replicate_add)
    finally show ?thesis .
  next
    case False
    with Suc show ?thesis by (simp add: wr_Cons)
  qed
qed

lemma memset_wr:
  assumes "n \<le> 4294967296"
  shows "memset m a c n = wr m a (replicate n (ucast c))"
proof -
  let ?c = "c AND 255"
  let ?eax = "push_bit 24 ?c OR push_bit 16 ?c OR push_bit 8 ?c OR ?c"
  have spread: "bytes32 ?eax = replicate 4 (ucast ?c)"
    by (rule ucast_spread) (simp add: and.assoc)
  then have "ucast ?eax = (ucast ?c :: u8)"
    by (simp only: bytes32_def replicate_4 list.inject)
  with spread have "memset_top m a ?eax n = wr m a (replicate n (ucast ?c))"
    using memset_top_wr [of ?eax n m a] assms by simp
  then show ?thesis by (simp add: memset_def Let_def ucast_low_byte)
qed

lemma rep_stosw_wr:
  "2 * n \<le> 4294967296 \<Longrightarrow>
     rep_stosw m a w n = wr m a (concat (replicate n [ucast w, ucast (drop_bit 8 w)]))"
proof (induction n arbitrary: m a)
  case 0
  then show ?case by simp
next
  case (Suc n)
  let ?b = "[ucast w, ucast (drop_bit 8 w)] :: u8 list"
  have "rep_stosw m a w (Suc n) = wr (wr m a ?b) (a + 2) (concat (replicate n ?b))"
    using Suc by (simp add: st16_def)
  also have "\<dots> = wr m a (?b @ concat (replicate n ?b))"
    using Suc.prems wr_Cons_list [of ?b "concat (replicate n ?b)" m a]
    by (simp add: length_concat sum_list_replicate)
  finally show ?case by simp
qed

section \<open>The effect of the copy loops\<close>

text \<open>
  A copy that moves up reads byte \<open>j\<close> after it has written the bytes \<open>i < j\<close>: it is a
  plain copy when none of those writes hits a byte still to be read. A copy that moves down needs the
  mirror image.
\<close>

definition up_safe :: "u32 \<Rightarrow> u32 \<Rightarrow> nat \<Rightarrow> bool" where
  "up_safe d s n \<longleftrightarrow> n \<le> 4294967296 \<and> (\<forall>j < n. \<forall>i < j. d + of_nat i \<noteq> s + of_nat j)"

definition down_safe :: "u32 \<Rightarrow> u32 \<Rightarrow> nat \<Rightarrow> bool" where
  "down_safe d s n \<longleftrightarrow> n \<le> 4294967296 \<and> (\<forall>i < n. \<forall>j < i. d + of_nat i \<noteq> s + of_nat j)"

lemma up_safe_drop:
  assumes "up_safe d s (k + n)"
  shows "up_safe (d + of_nat k) (s + of_nat k) n"
  unfolding up_safe_def
proof (intro conjI allI impI)
  show "n \<le> 4294967296" using assms by (simp add: up_safe_def)
  fix j i
  assume "j < n" "i < j"
  then have "d + of_nat (k + i) \<noteq> s + of_nat (k + j)"
    using assms unfolding up_safe_def by (metis nat_add_left_cancel_less)
  then show "d + of_nat k + of_nat i \<noteq> s + of_nat k + of_nat j"
    by (simp add: add.assoc)
qed

lemma up_safe_rd:
  assumes "up_safe d s (k + n)" and "length xs = k"
  shows "rd (wr m d xs) (s + of_nat k) n = rd m (s + of_nat k) n"
proof (rule rd_cong)
  fix j assume "j < n"
  have "\<not> in_range d (length xs) (s + of_nat (k + j))"
  proof
    assume "in_range d (length xs) (s + of_nat (k + j))"
    moreover have "k \<le> 4294967296" using assms by (simp add: up_safe_def)
    ultimately obtain i where "i < k" "s + of_nat (k + j) = d + of_nat i"
      using assms(2) by (auto simp: in_range_iff)
    with assms(1) \<open>j < n\<close> show False
      unfolding up_safe_def by (metis nat_add_left_cancel_less trans_less_add1)
  qed
  then show "wr m d xs (s + of_nat k + of_nat j) = m (s + of_nat k + of_nat j)"
    by (simp add: wr_outside add.assoc)
qed

text \<open>One chunk of \<open>k\<close> bytes, then the rest: the induction step shared by all copies that move up.\<close>

lemma up_safe_chunk:
  assumes "up_safe d s (k + n)"
  shows "wr (wr m d (rd m s k)) (d + of_nat k) (rd (wr m d (rd m s k)) (s + of_nat k) n)
       = wr m d (rd m s (k + n))"
proof -
  have "rd (wr m d (rd m s k)) (s + of_nat k) n = rd m (s + of_nat k) n"
    using assms by (rule up_safe_rd) simp
  moreover have "k + n \<le> 4294967296" using assms by (simp add: up_safe_def)
  ultimately show ?thesis
    using wr_Cons_list [of "rd m s k" "rd m (s + of_nat k) n" m d] by (simp add: rd_append)
qed

lemma rep_movsb_up_wr: "up_safe d s n \<Longrightarrow> rep_movsb_up m d s n = wr m d (rd m s n)"
proof (induction n arbitrary: m d s)
  case 0
  then show ?case by simp
next
  case (Suc n)
  then have "up_safe d s (1 + n)" by simp
  from Suc.IH [OF up_safe_drop [OF this]] up_safe_chunk [OF this, of m]
  show ?case by (simp add: rd_Suc wr_single fun_upd_def)
qed

lemma memcpy_bottom_movsb: "memcpy_bottom m d s n = rep_movsb_up m d s n"
  by (induction n arbitrary: m d s) simp_all

lemma length_4: "length bs = 4 \<longleftrightarrow> (\<exists>a b c d. bs = [a, b, c, d])"
  by (auto simp: length_Suc_conv numeral_eq_Suc)

lemma bytes32_le32: "length bs = 4 \<Longrightarrow> bytes32 (le32 bs) = bs"
  by (auto simp: length_4 bytes32_def le32_def bit_simps intro!: bit_eqI)

lemma le32_bytes32: "le32 (bytes32 w) = w"
proof (rule bit_eqI)
  fix n :: nat
  assume "possible_bit TYPE(u32) n"
  then have "n < 32" by simp
  then consider "n < 8" | k where "n = 8 + k" "k < 8" | k where "n = 16 + k" "k < 8"
    | k where "n = 24 + k" "k < 8"
    using that(2) [of "n - 8"] that(3) [of "n - 16"] that(4) [of "n - 24"] that(1)
    by (cases "n < 8"; cases "n < 16"; cases "n < 24") simp_all
  then show "bit (le32 (bytes32 w)) n = bit w n"
    by cases (simp_all add: bytes32_def le32_def bit_simps)
qed

lemma ld32_st32: "ld32 (st32 m a w) a = w"
proof -
  have "length (bytes32 w) = 4" by (simp add: bytes32_def)
  then show ?thesis
    unfolding ld32_def st32_def using rd_wr_same [of "bytes32 w" m a] by (simp add: le32_bytes32)
qed

lemma st32_ld32: "st32 m d (ld32 m s) = wr m d (rd m s 4)"
  by (simp add: st32_def ld32_def bytes32_le32)

lemma rep_movsl_wr: "up_safe d s (4 * n) \<Longrightarrow> rep_movsl m d s n = wr m d (rd m s (4 * n))"
proof (induction n arbitrary: m d s)
  case 0
  then show ?case by simp
next
  case (Suc n)
  then have "up_safe d s (4 + 4 * n)" by simp
  from Suc.IH [OF up_safe_drop [OF this]] up_safe_chunk [OF this, of m]
  show ?case by (simp add: st32_ld32)
qed

lemma memcpy_top_wr: "up_safe d s n \<Longrightarrow> memcpy_top m d s n = wr m d (rd m s n)"
proof (induction n arbitrary: m d s)
  case 0
  then show ?case by simp
next
  case (Suc n)
  show ?case
  proof (cases "d AND 3 = 0")
    case True
    let ?k = "4 * (Suc n div 4)" and ?r = "Suc n mod 4"
    have split: "?k + ?r = Suc n" by simp
    then have safe: "up_safe d s (?k + ?r)" using Suc.prems by simp
    then have head: "up_safe d s ?k" by (auto simp: up_safe_def)
    have "memcpy_top m d s (Suc n) = rep_movsb_up (wr m d (rd m s ?k)) (d + of_nat ?k) (s + of_nat ?k) ?r"
      using True head
      by (simp add: Let_def memcpy_bottom_movsb rep_movsl_wr del: of_nat_mult of_nat_Suc)
    also have "\<dots> = wr m d (rd m s (?k + ?r))"
      using rep_movsb_up_wr [OF up_safe_drop [OF safe]] up_safe_chunk [OF safe, of m] by simp
    finally show ?thesis by (simp only: split)
  next
    case False
    from Suc.prems have "up_safe d s (1 + n)" by simp
    from Suc.IH [OF up_safe_drop [OF this]] up_safe_chunk [OF this, of m] False
    show ?thesis by (simp add: rd_Suc wr_single fun_upd_def)
  qed
qed

lemma memcpy_wr: "up_safe d s n \<Longrightarrow> memcpy m d s n = wr m d (rd m s n)"
  by (simp add: memcpy_def memcpy_top_wr)

lemma wr_snoc:
  assumes "length xs < 4294967296"
  shows "wr m a (xs @ [x]) = wr (m(a + of_nat (length xs) := x)) a xs"
proof -
  let ?e = "a + of_nat (length xs)"
  have "wr m a (xs @ [x]) = (wr m a xs)(?e := x)"
    using assms by (simp add: wr_append wr_single)
  also have "\<dots> = wr (m(?e := x)) a xs"
  proof
    fix y
    have "unat (?e - a) = length xs" using assms by (rule unat_add_diff)
    then show "((wr m a xs)(?e := x)) y = wr (m(?e := x)) a xs y"
      by (cases "y = ?e") (simp_all add: wr_def)
  qed
  finally show ?thesis .
qed

lemma rep_movsb_down_wr:
  "down_safe d s n \<Longrightarrow>
     rep_movsb_down m (d + of_nat n - 1) (s + of_nat n - 1) n = wr m d (rd m s n)"
proof (induction n arbitrary: m)
  case 0
  then show ?case by simp
next
  case (Suc n)
  let ?m = "m(d + of_nat n := m (s + of_nat n))"
  from Suc.prems have "down_safe d s n" by (simp add: down_safe_def)
  then have "rep_movsb_down m (d + of_nat (Suc n) - 1) (s + of_nat (Suc n) - 1) (Suc n)
      = wr ?m d (rd ?m s n)"
    using Suc.IH [of ?m] by (simp add: fun_upd_def)
  moreover have "rd ?m s n = rd m s n"
    using Suc.prems by (intro rd_cong) (auto simp: down_safe_def, metis lessI)
  moreover have "n < 4294967296" using Suc.prems by (simp add: down_safe_def)
  ultimately show ?case
    using wr_snoc [of "rd m s n" m d "m (s + of_nat n)"] by (simp add: rd_snoc)
qed

text \<open>No range that \<^verbatim>\<open>memmove\<close> is given wraps around the address space.\<close>

definition no_wrap :: "u32 \<Rightarrow> nat \<Rightarrow> bool" where
  "no_wrap a n \<longleftrightarrow> unat a + n \<le> 4294967296"

lemma memmove_wr:
  assumes "no_wrap d n" and "no_wrap s n"
  shows "memmove m d s n = wr m d (rd m s n)"
proof (cases "d \<le> s")
  case True
  have "up_safe d s n"
    unfolding up_safe_def
  proof (intro conjI allI impI)
    show "n \<le> 4294967296" using assms by (simp add: no_wrap_def)
    fix j i assume "j < n" "i < j"
    with assms have "unat (d + of_nat i) = unat d + i" "unat (s + of_nat j) = unat s + j"
      by (simp_all add: no_wrap_def u32_less_add_eq)
    with True \<open>i < j\<close> show "d + of_nat i \<noteq> s + of_nat j"
      by (metis add_le_less_mono nat_neq_iff word_le_nat_alt)
  qed
  with True show ?thesis by (simp add: memmove_def rep_movsb_up_wr)
next
  case False
  have "down_safe d s n"
    unfolding down_safe_def
  proof (intro conjI allI impI)
    show "n \<le> 4294967296" using assms by (simp add: no_wrap_def)
    fix i j assume "i < n" "j < i"
    with assms have "unat (d + of_nat i) = unat d + i" "unat (s + of_nat j) = unat s + j"
      by (simp_all add: no_wrap_def u32_less_add_eq)
    with False \<open>j < i\<close> show "d + of_nat i \<noteq> s + of_nat j"
      by (metis add_less_mono nat_neq_iff not_le word_less_nat_alt)
  qed
  with False show ?thesis by (simp add: memmove_def rep_movsb_down_wr)
qed

section \<open>What callers rely on\<close>

text \<open>
  The contract of a block copy: under its precondition the destination holds the bytes the source
  held, and nothing else changes. The theorems are proved once here and hold for \<open>memcpy\<close> and
  \<open>memmove\<close> through the interpretations below.
\<close>

locale block_copy =
  fixes copy :: "mem \<Rightarrow> u32 \<Rightarrow> u32 \<Rightarrow> nat \<Rightarrow> mem"
    and ok :: "u32 \<Rightarrow> u32 \<Rightarrow> nat \<Rightarrow> bool"
  assumes copy_wr: "ok d s n \<Longrightarrow> copy m d s n = wr m d (rd m s n)"
    and ok_size: "ok d s n \<Longrightarrow> n \<le> 4294967296"
begin

lemma copied: "ok d s n \<Longrightarrow> rd (copy m d s n) d n = rd m s n"
  using rd_wr_same [of "rd m s n" m d] by (simp add: copy_wr ok_size)

lemma copy_outside: "ok d s n \<Longrightarrow> \<not> in_range d n x \<Longrightarrow> copy m d s n x = m x"
  by (simp add: copy_wr wr_outside)

lemma copy_disjoint: "ok d s n \<Longrightarrow> disjoint_ranges b k d n \<Longrightarrow> rd (copy m d s n) b k = rd m b k"
  by (simp add: copy_wr rd_wr_disjoint)

lemma copy_twice:
  assumes "ok d s n" and "ok e d n"
  shows "rd (copy (copy m d s n) e d n) e n = rd m s n"
  using assms by (simp add: copied)

end

interpretation cpy: block_copy memcpy up_safe
  by unfold_locales (auto simp: memcpy_wr up_safe_def)

interpretation mov: block_copy memmove "\<lambda>d s n. no_wrap d n \<and> no_wrap s n"
  by unfold_locales (auto simp: memmove_wr no_wrap_def)

lemma disjoint_up_safe:
  assumes "disjoint_ranges d n s n" and "n \<le> 4294967296"
  shows "up_safe d s n"
  unfolding up_safe_def
proof (intro conjI allI impI)
  fix j i assume "j < n" "i < j"
  then have "\<not> in_range s n (d + of_nat i)" using assms by (simp add: disjoint_ranges_def)
  with \<open>j < n\<close> assms(2) show "d + of_nat i \<noteq> s + of_nat j"
    by (auto simp: in_range_iff)
qed (rule assms(2))

section \<open>Properties\<close>

text \<open>
  Property C22: \<^verbatim>\<open>memset\<close>, whatever the alignment of its argument, has the effect of \<open>n\<close>
  single byte stores of the low byte of \<open>c\<close>: the unaligned head loop, the doubleword fill and the
  tail loop together write exactly the \<open>n\<close> bytes.
\<close>

theorem memset_fills:
  assumes "n \<le> 4294967295"
  shows "memset m s c n = wr m s (replicate n (ucast c))"
  using assms by (simp add: memset_wr)

theorem memset_fills_witness:
  "memset (\<lambda>_. 9) 3 0x105 11 = wr (\<lambda>_. 9) 3 (replicate 11 5)"
proof -
  have "(ucast (0x105 :: u32) :: u8) = 5" by simp
  moreover have "(11 :: nat) \<le> 4294967295" by simp
  ultimately show ?thesis using memset_fills [of 11 "\<lambda>_. 9" 3 "0x105"] by (simp only:)
qed

text \<open>
  \<^verbatim>\<open>memcpy\<close> on ranges that do not overlap copies: the destination reads as the
  source did, the source and every other byte keep their values.
\<close>

lemma memcpy_copies:
  assumes "disjoint_ranges dest n src n" and "n \<le> 4294967295"
  shows "rd (memcpy m dest src n) dest n = rd m src n \<and>
    rd (memcpy m dest src n) src n = rd m src n \<and>
    (\<forall>x. \<not> in_range dest n x \<longrightarrow> memcpy m dest src n x = m x)"
proof -
  have ok: "up_safe dest src n" using assms by (simp add: disjoint_up_safe)
  have "disjoint_ranges src n dest n" using assms by (simp add: disjoint_ranges_sym)
  with ok show ?thesis by (simp add: cpy.copied cpy.copy_disjoint cpy.copy_outside)
qed

lemma memcpy_copies_witness:
  "rd (memcpy (\<lambda>a. ucast a) 0x10 0x21 7) 0x10 7 = [0x21, 0x22, 0x23, 0x24, 0x25, 0x26, 0x27]"
proof -
  have d: "disjoint_ranges 0x10 7 0x21 7"
    by (rule disjoint_ranges_apart) simp
  show ?thesis
    using memcpy_copies [OF d] by (simp add: rd_def upt_rec)
qed

text \<open>
  Property C21: \<^verbatim>\<open>memmove\<close> is correct for every overlap of source and destination, as long as
  neither range wraps around the address space: after the move the destination holds what the
  source held before, and no byte outside the destination changes.
\<close>

theorem memmove_overlap:
  assumes "unat dest + n \<le> 4294967296" and "unat src + n \<le> 4294967296"
  shows "rd (memmove m dest src n) dest n = rd m src n \<and>
    (\<forall>x. \<not> in_range dest n x \<longrightarrow> memmove m dest src n x = m x)"
  using assms by (simp add: mov.copied mov.copy_outside no_wrap_def)

theorem memmove_overlap_witness:
  "rd (memmove (\<lambda>a. ucast a) 0x12 0x10 5) 0x12 5 = [0x10, 0x11, 0x12, 0x13, 0x14]"
  using memmove_overlap [of "0x12" 5 "0x10"] by (simp add: rd_def upt_rec)

end
