(* ===== verification/Lib_String.thy ===== *)
theory Lib_String
  imports Kernel_Prelude
begin

text \<open>
  The string functions of \<^verbatim>\<open>lib.c\<close>: \<^verbatim>\<open>strlen\<close>, \<^verbatim>\<open>strncmp\<close>, \<^verbatim>\<open>strcpy\<close>,
  \<^verbatim>\<open>strncpy\<close>, \<^verbatim>\<open>strrev\<close> and \<^verbatim>\<open>itoa\<close>. Read-only arguments are \<open>cptr\<close>s;
  \<^verbatim>\<open>strcpy\<close> and \<^verbatim>\<open>strncpy\<close> work on memory; \<^verbatim>\<open>strrev\<close> and \<^verbatim>\<open>itoa\<close>, which the kernel
  calls on local buffers only, work on an array object (a byte list) and an offset into it, and
  answer \<open>OutOfBounds\<close> when they leave it.

  The main results: \<^verbatim>\<open>strncmp\<close> decides equality of the strings cut at the first null byte
  or the bound, and \<^verbatim>\<open>itoa\<close> followed by reading the digits back is the identity for every
  radix the digit table supports.
\<close>

section \<open>Scanning strings\<close>

text \<open>
  \<^verbatim>\<open>strlen\<close>: the counter is a \<^verbatim>\<open>uint32_t\<close>. When it reaches \<open>2^32\<close> it has wrapped to 0
  without meeting a null byte in the whole address space and the loop repeats for ever.
\<close>

function strlen_from :: "mem \<Rightarrow> cptr \<Rightarrow> nat \<Rightarrow> nat res" where
  "strlen_from m s len =
     (if 4294967296 \<le> len then Inl Hang
      else rbind (fetch m s len) (\<lambda>c. if c \<noteq> 0 then strlen_from m s (Suc len) else Inr len))"
  by pat_completeness auto
termination
  by (relation "measure (\<lambda>(m, s, len). 4294967296 - len)") auto

definition strlen :: "mem \<Rightarrow> cptr \<Rightarrow> nat res" where
  "strlen m s = strlen_from m s 0"

text \<open>
  \<^verbatim>\<open>strncmp\<close>: \<^verbatim>\<open>int8_t\<close> is a signed \<^verbatim>\<open>char\<close>, so the bytes are compared as signed
  values. The index is an \<^verbatim>\<open>int32_t\<close>; it overflows at \<open>2^31\<close>.
\<close>

function strncmp_from :: "mem \<Rightarrow> cptr \<Rightarrow> cptr \<Rightarrow> nat \<Rightarrow> nat \<Rightarrow> int res" where
  "strncmp_from m s1 s2 n i =
     (if n \<le> i then Inr 0
      else if 2147483648 \<le> i then Inl UndefinedArith
      else rbind (fetch m s1 i) (\<lambda>a. rbind (fetch m s2 i) (\<lambda>b.
             if a \<noteq> b \<or> a = 0 then Inr (sint a - sint b)
             else strncmp_from m s1 s2 n (Suc i))))"
  by pat_completeness auto
termination
  by (relation "measure (\<lambda>(m, s1, s2, n, i). n - i)") auto

definition strncmp :: "mem \<Rightarrow> cptr \<Rightarrow> cptr \<Rightarrow> nat \<Rightarrow> int res" where
  "strncmp m s1 s2 n = strncmp_from m s1 s2 n 0"

section \<open>Copying strings\<close>

function strcpy_from :: "mem \<Rightarrow> u32 \<Rightarrow> u32 \<Rightarrow> nat \<Rightarrow> mem res" where
  "strcpy_from m dest src i =
     (if 2147483648 \<le> i then Inl UndefinedArith
      else if m (src + of_nat i) \<noteq> 0
      then strcpy_from (m(dest + of_nat i := m (src + of_nat i))) dest src (Suc i)
      else Inr (m(dest + of_nat i := 0)))"
  by pat_completeness auto
termination
  by (relation "measure (\<lambda>(m, dest, src, i). 2147483648 - i)") auto

definition strcpy :: "mem \<Rightarrow> u32 \<Rightarrow> u32 \<Rightarrow> mem res" where
  "strcpy m dest src = strcpy_from m dest src 0"

text \<open>\<^verbatim>\<open>strncpy\<close>: the copying loop and the loop that fills the rest with null bytes.\<close>

function strncpy_pad :: "mem \<Rightarrow> u32 \<Rightarrow> nat \<Rightarrow> nat \<Rightarrow> mem" where
  "strncpy_pad m dest n i =
     (if i < n then strncpy_pad (m(dest + of_nat i := 0)) dest n (Suc i) else m)"
  by pat_completeness auto
termination
  by (relation "measure (\<lambda>(m, dest, n, i). n - i)") auto

function strncpy_copy :: "mem \<Rightarrow> u32 \<Rightarrow> u32 \<Rightarrow> nat \<Rightarrow> nat \<Rightarrow> mem" where
  "strncpy_copy m dest src n i =
     (if m (src + of_nat i) \<noteq> 0 \<and> i < n
      then strncpy_copy (m(dest + of_nat i := m (src + of_nat i))) dest src n (Suc i)
      else strncpy_pad m dest n i)"
  by pat_completeness auto
termination
  by (relation "measure (\<lambda>(m, dest, src, n, i). n - i)") auto

definition strncpy :: "mem \<Rightarrow> u32 \<Rightarrow> u32 \<Rightarrow> nat \<Rightarrow> mem res" where
  "strncpy m dest src n =
     (if n \<le> 2147483647 then Inr (strncpy_copy m dest src n 0) else Inl UndefinedArith)"

section \<open>Reversing and printing numbers\<close>

text \<open>
  \<^verbatim>\<open>strrev\<close>: the swaps touch indices below \<^verbatim>\<open>strlen(s)\<close> only, which \<^verbatim>\<open>strlen\<close> has found
  inside the object.
\<close>

function strrev_loop :: "u8 list \<Rightarrow> nat \<Rightarrow> nat \<Rightarrow> int \<Rightarrow> u8 list" where
  "strrev_loop b s beg en =
     (if int beg < en
      then let tmp = b ! (s + nat en);
               b = b[s + nat en := b ! (s + beg)];
               b = b[s + beg := tmp]
           in strrev_loop b s (Suc beg) (en - 1)
      else b)"
  by pat_completeness auto
termination
  by (relation "measure (\<lambda>(b, s, beg, en). nat (en - int beg))") auto

definition strrev :: "u8 list \<Rightarrow> nat \<Rightarrow> u8 list res" where
  "strrev b s =
     rbind (strlen (\<lambda>_. 0) (Obj (drop s b))) (\<lambda>len. Inr (strrev_loop b s 0 (int len - 1)))"

definition itoa_lookup :: "u8 list" where
  "itoa_lookup = bytes ''0123456789ABCDEFGHIJKLMNOPQRSTUVWXYZ'' @ [0]"

text \<open>
  The digit loop of \<^verbatim>\<open>itoa\<close>. \<^verbatim>\<open>radix\<close> is converted to an unsigned number by C's usual
  arithmetic conversions; every pass stores one digit, so the loop ends at the latest when it
  leaves the buffer.
\<close>

function itoa_loop :: "u8 list \<Rightarrow> nat \<Rightarrow> nat \<Rightarrow> nat \<Rightarrow> (u8 list \<times> nat) res" where
  "itoa_loop b newbuf newval radix =
     (if newval = 0 then Inr (b, newbuf)
      else if radix = 0 then Inl DivideError
      else rbind (fetch (\<lambda>_. 0) (Obj itoa_lookup) (newval mod radix)) (\<lambda>c.
             if newbuf < length b
             then itoa_loop (b[newbuf := c]) (Suc newbuf) (newval div radix) radix
             else Inl OutOfBounds))"
  by pat_completeness auto
termination
  by (relation "measure (\<lambda>(b, newbuf, newval, radix). length b - newbuf)") auto

definition itoa :: "u32 \<Rightarrow> u8 list \<Rightarrow> nat \<Rightarrow> int \<Rightarrow> u8 list res" where
  "itoa value b buf radix =
     (if value = 0
      then rbind (bset b buf 48) (\<lambda>b. bset b (Suc buf) 0)
      else rbind (itoa_loop b buf (unat value) (nat (radix mod 4294967296))) (\<lambda>(b, newbuf).
             rbind (bset b newbuf 0) (\<lambda>b. strrev b buf)))"

declare strlen_from.simps [simp del] strncmp_from.simps [simp del]
  strcpy_from.simps [simp del] strncpy_copy.simps [simp del] strncpy_pad.simps [simp del]
  strrev_loop.simps [simp del] itoa_loop.simps [simp del]

section \<open>strlen and strncmp\<close>

text \<open>
  \<open>str_at m p f n\<close>: reading \<open>p\<close> gives the bytes \<open>f 0, f 1, \<dots>\<close> up to the first null
  byte or the bound \<open>n\<close>. \<open>cut f n\<close> is the string those bytes spell.
\<close>

definition str_at :: "mem \<Rightarrow> cptr \<Rightarrow> (nat \<Rightarrow> u8) \<Rightarrow> nat \<Rightarrow> bool" where
  "str_at m p f n \<longleftrightarrow> (\<forall>i < n. (\<forall>j < i. f j \<noteq> 0) \<longrightarrow> fetch m p i = Inr (f i))"

definition cut :: "(nat \<Rightarrow> u8) \<Rightarrow> nat \<Rightarrow> u8 list" where
  "cut f n = takeWhile (\<lambda>c. c \<noteq> 0) (map f [0..<n])"

lemma str_at_Ptr: "str_at m (Ptr a) (\<lambda>i. m (a + of_nat i)) n"
  by (simp add: str_at_def)

lemma str_at_Obj: "n \<le> length xs \<Longrightarrow> str_at m (Obj xs) ((!) xs) n"
  by (simp add: str_at_def)

lemma str_at_lit:
  assumes "0 \<notin> set (bytes s)"
  shows "str_at m (lit s) (\<lambda>i. if i < length s then bytes s ! i else 0) n"
  unfolding str_at_def
proof (intro allI impI)
  fix i assume "\<forall>j < i. (if j < length s then bytes s ! j else 0) \<noteq> 0"
  then have "i \<le> length s" by (metis less_irrefl not_le_imp_less)
  then show "fetch m (lit s) i = Inr (if i < length s then bytes s ! i else 0)"
    by (auto simp: fetch_def lit_def bytes_def nth_append)
qed

lemma all_from_Suc:
  "(\<forall>j. i \<le> j \<and> j < n \<longrightarrow> P j) \<longleftrightarrow> (i < n \<longrightarrow> P i) \<and> (\<forall>j. Suc i \<le> j \<and> j < n \<longrightarrow> P j)"
  by (metis Suc_le_eq le_neq_implies_less less_imp_le order_refl)

lemma strlen_from_Inr:
  "strlen_from m p i = Inr n \<longleftrightarrow>
     i \<le> n \<and> n < 4294967296 \<and> fetch m p n = Inr 0 \<and>
     (\<forall>j. i \<le> j \<and> j < n \<longrightarrow> (\<exists>c. c \<noteq> 0 \<and> fetch m p j = Inr c))"
proof (induction m p i rule: strlen_from.induct)
  case (1 m p i)
  show ?case
  proof (cases "\<exists>c. i < 4294967296 \<and> fetch m p i = Inr c \<and> c \<noteq> 0")
    case True
    then obtain c where c: "i < 4294967296" "fetch m p i = Inr c" "c \<noteq> 0" by blast
    have "strlen_from m p i = strlen_from m p (Suc i)"
      using c by (simp add: strlen_from.simps [of m p i])
    moreover have "i \<le> n \<longleftrightarrow> i = n \<or> Suc i \<le> n" by auto
    ultimately show ?thesis
      using "1.IH" [OF _ c(2,3)] c by (simp add: all_from_Suc [of i]) auto
  next
    case False
    then show ?thesis
      by (cases "fetch m p i"; cases "i < 4294967296")
        (auto simp: strlen_from.simps [of m p i] le_less split: if_splits)
  qed
qed

lemma strlen_Inr:
  "strlen m p = Inr n \<longleftrightarrow>
     n < 4294967296 \<and> fetch m p n = Inr 0 \<and> (\<forall>j < n. \<exists>c. c \<noteq> 0 \<and> fetch m p j = Inr c)"
  by (simp add: strlen_def strlen_from_Inr)

lemma cut_Suc: "cut f (Suc n) = (if f 0 = 0 then [] else f 0 # cut (\<lambda>i. f (Suc i)) n)"
  by (simp add: cut_def map_upt_Suc del: upt_Suc)

lemma cut_eq_iff: "cut f n = cut g n \<longleftrightarrow> (\<forall>k < n. (\<forall>j < k. f j \<noteq> 0) \<longrightarrow> f k = g k)"
proof (induction n arbitrary: f g)
  case 0
  show ?case by (simp add: cut_def)
next
  case (Suc n)
  show ?case
    by (auto simp: cut_Suc Suc.IH All_less_Suc2)
qed

lemma strncmp_from_0:
  assumes "str_at m p f n" and "str_at m q g n" and "n \<le> 2147483648"
    and "\<forall>j < i. f j = g j \<and> f j \<noteq> 0"
  shows "strncmp_from m p q n i = Inr 0 \<longleftrightarrow> (\<forall>k < n. (\<forall>j < k. f j \<noteq> 0) \<longrightarrow> f k = g k)"
  using assms(4)
proof (induction "n - i" arbitrary: i)
  case 0
  then show ?case by (simp add: strncmp_from.simps [of m p q n i])
next
  case (Suc d)
  then have i: "i < n" by simp
  have "\<forall>j < i. f j \<noteq> 0" "\<forall>j < i. g j \<noteq> 0" using Suc.prems by auto
  with i assms(1,2) have f: "fetch m p i = Inr (f i)" and g: "fetch m q i = Inr (g i)"
    by (simp_all add: str_at_def)
  have step: "strncmp_from m p q n i = (if f i \<noteq> g i \<or> f i = 0 then Inr (sint (f i) - sint (g i))
      else strncmp_from m p q n (Suc i))"
    using i assms(3) f g by (simp add: strncmp_from.simps [of m p q n i])
  consider "f i \<noteq> g i" | "f i = g i" "f i = 0" | "f i = g i" "f i \<noteq> 0" by blast
  then show ?case
  proof cases
    case 1
    then have "sint (f i) \<noteq> sint (g i)" by (metis signed_word_eqI)
    with 1 step i Suc.prems show ?thesis by auto
  next
    case 2
    with step Suc.prems show ?thesis by (auto, metis nat_neq_iff)
  next
    case 3
    have "strncmp_from m p q n i = strncmp_from m p q n (Suc i)" using 3 step by simp
    also have "\<dots> = Inr 0 \<longleftrightarrow> (\<forall>k < n. (\<forall>j < k. f j \<noteq> 0) \<longrightarrow> f k = g k)"
    proof (rule Suc.hyps(1))
      show "d = n - Suc i" using Suc.hyps(2) by simp
      show "\<forall>j < Suc i. f j = g j \<and> f j \<noteq> 0" using Suc.prems 3 by (auto simp: less_Suc_eq)
    qed
    finally show ?thesis .
  qed
qed

lemma strncmp_from_total:
  assumes "str_at m p f n" and "str_at m q g n" and "n \<le> 2147483648"
    and "\<forall>j < i. f j = g j \<and> f j \<noteq> 0"
  shows "\<exists>c. strncmp_from m p q n i = Inr c"
  using assms(4)
proof (induction "n - i" arbitrary: i)
  case 0
  then show ?case by (simp add: strncmp_from.simps [of m p q n i])
next
  case (Suc d)
  then have i: "i < n" by simp
  have "\<forall>j < i. f j \<noteq> 0" "\<forall>j < i. g j \<noteq> 0" using Suc.prems by auto
  with i assms(1,2) have f: "fetch m p i = Inr (f i)" and g: "fetch m q i = Inr (g i)"
    by (simp_all add: str_at_def)
  show ?case
  proof (cases "f i \<noteq> g i \<or> f i = 0")
    case True
    then show ?thesis using i assms(3) f g by (simp add: strncmp_from.simps [of m p q n i])
  next
    case False
    then have "\<exists>c. strncmp_from m p q n (Suc i) = Inr c"
      using Suc.prems Suc.hyps(2) by (intro Suc.hyps(1)) (auto simp: less_Suc_eq)
    with False show ?thesis using i assms(3) f g by (simp add: strncmp_from.simps [of m p q n i])
  qed
qed

lemma strncmp_total:
  "str_at m p f n \<Longrightarrow> str_at m q g n \<Longrightarrow> n \<le> 2147483648 \<Longrightarrow> \<exists>c. strncmp m p q n = Inr c"
  unfolding strncmp_def by (rule strncmp_from_total) simp_all

lemma strncmp_eq_0:
  assumes "str_at m p f n" and "str_at m q g n" and "n \<le> 2147483648"
  shows "strncmp m p q n = Inr 0 \<longleftrightarrow> cut f n = cut g n"
  using assms by (simp add: strncmp_def strncmp_from_0 cut_eq_iff)

section \<open>strrev reverses\<close>

lemma strrev_loop_rev:
  "length A = s + beg \<Longrightarrow> en = int (beg + length M) - 1 \<Longrightarrow>
     strrev_loop (A @ M @ B) s beg en = A @ rev M @ B"
proof (induction "length M" arbitrary: A M B beg en rule: less_induct)
  case less
  show ?case
  proof (cases "length M \<le> 1")
    case True
    then have "rev M = M" by (cases M) auto
    with True less.prems show ?thesis by (simp add: strrev_loop.simps [of "A @ M @ B"])
  next
    case False
    then obtain x N where "M = x # N" "N \<noteq> []" by (cases M) auto
    then obtain y M' where M: "M = x # M' @ [y]" by (metis append_butlast_last_id)
    have en: "s + nat en = length A + Suc (length M')" and lt: "int beg < en"
      using less.prems M by auto
    have "strrev_loop (A @ M @ B) s beg en =
        strrev_loop ((A @ [y]) @ M' @ (x # B)) s (Suc beg) (en - 1)"
      using lt en less.prems(1) M
      by (simp add: strrev_loop.simps [of "A @ x # M' @ y # B"] Let_def nth_append list_update_append)
    also have "\<dots> = (A @ [y]) @ rev M' @ (x # B)"
      by (rule less.hyps) (use less.prems M in auto)
    finally show ?thesis using M by simp
  qed
qed

lemma strlen_Obj:
  assumes "0 \<notin> set xs" and "length xs < 4294967296"
  shows "strlen m (Obj (xs @ 0 # ys)) = Inr (length xs)"
  using assms by (auto simp: strlen_Inr nth_append) (metis nth_mem)

lemma strrev_rev:
  assumes "0 \<notin> set xs" and "length xs < 4294967296" and "length A = s"
  shows "strrev (A @ xs @ 0 # ys) s = Inr (A @ rev xs @ 0 # ys)"
  using assms strrev_loop_rev [of A s 0 "int (length xs) - 1" xs "0 # ys"]
  by (simp add: strrev_def strlen_Obj)

section \<open>itoa prints a number its digits spell\<close>

text \<open>The digits of a number, least significant first, and the number a string of digits spells.\<close>

function lsd :: "nat \<Rightarrow> nat \<Rightarrow> nat list" where
  "lsd r v = (if v = 0 \<or> r < 2 then [] else v mod r # lsd r (v div r))"
  by pat_completeness auto
termination
  by (relation "measure (\<lambda>(r, v). v)") auto

declare lsd.simps [simp del]

definition digit_val :: "u8 \<Rightarrow> nat" where
  "digit_val c = (if unat c \<le> 57 then unat c - 48 else unat c - 55)"

definition parse_number :: "nat \<Rightarrow> u8 list \<Rightarrow> nat" where
  "parse_number r cs = foldl (\<lambda>acc c. acc * r + digit_val c) 0 cs"

lemma itoa_lookup_eq:
  "itoa_lookup = [48, 49, 50, 51, 52, 53, 54, 55, 56, 57, 65, 66, 67, 68, 69, 70, 71, 72, 73, 74,
     75, 76, 77, 78, 79, 80, 81, 82, 83, 84, 85, 86, 87, 88, 89, 90, 0]"
  by (simp add: itoa_lookup_def bytes_def)

lemma itoa_lookup_digit: "i < 36 \<Longrightarrow> digit_val (itoa_lookup ! i) = i \<and> itoa_lookup ! i \<noteq> 0"
proof -
  have "\<forall>i \<in> {..<36}. digit_val (itoa_lookup ! i) = i \<and> itoa_lookup ! i \<noteq> 0"
    by (simp add: itoa_lookup_eq digit_val_def lessThan_nat_numeral)
  then show "i < 36 \<Longrightarrow> digit_val (itoa_lookup ! i) = i \<and> itoa_lookup ! i \<noteq> 0" by simp
qed

lemma lsd_0 [simp]: "lsd r 0 = []"
  by (simp add: lsd.simps)

lemma itoa_loop_0 [simp]: "itoa_loop b p 0 r = Inr (b, p)"
  by (simp add: itoa_loop.simps)

lemma lsd_digits: "r \<le> 36 \<Longrightarrow> d \<in> set (lsd r v) \<Longrightarrow> d < 36"
proof (induction r v rule: lsd.induct)
  case (1 r v)
  show ?case
  proof (cases "v = 0 \<or> r < 2")
    case True
    with "1.prems" show ?thesis by (simp add: lsd.simps [of r v])
  next
    case False
    then have "v mod r < r" by simp
    then have "v mod r < 36" using "1.prems"(1) by (rule less_le_trans)
    with False "1.prems" "1.IH" show ?thesis by (auto simp: lsd.simps [of r v])
  qed
qed

lemma lsd_length: "2 \<le> r \<Longrightarrow> v < r ^ k \<Longrightarrow> length (lsd r v) \<le> k"
proof (induction k arbitrary: v)
  case 0
  then show ?case by (simp add: lsd.simps)
next
  case (Suc k)
  then have "v div r < r ^ k" by (simp add: less_mult_imp_div_less mult.commute)
  with Suc show ?case by (simp add: lsd.simps [of r v])
qed

lemma lsd_value: "2 \<le> r \<Longrightarrow> r \<le> 36 \<Longrightarrow>
  parse_number r (rev (map ((!) itoa_lookup) (lsd r v))) = v"
proof (induction r v rule: lsd.induct)
  case (1 r v)
  show ?case
  proof (cases "v = 0")
    case True
    then show ?thesis by (simp add: parse_number_def)
  next
    case False
    have "v mod r < r" using "1.prems"(1) by simp
    then have "v mod r < 36" using "1.prems"(2) by (rule less_le_trans)
    then have "digit_val (itoa_lookup ! (v mod r)) = v mod r" by (simp add: itoa_lookup_digit)
    moreover have "parse_number r (rev (map ((!) itoa_lookup) (lsd r (v div r)))) = v div r"
      using "1.prems" False by (intro "1.IH") auto
    ultimately show ?thesis
      using False "1.prems" by (simp add: lsd.simps [of r v] parse_number_def)
  qed
qed

lemma itoa_loop_lsd:
  "2 \<le> r \<Longrightarrow> r \<le> 36 \<Longrightarrow> p + length (lsd r v) \<le> length b \<Longrightarrow>
   itoa_loop b p v r =
     Inr (take p b @ map ((!) itoa_lookup) (lsd r v) @ drop (p + length (lsd r v)) b,
          p + length (lsd r v))"
proof (induction b p v r rule: itoa_loop.induct)
  case (1 b p v r)
  show ?case
  proof (cases "v = 0")
    case True
    with "1.prems" show ?thesis by simp
  next
    case False
    let ?c = "itoa_lookup ! (v mod r)"
    have len: "length itoa_lookup = 37" by (simp add: itoa_lookup_eq)
    have "v mod r < r" using "1.prems"(1) by simp
    then have "v mod r < 36" using "1.prems"(2) by (rule less_le_trans)
    then have c: "fetch (\<lambda>_. 0) (Obj itoa_lookup) (v mod r) = Inr ?c" using len by simp
    have lsd: "lsd r v = v mod r # lsd r (v div r)" using False "1.prems" by (simp add: lsd.simps [of r v])
    then have p: "p < length b" using "1.prems" by simp
    have "itoa_loop b p v r = itoa_loop (b[p := ?c]) (Suc p) (v div r) r"
      using False "1.prems" c p by (simp add: itoa_loop.simps [of b p v r])
    also have "\<dots> = Inr (take (Suc p) (b[p := ?c]) @ map ((!) itoa_lookup) (lsd r (v div r)) @
        drop (Suc p + length (lsd r (v div r))) (b[p := ?c]), Suc p + length (lsd r (v div r)))"
      using "1.prems" False c p lsd by (intro "1.IH") auto
    finally show ?thesis
      using lsd p by (simp add: take_Suc_conv_app_nth drop_update_cancel)
  qed
qed

text \<open>The digits of a value in a radix, most significant first.\<close>

definition digits :: "nat \<Rightarrow> u32 \<Rightarrow> u8 list" where
  "digits r v = (if v = 0 then [48] else rev (map ((!) itoa_lookup) (lsd r (unat v))))"

lemma digits_length: "2 \<le> r \<Longrightarrow> 0 < k \<Longrightarrow> unat v < r ^ k \<Longrightarrow> length (digits r v) \<le> k"
  by (simp add: digits_def lsd_length)

lemma digits_32: "2 \<le> r \<Longrightarrow> length (digits r v) \<le> 32"
proof -
  assume r: "2 \<le> r"
  have "unat v < 2 ^ 32" by simp
  also have "(2::nat) ^ 32 \<le> r ^ 32" using r by (rule power_mono) simp
  finally show ?thesis using r by (intro digits_length) simp_all
qed

lemma digits_not_0: "2 \<le> r \<Longrightarrow> r \<le> 36 \<Longrightarrow> 0 \<notin> set (digits r v)"
  unfolding digits_def using itoa_lookup_digit lsd_digits
  by (auto simp del: of_nat_unat dest!: sym [of "(0 :: u8)"])

lemma digits_not_Nil: "2 \<le> r \<Longrightarrow> digits r v \<noteq> []"
  by (simp add: digits_def lsd.simps [of r] unat_eq_0)

lemma digits_value: "2 \<le> r \<Longrightarrow> r \<le> 36 \<Longrightarrow> parse_number r (digits r v) = unat v"
  by (auto simp: digits_def lsd_value) (simp add: parse_number_def digit_val_def)

text \<open>
  \<open>itoa\<close> leaves the digits of the value as a null-terminated string at its argument, and keeps
  the rest of the buffer.
\<close>

lemma itoa_digits:
  assumes r: "2 \<le> r" "r \<le> 36" and room: "buf + 33 \<le> length b"
  shows "itoa v b buf (int r) =
    Inr (take buf b @ digits r v @ 0 # drop (Suc (buf + length (digits r v))) b)"
proof (cases "v = 0")
  case True
  have "(b[buf := 48])[Suc buf := 0] = take buf b @ [48] @ 0 # drop (Suc (Suc buf)) b"
    using room by (simp add: upd_conv_take_nth_drop take_Suc_conv_app_nth drop_update_cancel)
  then show ?thesis using True room by (simp add: itoa_def digits_def)
next
  case False
  let ?ds = "map ((!) itoa_lookup) (lsd r (unat v))" and ?n = "length (lsd r (unat v))"
  have dig: "digits r v = rev ?ds" using False by (simp add: digits_def)
  have n: "?n \<le> 32" using digits_32 [OF r(1), of v] by (simp add: dig)
  have nz: "0 \<notin> set ?ds" using digits_not_0 [OF r, of v] by (simp add: dig)
  let ?b = "take buf b @ ?ds @ drop (buf + ?n) b"
  have loop: "itoa_loop b buf (unat v) r = Inr (?b, buf + ?n)"
    using r room n by (intro itoa_loop_lsd) auto
  have b0: "?b[buf + ?n := 0] = take buf b @ ?ds @ 0 # drop (Suc (buf + ?n)) b"
    using room n by (simp add: list_update_append Cons_nth_drop_Suc [symmetric])
  have "itoa v b buf (int r) = strrev (take buf b @ ?ds @ 0 # drop (Suc (buf + ?n)) b) buf"
    using False r room n loop b0 by (simp add: itoa_def)
  also have "\<dots> = Inr (take buf b @ rev ?ds @ 0 # drop (Suc (buf + ?n)) b)"
    using nz n room by (intro strrev_rev) auto
  finally show ?thesis by (simp add: dig)
qed

section \<open>Copying strings\<close>

lemma rd_wr_prefix:
  assumes "disjoint_ranges src k dest k" and "i \<le> k" and "j < k"
  shows "wr m dest (rd m src i) (src + of_nat j) = m (src + of_nat j)"
proof -
  have "\<not> in_range dest (length (rd m src i)) (src + of_nat j)"
    using assms disjoint_ranges_mono [of src k dest k k i] by (simp add: disjoint_ranges_def)
  then show ?thesis by (rule wr_outside)
qed

lemma strcpy_from_wr:
  assumes d: "disjoint_ranges src (Suc n) dest (Suc n)" and n: "n < 2147483648"
    and nz: "\<forall>j < n. m (src + of_nat j) \<noteq> 0" and z: "m (src + of_nat n) = 0"
  shows "i \<le> n \<Longrightarrow> strcpy_from (wr m dest (rd m src i)) dest src i = Inr (wr m dest (rd m src (Suc n)))"
proof (induction "n - i" arbitrary: i)
  case 0
  then have "i = n" by simp
  moreover have "wr m dest (rd m src n) (src + of_nat n) = m (src + of_nat n)"
    using d by (rule rd_wr_prefix) simp_all
  ultimately show ?case
    using n z wr_upd_end [of "rd m src n" m dest 0] by (simp add: strcpy_from.simps rd_snoc)
next
  case (Suc k)
  then have "i < n" by simp
  moreover have "wr m dest (rd m src i) (src + of_nat i) = m (src + of_nat i)"
    using d by (rule rd_wr_prefix) (use \<open>i < n\<close> in simp_all)
  ultimately have "strcpy_from (wr m dest (rd m src i)) dest src i =
      strcpy_from (wr m dest (rd m src (Suc i))) dest src (Suc i)"
    using n nz wr_upd_end [of "rd m src i" m dest "m (src + of_nat i)"]
    by (simp add: strcpy_from.simps [of _ _ _ i] rd_snoc)
  with Suc \<open>i < n\<close> show ?case by simp
qed

lemma strncpy_pad_wr:
  "length xs \<le> n \<Longrightarrow> n \<le> 4294967296 \<Longrightarrow>
     strncpy_pad (wr m dest xs) dest n (length xs) = wr m dest (xs @ replicate (n - length xs) 0)"
proof (induction "n - length xs" arbitrary: xs)
  case 0
  then show ?case by (simp add: strncpy_pad.simps)
next
  case (Suc k)
  then have "length xs < n" by simp
  then have "strncpy_pad (wr m dest xs) dest n (length xs) =
      strncpy_pad (wr m dest (xs @ [0])) dest n (length (xs @ [0]))"
    using Suc.prems wr_upd_end [of xs m dest 0] by (simp add: strncpy_pad.simps [of "wr m dest xs"])
  also have "\<dots> = wr m dest ((xs @ [0]) @ replicate (n - length (xs @ [0])) 0)"
    using Suc \<open>length xs < n\<close> by (intro Suc.hyps) auto
  also have "n - length xs = Suc (n - length (xs @ [0]))" using \<open>length xs < n\<close> by simp
  then have "(xs @ [0]) @ replicate (n - length (xs @ [0])) 0 = xs @ replicate (n - length xs) (0 :: u8)"
    by simp
  finally show ?case .
qed

lemma strncpy_copy_wr:
  assumes d: "disjoint_ranges src n dest n" and n: "n \<le> 2147483647"
    and k: "k \<le> n" "\<forall>j < k. m (src + of_nat j) \<noteq> 0" "k < n \<Longrightarrow> m (src + of_nat k) = 0"
  shows "i \<le> k \<Longrightarrow> strncpy_copy (wr m dest (rd m src i)) dest src n i =
    wr m dest (rd m src k @ replicate (n - k) 0)"
proof (induction "k - i" arbitrary: i)
  case 0
  then have i: "i = k" by simp
  have "k < n \<Longrightarrow> wr m dest (rd m src k) (src + of_nat k) = 0"
    using d k by (simp add: rd_wr_prefix)
  then have "strncpy_copy (wr m dest (rd m src k)) dest src n k =
      strncpy_pad (wr m dest (rd m src k)) dest n (length (rd m src k))"
    by (auto simp: strncpy_copy.simps [of "wr m dest (rd m src k)"])
  also have "\<dots> = wr m dest (rd m src k @ replicate (n - length (rd m src k)) 0)"
    using k n by (intro strncpy_pad_wr) auto
  finally show ?case using i by simp
next
  case (Suc r)
  then have "i < k" by simp
  then have "strncpy_copy (wr m dest (rd m src i)) dest src n i =
      strncpy_copy (wr m dest (rd m src (Suc i))) dest src n (Suc i)"
    using d n k wr_upd_end [of "rd m src i" m dest "m (src + of_nat i)"]
      rd_wr_prefix [OF d, of i i m]
    by (simp add: strncpy_copy.simps [of "wr m dest (rd m src i)"] rd_snoc)
  with Suc \<open>i < k\<close> show ?case by simp
qed

section \<open>Properties\<close>

text \<open>
  \<^verbatim>\<open>strncmp\<close> returns zero exactly when the two strings, each cut at its first null byte
  or at the bound \<open>n\<close>, are equal.
\<close>

lemma strncmp_decides_equality:
  assumes "str_at m s1 f n" and "str_at m s2 g n" and "n \<le> 2147483647"
  shows "strncmp m s1 s2 n = Inr 0 \<longleftrightarrow> cut f n = cut g n"
  using assms by (simp add: strncmp_eq_0)

lemma strncmp_decides_equality_witness:
  "strncmp (\<lambda>a. if a = 66 \<or> a = 130 then 0 else 7) (Ptr 64) (Ptr 128) 32 = Inr 0"
proof -
  let ?m = "\<lambda>a :: u32. if a = 66 \<or> a = 130 then 0 else 7 :: u8"
  let ?f = "\<lambda>i. ?m (64 + of_nat i)" and ?g = "\<lambda>i. ?m (128 + of_nat i)"
  have "cut ?f 32 = [7, 7]" "cut ?g 32 = [7, 7]"
    by (simp_all add: cut_def upt_rec)
  then show ?thesis
    using strncmp_decides_equality [OF str_at_Ptr str_at_Ptr, of 32 ?m 64 128] by simp
qed

text \<open>
  Property C20: \<^verbatim>\<open>itoa\<close> followed by reading the digits back is the identity: for every radix from
  2 to 36 and a buffer with room for 32 digits and the terminator, \<^verbatim>\<open>itoa\<close> succeeds, leaves a non-empty
  null-terminated string of digits that spells the value, and keeps every byte of the buffer outside it.
\<close>

theorem itoa_roundtrip:
  assumes "2 \<le> radix" and "radix \<le> 36" and "buf + 33 \<le> length b"
  shows "\<exists>b' ds. itoa value b buf (int radix) = Inr b' \<and> length b' = length b \<and>
    take (Suc (length ds)) (drop buf b') = ds @ [0] \<and> ds \<noteq> [] \<and> 0 \<notin> set ds \<and>
    parse_number radix ds = unat value \<and>
    take buf b' = take buf b \<and>
    drop (Suc (buf + length ds)) b' = drop (Suc (buf + length ds)) b"
  using assms digits_32 [OF assms(1), of "value"] digits_not_0 [OF assms(1,2)]
    digits_not_Nil [OF assms(1)] digits_value [OF assms(1,2)]
  by (intro exI [of _ "take buf b @ digits radix value @ 0 # drop (Suc (buf + length (digits radix value))) b"]
      exI [of _ "digits radix value"]) (auto simp: itoa_digits min_def)

theorem itoa_roundtrip_witness:
  "\<exists>b' ds. itoa 391 (replicate 36 0) 0 10 = Inr b' \<and>
     take (Suc (length ds)) b' = ds @ [0] \<and> parse_number 10 ds = 391"
  using itoa_roundtrip [of 10 0 "replicate 36 0" 391] by auto

text \<open>
  \<^verbatim>\<open>strncpy\<close> between ranges that do not overlap writes exactly \<open>n\<close> bytes: the source
  string up to its terminator or the bound, then null bytes.
\<close>

lemma strncpy_copies_and_pads:
  fixes m :: mem
  assumes "disjoint_ranges src n dest n" and "n \<le> 2147483647"
  defines "s \<equiv> takeWhile (\<lambda>c. c \<noteq> 0) (rd m src n)"
  shows "strncpy m dest src n = Inr (wr m dest (s @ replicate (n - length s) 0))"
proof -
  have len: "length s \<le> n" unfolding s_def by (metis length_rd length_takeWhile_le)
  have s: "s = rd m src (length s)"
  proof (rule nth_equalityI)
    fix i assume "i < length s"
    then show "s ! i = rd m src (length s) ! i"
      using len unfolding s_def by (simp add: takeWhile_nth)
  qed simp
  have "\<forall>j < length s. m (src + of_nat j) \<noteq> 0"
    using len unfolding s_def by (metis (mono_tags, lifting) length_rd less_le_trans nth_mem nth_rd
        set_takeWhileD takeWhile_nth)
  moreover have "length s < n \<Longrightarrow> m (src + of_nat (length s)) = 0"
    unfolding s_def using nth_length_takeWhile [of "\<lambda>c. c \<noteq> 0" "rd m src n"] by simp
  ultimately have "strncpy_copy m dest src n 0 =
      wr m dest (rd m src (length s) @ replicate (n - length s) 0)"
    using strncpy_copy_wr [OF assms(1,2) len, of m 0] by simp
  then show ?thesis using assms(2) s by (simp add: strncpy_def)
qed

lemma strncpy_copies_and_pads_witness:
  "strncpy (\<lambda>a. if a = 18 then 0 else 65) 0x80 16 4 =
     Inr (wr (\<lambda>a. if a = 18 then 0 else 65) 0x80 ([65, 65] @ replicate 2 0))"
proof -
  have d: "disjoint_ranges 16 4 0x80 4" by (rule disjoint_ranges_apart) simp
  show ?thesis using strncpy_copies_and_pads [OF d] by (simp add: rd_def upt_rec)
qed

end
