(* ===== verification/Port_IO.thy ===== *)
theory Port_IO
  imports Kernel_Prelude
begin

text \<open>
  The machine the drivers run on: physical memory, the interrupt flag, and port input and output.
  \<^verbatim>\<open>outb\<close>, \<^verbatim>\<open>inb\<close>, \<^verbatim>\<open>cli\<close> and \<^verbatim>\<open>sti\<close> of \<^verbatim>\<open>lib.h\<close> are the operations.

  Every port access is recorded in \<open>io_log\<close>, oldest first. What a device answers to a read is a
  parameter, \<open>device\<close>: a function of all port accesses so far and the port. Link-time addresses
  (\<^verbatim>\<open>&page_table\<close>, the entry points of the interrupt handlers) are a parameter too, \<open>sym\<close>.

  Each component extends this record with its own global variables, so every operation is
  polymorphic in the variables of the components above it and can be called from them directly.
\<close>

datatype io_event = Out u16 u8 | In u16 u8

datatype symbol =
    Sym_page_directory | Sym_page_table | Sym_vid_page_table | Sym_ldt | Sym_tss
  | Sym_exp_de | Sym_exp_db | Sym_exp_nmi | Sym_exp_bp | Sym_exp_of | Sym_exp_br | Sym_exp_ud
  | Sym_exp_nm | Sym_exp_df | Sym_exp_cso | Sym_exp_ts | Sym_exp_np | Sym_exp_ss | Sym_exp_gp
  | Sym_exp_pf | Sym_exp_mf | Sym_exp_ac | Sym_exp_mc | Sym_exp_xf | Sym_exp_default
  | Sym_syscall_asm_linkage | Sym_pit_wrapper | Sym_kbd_wrapper | Sym_rtc_wrapper

record hw =
  mem :: mem
  io_log :: "io_event list"
  device :: "io_event list \<Rightarrow> u16 \<Rightarrow> u8"
  sym :: "symbol \<Rightarrow> u32"
  iflag :: bool

definition outb :: "u8 \<Rightarrow> u16 \<Rightarrow> 'a hw_scheme \<Rightarrow> 'a hw_scheme" where
  "outb data port s = s\<lparr>io_log := io_log s @ [Out port data]\<rparr>"

definition inb :: "u16 \<Rightarrow> 'a hw_scheme \<Rightarrow> u8 \<times> 'a hw_scheme" where
  "inb port s =
     (let val = device s (io_log s) port in (val, s\<lparr>io_log := io_log s @ [In port val]\<rparr>))"

definition cli :: "'a hw_scheme \<Rightarrow> 'a hw_scheme" where
  "cli s = s\<lparr>iflag := False\<rparr>"

definition sti :: "'a hw_scheme \<Rightarrow> 'a hw_scheme" where
  "sti s = s\<lparr>iflag := True\<rparr>"

text \<open>
  The wider accesses, which the source documents as accesses to two and four consecutive ports in little-endian order, and
  the two macros that save and restore the flags register: bit 9 is the interrupt flag; the other flags are
  a parameter, and this model keeps no state for them.
\<close>

definition inw :: "u16 \<Rightarrow> 'a hw_scheme \<Rightarrow> u32 \<times> 'a hw_scheme" where
  "inw port s =
     (let (lo, s) = inb port s; (hi, s) = inb (port + 1) s in (ucast lo OR push_bit 8 (ucast hi), s))"

definition inl :: "u16 \<Rightarrow> 'a hw_scheme \<Rightarrow> u32 \<times> 'a hw_scheme" where
  "inl port s =
     (let (b0, s) = inb port s; (b1, s) = inb (port + 1) s; (b2, s) = inb (port + 2) s; (b3, s) = inb (port + 3) s
      in (le32 [b0, b1, b2, b3], s))"

definition outw :: "u32 \<Rightarrow> u16 \<Rightarrow> 'a hw_scheme \<Rightarrow> 'a hw_scheme" where
  "outw data port s = (let s = outb (ucast data) port s in outb (ucast (drop_bit 8 data)) (port + 1) s)"

definition outl :: "u32 \<Rightarrow> u16 \<Rightarrow> 'a hw_scheme \<Rightarrow> 'a hw_scheme" where
  "outl data port s =
     (let s = outw data port s; s = outb (ucast (drop_bit 16 data)) (port + 2) s
      in outb (ucast (drop_bit 24 data)) (port + 3) s)"

definition cli_and_save :: "u32 \<Rightarrow> 'a hw_scheme \<Rightarrow> u32 \<times> 'a hw_scheme" where
  "cli_and_save others s = (if iflag s then set_bit 9 others else unset_bit 9 others, cli s)"

definition restore_flags :: "u32 \<Rightarrow> 'a hw_scheme \<Rightarrow> 'a hw_scheme" where
  "restore_flags flags s = s\<lparr>iflag := bit flags 9\<rparr>"

text \<open>The bytes written to one port, oldest first.\<close>

definition written :: "u16 \<Rightarrow> io_event list \<Rightarrow> u8 list" where
  "written port log = concat (map (\<lambda>e. case e of Out p d \<Rightarrow> if p = port then [d] else [] | In p d \<Rightarrow> []) log)"

named_theorems io_defs \<open>the port operations unfolded\<close>
declare outb_def [io_defs] inb_def [io_defs] cli_def [io_defs] sti_def [io_defs]

lemma written_append [simp]: "written p (xs @ ys) = written p xs @ written p ys"
  by (simp add: written_def)

lemma written_Nil [simp]: "written p [] = []"
  by (simp add: written_def)

lemma written_Cons [simp]:
  "written p (Out q d # es) = (if q = p then d # written p es else written p es)"
  "written p (In q d # es) = written p es"
  by (simp_all add: written_def)

lemma io_frame [simp]:
  "mem (outb d p s) = mem s" "mem (snd (inb p s)) = mem s" "mem (cli s) = mem s" "mem (sti s) = mem s"
  "sym (outb d p s) = sym s" "sym (snd (inb p s)) = sym s" "sym (cli s) = sym s" "sym (sti s) = sym s"
  "device (outb d p s) = device s" "device (snd (inb p s)) = device s"
  "device (cli s) = device s" "device (sti s) = device s"
  "iflag (outb d p s) = iflag s" "iflag (snd (inb p s)) = iflag s"
  "\<not> iflag (cli s)" "iflag (sti s)"
  "io_log (cli s) = io_log s" "io_log (sti s) = io_log s"
  by (simp_all add: io_defs Let_def)

lemma io_log_outb [simp]: "io_log (outb d p s) = io_log s @ [Out p d]"
  by (simp add: outb_def)

text \<open>A wide write puts the bytes of the value on the ports in order; a wide read of latches that hold them gives it back.\<close>

lemma outl_bytes: "io_log (outl data port s) = io_log s @ map2 Out [port, port + 1, port + 2, port + 3] (bytes32 data)"
  by (simp add: outl_def outw_def bytes32_def Let_def)

lemma inl_latched:
  assumes "\<And>log. map (device s log) [port, port + 1, port + 2, port + 3] = bytes32 data"
  shows "fst (inl port s) = data" and "fst (inw port s) = take_bit 16 data"
proof -
  have d: "device s log port = ucast data" "device s log (port + 1) = ucast (drop_bit 8 data)"
    "device s log (port + 2) = ucast (drop_bit 16 data)" "device s log (port + 3) = ucast (drop_bit 24 data)" for log
    using assms [of log] by (simp_all add: bytes32_def)
  show "fst (inl port s) = data"
  proof (rule bit_word_eqI)
    fix n
    assume "n < LENGTH(32)"
    then consider "n < 8" | "8 \<le> n" "n < 16" | "16 \<le> n" "n < 24" | "24 \<le> n" "n < 32" by fastforce
    then show "bit (fst (inl port s)) n = bit data n"
      by cases (auto simp: inl_def inb_def Let_def d le32_def bit_simps)
  qed
  show "fst (inw port s) = take_bit 16 data"
    by (simp add: inw_def inb_def Let_def d) (rule bit_word_eqI, auto simp: bit_simps)
qed

text \<open>A critical section between \<^verbatim>\<open>cli_and_save\<close> and \<^verbatim>\<open>restore_flags\<close> runs with interrupts off and ends with the flag it found.\<close>

lemma critical_section:
  assumes "cli_and_save others s = (flags, t)"
  shows "\<not> iflag t" and "iflag (restore_flags flags u) = iflag s" and "restore_flags flags t = s"
  using assms by (auto simp: cli_and_save_def restore_flags_def cli_def bit_set_bit_iff bit_unset_bit_iff split: if_splits)

end
