(* ===== verification/I8259.thy ===== *)
theory I8259
  imports Port_IO
begin

text \<open>
  The interrupt controller driver, \<^verbatim>\<open>i8259.c\<close>: the two mask variables, initialisation,
  \<^verbatim>\<open>enable_irq\<close>, \<^verbatim>\<open>disable_irq\<close> and \<^verbatim>\<open>send_eoi\<close>, at the width of the masks (8 bits).
  The locale \<open>irq_lines\<close> is what the device drivers rely on when they enable their line; it is
  interpreted on \<^verbatim>\<open>enable_irq\<close>.
\<close>

section \<open>Definitions\<close>

abbreviation (input) MASTER_8259_PORT :: u16 where "MASTER_8259_PORT \<equiv> 0x20"
abbreviation (input) SLAVE_8259_PORT :: u16 where "SLAVE_8259_PORT \<equiv> 0xA0"
abbreviation (input) MASTER_8259_CMD_PORT :: u16 where "MASTER_8259_CMD_PORT \<equiv> 0x21"
abbreviation (input) SLAVE_8259_CMD_PORT :: u16 where "SLAVE_8259_CMD_PORT \<equiv> 0xA1"
abbreviation (input) EOI :: u32 where "EOI \<equiv> 0x60"

record pic = hw +
  master_mask :: u8
  slave_mask :: u8

definition i8259_init :: "'a pic_scheme \<Rightarrow> 'a pic_scheme" where
  "i8259_init s =
     (let s = s\<lparr>master_mask := 0xff, slave_mask := 0xff\<rparr>;
          s = outb (master_mask s) MASTER_8259_CMD_PORT s;
          s = outb (slave_mask s) SLAVE_8259_CMD_PORT s;
          s = outb 0x11 MASTER_8259_PORT s;
          s = outb 0x20 MASTER_8259_CMD_PORT s;
          s = outb 0x04 MASTER_8259_CMD_PORT s;
          s = outb 0x01 MASTER_8259_CMD_PORT s;
          s = outb 0x11 SLAVE_8259_PORT s;
          s = outb 0x28 SLAVE_8259_CMD_PORT s;
          s = outb 0x02 SLAVE_8259_CMD_PORT s
      in outb 0x01 SLAVE_8259_CMD_PORT s)"

definition enable_irq :: "u32 \<Rightarrow> 'a pic_scheme \<Rightarrow> 'a pic_scheme" where
  "enable_irq irq_num s =
     (let mask = (NOT (push_bit (unat (irq_num AND 7)) 1) :: u8)
      in if 8 \<le> irq_num
         then let s = s\<lparr>master_mask := master_mask s AND NOT (push_bit 2 1)\<rparr>;
                  s = s\<lparr>slave_mask := slave_mask s AND mask\<rparr>;
                  s = outb (master_mask s) MASTER_8259_CMD_PORT s
              in outb (slave_mask s) SLAVE_8259_CMD_PORT s
         else let s = s\<lparr>master_mask := master_mask s AND mask\<rparr>
              in outb (master_mask s) MASTER_8259_CMD_PORT s)"

definition disable_irq :: "u32 \<Rightarrow> 'a pic_scheme \<Rightarrow> 'a pic_scheme" where
  "disable_irq irq_num s =
     (let mask = (push_bit (unat (irq_num AND 7)) 1 :: u8)
      in if 8 \<le> irq_num
         then let s = s\<lparr>master_mask := master_mask s OR push_bit 2 1\<rparr>;
                  s = s\<lparr>slave_mask := slave_mask s OR mask\<rparr>;
                  s = outb (master_mask s) MASTER_8259_CMD_PORT s
              in outb (slave_mask s) SLAVE_8259_CMD_PORT s
         else let mask = push_bit (unat irq_num) 1;
                  s = s\<lparr>master_mask := master_mask s OR mask\<rparr>
              in outb (master_mask s) MASTER_8259_CMD_PORT s)"

definition send_eoi :: "u32 \<Rightarrow> 'a pic_scheme \<Rightarrow> 'a pic_scheme" where
  "send_eoi irq_num s =
     (if 8 \<le> irq_num
      then outb (ucast (EOI OR 2)) MASTER_8259_PORT
             (outb (ucast (EOI OR (irq_num - 8))) SLAVE_8259_PORT s)
      else outb (ucast (EOI OR irq_num)) MASTER_8259_PORT s)"

text \<open>
  A line of the cascaded controllers reaches the processor when it is not masked and, for a line of
  the slave, the cascade line 2 of the master is not masked either.
\<close>

definition irq_delivered :: "'a pic_scheme \<Rightarrow> nat \<Rightarrow> bool" where
  "irq_delivered s n \<longleftrightarrow>
     (if n < 8 then \<not> bit (master_mask s) n
      else \<not> bit (slave_mask s) (n - 8) \<and> \<not> bit (master_mask s) 2)"

text \<open>The masks the hardware was last told are the ones the driver remembers.\<close>

definition masks_written :: "'a pic_scheme \<Rightarrow> bool" where
  "masks_written s \<longleftrightarrow>
     (\<exists>ms ss. written MASTER_8259_CMD_PORT (io_log s) = ms @ [master_mask s] \<and>
              written SLAVE_8259_CMD_PORT (io_log s) = ss @ [slave_mask s])"

section \<open>Lemmas\<close>

lemma and_7: "(x :: u32) AND 7 = take_bit 3 x"
  by (simp add: take_bit_eq_mask mask_eq_exp_minus_1)

lemma unat_and_7: "unat ((x :: u32) AND 7) = unat x mod 8"
  unfolding and_7 unsigned_take_bit_eq by (simp add: take_bit_eq_mod)

lemma enable_irq_masks:
  "master_mask (enable_irq irq s) =
     (if 8 \<le> irq then unset_bit 2 (master_mask s) else unset_bit (unat irq mod 8) (master_mask s))"
  "slave_mask (enable_irq irq s) =
     (if 8 \<le> irq then unset_bit (unat irq mod 8) (slave_mask s) else slave_mask s)"
  by (simp_all add: enable_irq_def Let_def io_defs unat_and_7 unset_bit_eq_and_not)

lemma disable_irq_masks:
  "master_mask (disable_irq irq s) =
     (if 8 \<le> irq then Bit_Operations.set_bit 2 (master_mask s)
      else Bit_Operations.set_bit (unat irq) (master_mask s))"
  "slave_mask (disable_irq irq s) =
     (if 8 \<le> irq then Bit_Operations.set_bit (unat irq mod 8) (slave_mask s) else slave_mask s)"
  by (simp_all add: disable_irq_def Let_def io_defs unat_and_7 set_bit_eq_or)

lemma pic_frame [simp]:
  "mem (enable_irq i s) = mem s" "mem (disable_irq i s) = mem s" "mem (send_eoi i s) = mem s"
  "mem (i8259_init s) = mem s"
  "iflag (enable_irq i s) = iflag s" "iflag (disable_irq i s) = iflag s" "iflag (send_eoi i s) = iflag s"
  "master_mask (send_eoi i s) = master_mask s" "slave_mask (send_eoi i s) = slave_mask s"
  by (simp_all add: enable_irq_def disable_irq_def send_eoi_def i8259_init_def Let_def io_defs)

lemma u32_8_le: "(8 :: u32) \<le> x \<longleftrightarrow> 8 \<le> unat x"
  by (simp add: word_le_nat_alt)

lemma enable_irq_bits:
  assumes "irq < 16" and "j < 8"
  shows "bit (master_mask (enable_irq (of_nat irq) s)) j \<longleftrightarrow>
      bit (master_mask s) j \<and> j \<noteq> (if irq < 8 then irq else 2)"
    and "bit (slave_mask (enable_irq (of_nat irq) s)) j \<longleftrightarrow>
      bit (slave_mask s) j \<and> \<not> (8 \<le> irq \<and> j = irq - 8)"
proof -
  have "8 \<le> irq \<Longrightarrow> irq mod 8 = irq - 8" using assms(1) by (simp add: mod_if)
  then show "bit (master_mask (enable_irq (of_nat irq) s)) j \<longleftrightarrow>
      bit (master_mask s) j \<and> j \<noteq> (if irq < 8 then irq else 2)"
    and "bit (slave_mask (enable_irq (of_nat irq) s)) j \<longleftrightarrow>
      bit (slave_mask s) j \<and> \<not> (8 \<le> irq \<and> j = irq - 8)"
    using assms
    by (auto simp: enable_irq_masks u32_8_le bit_unset_bit_iff)
qed

lemma bit_u8_cases: "bit (w :: u8) n \<longleftrightarrow> n < 8 \<and> bit w n"
  using u8_bit_high not_le by blast

lemma enable_delivers: "irq < 16 \<Longrightarrow> irq_delivered (enable_irq (of_nat irq) s) irq"
  by (auto simp: irq_delivered_def enable_irq_bits)

lemma enable_keeps: "irq < 16 \<Longrightarrow> irq_delivered s j \<Longrightarrow> irq_delivered (enable_irq (of_nat irq) s) j"
  by (cases "j < 16") (auto simp: irq_delivered_def enable_irq_bits split: if_splits)

section \<open>The interface the drivers use\<close>

locale irq_lines =
  fixes enable :: "nat \<Rightarrow> 's \<Rightarrow> 's" and delivered :: "'s \<Rightarrow> nat \<Rightarrow> bool" and lines :: nat
  assumes enable_self: "i < lines \<Longrightarrow> delivered (enable i s) i"
    and enable_mono: "i < lines \<Longrightarrow> delivered s j \<Longrightarrow> delivered (enable i s) j"
begin

lemma fold_keeps: "set is \<subseteq> {..<lines} \<Longrightarrow> delivered s j \<Longrightarrow> delivered (fold enable is s) j"
  by (induction "is" arbitrary: s) (auto intro: enable_mono)

lemma fold_delivers:
  "set is \<subseteq> {..<lines} \<Longrightarrow> i \<in> set is \<Longrightarrow> delivered (fold enable is s) i"
  by (induction "is" arbitrary: s) (auto intro: enable_self fold_keeps)

end

interpretation i8259: irq_lines "\<lambda>i. enable_irq (of_nat i)" irq_delivered 16
  by unfold_locales (auto intro: enable_delivers enable_keeps)

section \<open>Properties\<close>



text \<open>
  Disabling any line of the slave controller masks the cascade line, so no line of
  the slave is delivered afterwards, whichever of them was asked for; disabling a line of the
  master cuts that line only.
\<close>

lemma disable_irq_effect:
  assumes "irq < 16"
  shows "\<not> irq_delivered (disable_irq (of_nat irq) s) irq \<and>
    (8 \<le> irq \<longrightarrow> (\<forall>j. 8 \<le> j \<longrightarrow> \<not> irq_delivered (disable_irq (of_nat irq) s) j)) \<and>
    (irq < 8 \<and> irq \<noteq> 2 \<longrightarrow> (\<forall>j. j \<noteq> irq \<longrightarrow> irq_delivered (disable_irq (of_nat irq) s) j = irq_delivered s j))"
  using assms
  by (auto simp: irq_delivered_def disable_irq_masks u32_8_le bit_set_bit_iff)

lemma disable_irq_effect_witness:
  "\<not> irq_delivered (disable_irq (of_nat 14)
      \<lparr>mem = \<lambda>_. 0, io_log = [], device = \<lambda>_ _. 0, sym = \<lambda>_. 0, iflag = False,
       master_mask = 0, slave_mask = 0\<rparr>) 8"
  using disable_irq_effect [of 14 "\<lparr>mem = \<lambda>_. 0, io_log = [], device = \<lambda>_ _. 0, sym = \<lambda>_. 0,
    iflag = False, master_mask = 0, slave_mask = 0\<rparr>"] by simp

end
