(* ===== verification/Vga.thy ===== *)
theory Vga
  imports I8259
begin

text \<open>
  The hardware cursor, \<^verbatim>\<open>vga.c\<close>: the static variable \<^verbatim>\<open>addr_reg\<close> and the functions that program
  the CRT controller through its address port \<open>0x3D4\<close> and data port \<open>0x3D5\<close>.
  \<open>crtc\<close> reads a port log the way the controller does (a write to the address port selects a
  register, a write to the data port sets it), which gives the cursor position the
  hardware holds.
\<close>

record vga = pic +
  addr_reg :: u8

definition set_misc_out_reg :: "'a vga_scheme \<Rightarrow> 'a vga_scheme" where
  "set_misc_out_reg s = (let (misc_out_reg, s) = inb 0x3CC s in outb (misc_out_reg OR 1) 0x3C2 s)"

definition vga_reg_init :: "'a vga_scheme \<Rightarrow> 'a vga_scheme" where
  "vga_reg_init s = set_misc_out_reg s"

definition disable_cursor :: "'a vga_scheme \<Rightarrow> 'a vga_scheme" where
  "disable_cursor s =
     (let s = set_misc_out_reg s;
          (v, s) = inb 0x3D4 s;
          s = s\<lparr>addr_reg := v\<rparr>;
          s = outb 0xA 0x3D4 s;
          s = outb 0x20 0x3D5 s
      in outb (addr_reg s) 0x3D4 s)"

definition set_cursor_loc :: "u16 \<Rightarrow> 'a vga_scheme \<Rightarrow> 'a vga_scheme" where
  "set_cursor_loc cursor_loc s =
     (let loc_low = (ucast (cursor_loc AND 0xff) :: u8);
          loc_high = (ucast (drop_bit 8 cursor_loc) :: u8);
          (v, s) = inb 0x3D4 s;
          s = s\<lparr>addr_reg := v\<rparr>;
          s = outb 0xE 0x3D4 s;
          s = outb loc_high 0x3D5 s;
          s = outb 0xF 0x3D4 s;
          s = outb loc_low 0x3D5 s
      in outb (addr_reg s) 0x3D4 s)"

definition enable_cursor :: "'a vga_scheme \<Rightarrow> 'a vga_scheme" where
  "enable_cursor s =
     (let (v, s) = inb 0x3D4 s;
          s = s\<lparr>addr_reg := v\<rparr>;
          s = outb 0xA 0x3D4 s;
          s = outb 0 0x3D5 s;
          s = outb (addr_reg s) 0x3D4 s
      in set_cursor_loc 0 s)"

text \<open>The controller's reading of the log: the selected register and the register file.\<close>

fun crtc_event :: "io_event \<Rightarrow> u8 \<times> (u8 \<Rightarrow> u8) \<Rightarrow> u8 \<times> (u8 \<Rightarrow> u8)" where
  "crtc_event (Out p d) (idx, regs) =
     (if p = 0x3D4 then (d, regs) else if p = 0x3D5 then (idx, regs(idx := d)) else (idx, regs))"
| "crtc_event (In p d) st = st"

definition crtc :: "io_event list \<Rightarrow> u8 \<times> (u8 \<Rightarrow> u8)" where
  "crtc log = fold crtc_event log (0, \<lambda>_. 0)"

definition hw_cursor :: "'a vga_scheme \<Rightarrow> nat" where
  "hw_cursor s = 256 * unat (snd (crtc (io_log s)) 0xE) + unat (snd (crtc (io_log s)) 0xF)"

section \<open>Lemmas\<close>

lemma u16_split: "256 * unat (ucast (drop_bit 8 w) :: u8) + unat (ucast (w AND 0xff) :: u8) = unat (w :: u16)"
proof -
  have w: "w AND 0xff = take_bit 8 w" by (simp add: take_bit_eq_mask mask_eq_exp_minus_1)
  have "unat (ucast (take_bit 8 w) :: u8) = unat w mod 256"
    by (simp only: unsigned_ucast_eq unsigned_take_bit_eq) (simp add: take_bit_eq_mod)
  moreover have "unat (ucast (drop_bit 8 w) :: u8) = unat w div 256"
  proof -
    have "unat w < 65536" using unsigned_less [of w, where 'a = nat] by simp
    then show ?thesis
      by (simp only: unsigned_ucast_eq unsigned_drop_bit_eq)
        (simp add: take_bit_eq_mod drop_bit_eq_div div_less_iff_less_mult)
  qed
  ultimately show ?thesis by (simp add: w)
qed

lemma vga_frame [simp]:
  "mem (set_cursor_loc l s) = mem s" "iflag (set_cursor_loc l s) = iflag s"
  "master_mask (set_cursor_loc l s) = master_mask s" "slave_mask (set_cursor_loc l s) = slave_mask s"
  "sym (set_cursor_loc l s) = sym s" "device (set_cursor_loc l s) = device s"
  by (simp_all add: set_cursor_loc_def io_defs Let_def)

lemma set_cursor_loc_log:
  "io_log (set_cursor_loc l s) =
     (let v = device s (io_log s) 0x3D4
      in io_log s @ [In 0x3D4 v, Out 0x3D4 0xE, Out 0x3D5 (ucast (drop_bit 8 l)),
           Out 0x3D4 0xF, Out 0x3D5 (ucast (l AND 0xff)), Out 0x3D4 v])"
  by (simp add: set_cursor_loc_def io_defs Let_def)

lemma crtc_append: "crtc (xs @ ys) = fold crtc_event ys (crtc xs)"
  by (simp add: crtc_def)

lemma crtc_set_cursor:
  "crtc (io_log (set_cursor_loc l s)) =
     (device s (io_log s) 0x3D4,
      (snd (crtc (io_log s)))(0xE := ucast (drop_bit 8 l), 0xF := ucast (l AND 0xff)))"
  by (cases "crtc (io_log s)") (simp add: set_cursor_loc_log Let_def crtc_append)

lemma hw_cursor_set: "hw_cursor (set_cursor_loc l s) = unat l"
  by (simp add: hw_cursor_def crtc_set_cursor u16_split)

section \<open>Properties\<close>

text \<open>
  After \<^verbatim>\<open>set_cursor_loc\<close> the controller's two location registers together hold exactly
  the 16-bit location, no other register of the controller has changed, and the address
  register is back at the value read from it at the start.
\<close>

lemma set_cursor_loc_programs_crtc:
  "hw_cursor (set_cursor_loc loc s) = unat loc \<and>
   fst (crtc (io_log (set_cursor_loc loc s))) = device s (io_log s) 0x3D4 \<and>
   (\<forall>r. r \<noteq> 0xE \<and> r \<noteq> 0xF \<longrightarrow>
      snd (crtc (io_log (set_cursor_loc loc s))) r = snd (crtc (io_log s)) r)"
  by (simp add: hw_cursor_set crtc_set_cursor)

lemma set_cursor_loc_programs_crtc_witness:
  "hw_cursor (set_cursor_loc 1999 \<lparr>mem = \<lambda>_. 0, io_log = [], device = \<lambda>_ _. 3, sym = \<lambda>_. 0,
     iflag = False, master_mask = 0, slave_mask = 0, addr_reg = 0\<rparr>) = 1999"
  using set_cursor_loc_programs_crtc [of 1999 "\<lparr>mem = \<lambda>_. 0, io_log = [], device = \<lambda>_ _. 3,
    sym = \<lambda>_. 0, iflag = False, master_mask = 0, slave_mask = 0, addr_reg = 0\<rparr>"] by simp

end
