(* ===== verification/Screen.thy ===== *)
theory Screen
  imports Vga Lib_Memory
begin

text \<open>
  The text console of \<^verbatim>\<open>lib.c\<close>: the static variables \<^verbatim>\<open>screen_x\<close>, \<^verbatim>\<open>screen_y\<close> and the functions that
  write the 80 by 25 text screen at \<open>0xB8000\<close> (\<^verbatim>\<open>clear\<close>, \<^verbatim>\<open>putc\<close>, \<^verbatim>\<open>puts\<close>, \<^verbatim>\<open>scroll\<close>,
  \<^verbatim>\<open>erase_char\<close> and the position accessors). \<^verbatim>\<open>clear_screen\<close> needs \<^verbatim>\<open>printf\<close> and is in the theory
  \<open>Printf\<close>.

  The specification is a screen of 25 rows of 80 characters with a cursor, \<open>vt_putc\<close>; \<^verbatim>\<open>putc\<close>
  refines it through the abstraction \<open>screen_abs\<close>, scrolling included.
\<close>

section \<open>Definitions\<close>

abbreviation (input) VIDEO :: u32 where "VIDEO \<equiv> 0xB8000"

record screen = vga +
  screen_x :: int
  screen_y :: int

definition cell_addr :: "int \<Rightarrow> u32" where
  "cell_addr i = VIDEO + word_of_int (2 * i)"

definition put_cell :: "int \<Rightarrow> u8 \<Rightarrow> mem \<Rightarrow> mem" where
  "put_cell i c m = m(cell_addr i := c, cell_addr i + 1 := 7)"

fun clear_loop :: "nat \<Rightarrow> mem \<Rightarrow> mem" where
  "clear_loop 0 m = m"
| "clear_loop (Suc i) m = put_cell (int i) 32 (clear_loop i m)"

definition clear :: "'a screen_scheme \<Rightarrow> 'a screen_scheme" where
  "clear s = s\<lparr>mem := clear_loop (25 * 80) (mem s)\<rparr>"

definition get_screen_x :: "'a screen_scheme \<Rightarrow> int" where
  "get_screen_x s = screen_x s"

definition get_screen_y :: "'a screen_scheme \<Rightarrow> int" where
  "get_screen_y s = screen_y s"

definition set_screen_xy :: "int \<Rightarrow> int \<Rightarrow> 'a screen_scheme \<Rightarrow> 'a screen_scheme" where
  "set_screen_xy x y s = s\<lparr>screen_x := x, screen_y := y\<rparr>"

definition get_screen_loc :: "'a screen_scheme \<Rightarrow> int" where
  "get_screen_loc s = screen_x s + 80 * screen_y s"

definition max_screen_loc :: int where
  "max_screen_loc = 25 * 80 - 1"

definition scroll :: "'a screen_scheme \<Rightarrow> 'a screen_scheme" where
  "scroll s =
     (let m = memmove (mem s) VIDEO (VIDEO + 160) (24 * 80 * 2);
          val = push_bit 8 7 OR 32
      in s\<lparr>mem := memset_word m (VIDEO + 80 * 24 * 2) val 80\<rparr>)"

definition putc :: "u8 \<Rightarrow> 'a screen_scheme \<Rightarrow> 'a screen_scheme" where
  "putc c s =
     (let s =
        (if c = 10 \<or> c = 13
         then let s = s\<lparr>screen_y := screen_y s + 1, screen_x := 0\<rparr>
              in if screen_y s \<ge> 25 then (scroll s)\<lparr>screen_y := 24\<rparr> else s
         else let s = s\<lparr>mem := put_cell (80 * screen_y s + screen_x s) c (mem s)\<rparr>;
                  s = s\<lparr>screen_x := screen_x s + 1\<rparr>
              in if screen_x s \<ge> 80
                 then let s = s\<lparr>screen_y := screen_y s + 1, screen_x := 0\<rparr>
                      in if screen_y s \<ge> 25 then (scroll s)\<lparr>screen_y := 24\<rparr> else s
                 else s)
      in set_cursor_loc (word_of_int (get_screen_loc s)) s)"

definition erase_char :: "'a screen_scheme \<Rightarrow> 'a screen_scheme" where
  "erase_char s =
     (let s =
        (if screen_x s = 0
         then if screen_y s > 0 then s\<lparr>screen_x := 79, screen_y := screen_y s - 1\<rparr> else s
         else s\<lparr>screen_x := screen_x s - 1\<rparr>)
      in s\<lparr>mem := put_cell (80 * screen_y s + screen_x s) 32 (mem s)\<rparr>)"

text \<open>
  \<^verbatim>\<open>puts\<close> reads its argument one byte at a time from the memory \<^verbatim>\<open>putc\<close> is writing to; the index
  is an \<^verbatim>\<open>int32_t\<close>.
\<close>

function puts_from :: "cptr \<Rightarrow> nat \<Rightarrow> 'a screen_scheme \<Rightarrow> (nat \<times> 'a screen_scheme) res" where
  "puts_from p index s =
     (if 2147483648 \<le> index then Inl UndefinedArith
      else rbind (fetch (mem s) p index) (\<lambda>c.
             if c \<noteq> 0 then puts_from p (Suc index) (putc c s) else Inr (index, s)))"
  by pat_completeness auto
termination
  by (relation "measure (\<lambda>(p, index, s). 2147483648 - index)") auto

declare puts_from.simps [simp del]

definition puts :: "cptr \<Rightarrow> 'a screen_scheme \<Rightarrow> (nat \<times> 'a screen_scheme) res" where
  "puts p s = puts_from p 0 s"

section \<open>The screen as a specification\<close>

definition vt_newline :: "u8 list list \<times> nat \<times> nat \<Rightarrow> u8 list list \<times> nat \<times> nat" where
  "vt_newline = (\<lambda>(rows, x, y).
     if y + 1 < 25 then (rows, 0, y + 1) else (tl rows @ [replicate 80 32], 0, 24))"

definition vt_putc :: "u8 \<Rightarrow> u8 list list \<times> nat \<times> nat \<Rightarrow> u8 list list \<times> nat \<times> nat" where
  "vt_putc c = (\<lambda>(rows, x, y).
     if c = 10 \<or> c = 13 then vt_newline (rows, x, y)
     else let rows = rows[y := (rows ! y)[x := c]]
          in if x + 1 < 80 then (rows, x + 1, y) else vt_newline (rows, x, y))"

definition char_at :: "mem \<Rightarrow> nat \<Rightarrow> nat \<Rightarrow> u8" where
  "char_at m r c = m (cell_addr (int (80 * r + c)))"

definition screen_rows :: "mem \<Rightarrow> u8 list list" where
  "screen_rows m = map (\<lambda>r. map (char_at m r) [0..<80]) [0..<25]"

definition screen_abs :: "'a screen_scheme \<Rightarrow> u8 list list \<times> nat \<times> nat" where
  "screen_abs s = (screen_rows (mem s), nat (screen_x s), nat (screen_y s))"

text \<open>The cursor is on the screen.\<close>

definition screen_inv :: "'a screen_scheme \<Rightarrow> bool" where
  "screen_inv s \<longleftrightarrow> 0 \<le> screen_x s \<and> screen_x s < 80 \<and> 0 \<le> screen_y s \<and> screen_y s < 25"

text \<open>Two memories agree outside the 4000 bytes of the text screen.\<close>

definition same_outside_screen :: "mem \<Rightarrow> mem \<Rightarrow> bool" where
  "same_outside_screen m m' \<longleftrightarrow> (\<forall>a. \<not> in_range VIDEO 4000 a \<longrightarrow> m' a = m a)"

section \<open>Cells\<close>

lemma cell_addr_nat: "cell_addr (int i) = VIDEO + of_nat (2 * i)"
  by (simp add: cell_addr_def)

lemma cell_addr_eq [simp]:
  assumes "i < 2000" and "j < 2000"
  shows "cell_addr (int i) = cell_addr (int j) \<longleftrightarrow> i = j"
    and "cell_addr (int i) \<noteq> cell_addr (int j) + 1"
    and "cell_addr (int i) + 1 \<noteq> cell_addr (int j)"
proof -
  have odd: "cell_addr (int j) + 1 = VIDEO + of_nat (2 * j + 1)" for j
    by (simp add: cell_addr_nat)
  have cancel: "(VIDEO + of_nat a = VIDEO + of_nat b) = (a = b)" if "a < 4001" "b < 4001" for a b
    by (rule add_of_nat_cancel) (use that in simp_all)
  show "cell_addr (int i) = cell_addr (int j) \<longleftrightarrow> i = j"
    unfolding cell_addr_nat by (subst cancel) (use assms in simp_all)
  show "cell_addr (int i) \<noteq> cell_addr (int j) + 1"
    unfolding odd unfolding cell_addr_nat by (subst cancel) (use assms in \<open>simp_all, presburger\<close>)
  show "cell_addr (int i) + 1 \<noteq> cell_addr (int j)"
    unfolding odd unfolding cell_addr_nat by (subst cancel) (use assms in \<open>simp_all, presburger\<close>)
qed

lemma cell_index: "c < 80 \<Longrightarrow> x < 80 \<Longrightarrow> 80 * r + c = 80 * y + x \<longleftrightarrow> r = y \<and> c = (x :: nat)"
  by (metis div_mult_self4 mod_mult_self4 div_less mod_less add_0_right zero_neq_numeral add.commute)

lemma char_at_put:
  assumes "r < 25" "c < 80" "y < 25" "x < 80"
  shows "char_at (put_cell (80 * int y + int x) v m) r c = (if r = y \<and> c = x then v else char_at m r c)"
proof -
  have lt: "80 * r + c < 2000" "80 * y + x < 2000" using assms by auto
  have "cell_addr (int (80 * r + c)) = cell_addr (int (80 * y + x)) \<longleftrightarrow> r = y \<and> c = x"
    using cell_addr_eq(1) [OF lt] cell_index [OF assms(2,4), of r y] by simp
  moreover have "cell_addr (int (80 * r + c)) \<noteq> cell_addr (int (80 * y + x)) + 1"
    by (rule cell_addr_eq(2) [OF lt])
  moreover have "80 * int y + int x = int (80 * y + x)" by simp
  ultimately show ?thesis unfolding char_at_def put_cell_def by (simp only: fun_upd_apply if_False)
qed

lemma length_screen_rows [simp]: "length (screen_rows m) = 25"
  by (simp add: screen_rows_def)

lemma nth_screen_rows [simp]: "r < 25 \<Longrightarrow> screen_rows m ! r = map (char_at m r) [0..<80]"
  by (simp add: screen_rows_def)

lemma screen_rows_put:
  assumes "y < 25" "x < 80"
  shows "screen_rows (put_cell (80 * int y + int x) v m) = (screen_rows m)[y := (screen_rows m ! y)[x := v]]"
proof (rule nth_equalityI)
  fix r assume "r < length (screen_rows (put_cell (80 * int y + int x) v m))"
  then have r: "r < 25" by simp
  show "screen_rows (put_cell (80 * int y + int x) v m) ! r =
      (screen_rows m)[y := (screen_rows m ! y)[x := v]] ! r"
  proof (rule nth_equalityI)
    fix c assume "c < length (screen_rows (put_cell (80 * int y + int x) v m) ! r)"
    then have "c < 80" using r by simp
    then show "screen_rows (put_cell (80 * int y + int x) v m) ! r ! c =
        (screen_rows m)[y := (screen_rows m ! y)[x := v]] ! r ! c"
      using r assms by (auto simp: char_at_put nth_list_update)
  qed (use r assms in \<open>simp add: nth_list_update\<close>)
qed simp

section \<open>Scrolling\<close>

lemma nth_concat_pairs:
  "c < n \<Longrightarrow> concat (replicate n [a, b]) ! (2 * c) = a"
  "c < n \<Longrightarrow> concat (replicate n [a, b]) ! Suc (2 * c) = b"
  by (induction n arbitrary: c; case_tac c; simp)+

lemma length_concat_pairs [simp]: "length (concat (replicate n [a, b])) = 2 * n"
  by (induction n) simp_all

lemma mem_scroll:
  "mem (scroll s) =
     wr (wr (mem s) VIDEO (rd (mem s) (VIDEO + 160) 3840)) (VIDEO + 3840) (concat (replicate 80 [32, 7]))"
proof -
  have "memmove (mem s) VIDEO (VIDEO + 160) 3840 = wr (mem s) VIDEO (rd (mem s) (VIDEO + 160) 3840)"
    by (rule memmove_wr) (simp_all add: no_wrap_def)
  moreover have val: "(1824 :: u8) = 32" by simp
  ultimately show ?thesis by (simp add: scroll_def Let_def memset_word_def rep_stosw_wr val)
qed

lemma scroll_frame [simp]:
  "screen_x (scroll s) = screen_x s" "screen_y (scroll s) = screen_y s"
  by (simp_all add: scroll_def Let_def)

lemma not_in_range_offset:
  "a < 4294967296 \<Longrightarrow> b \<le> a \<Longrightarrow> a - b \<ge> n \<Longrightarrow> \<not> in_range (x + of_nat b) n (x + of_nat a :: u32)"
  by (simp add: in_range_def flip: of_nat_diff)

lemma not_in_range_below:
  assumes "a < b" "b - a + n \<le> 4294967296"
  shows "\<not> in_range (x + of_nat b) n (x + of_nat a :: u32)"
proof
  assume "in_range (x + of_nat b) n (x + of_nat a)"
  then obtain i where i: "i < n" "x + of_nat a = x + of_nat b + of_nat i"
    using assms by (auto simp: in_range_iff)
  have "(of_nat (b - a + i) :: u32) = of_nat b - of_nat a + of_nat i"
    using assms(1) by (simp add: of_nat_diff)
  also have "\<dots> = 0" using i(2) by (simp add: algebra_simps)
  finally have "unat (of_nat (b - a + i) :: u32) = 0" by simp
  moreover have "unat (of_nat (b - a + i) :: u32) = b - a + i"
    by (rule unat_of_nat_u32) (use assms i in simp)
  ultimately show False using assms(1) by simp
qed

lemma char_at_scroll:
  assumes "r < 25" "c < 80"
  shows "char_at (mem (scroll s)) r c = (if r < 24 then char_at (mem s) (r + 1) c else 32)"
proof (cases "r < 24")
  case True
  let ?k = "2 * (80 * r + c)"
  have k: "?k < 3840" using True assms by simp
  have "\<not> in_range (VIDEO + of_nat 3840) 160 (VIDEO + of_nat ?k)"
    by (rule not_in_range_below) (use k in auto)
  then have "char_at (mem (scroll s)) r c = wr (mem s) VIDEO (rd (mem s) (VIDEO + 160) 3840) (VIDEO + of_nat ?k)"
    unfolding char_at_def cell_addr_nat mem_scroll by (subst wr_outside) simp_all
  also have "\<dots> = mem s (VIDEO + 160 + of_nat ?k)"
    using k by (subst wr_inside) simp_all
  also have "VIDEO + 160 + of_nat ?k = VIDEO + of_nat (2 * (80 * (r + 1) + c))" by simp
  finally show ?thesis using True unfolding char_at_def cell_addr_nat by simp
next
  case False
  then have "r = 24" using assms by simp
  then have "VIDEO + of_nat (2 * (80 * r + c)) = VIDEO + 3840 + of_nat (2 * c)" by simp
  then have "char_at (mem (scroll s)) r c = concat (replicate 80 [32, 7]) ! (2 * c)"
    unfolding char_at_def cell_addr_nat mem_scroll using assms
    by (simp only:) (subst wr_inside; simp)
  then show ?thesis using False assms by (simp add: nth_concat_pairs)
qed

lemma screen_rows_scroll: "screen_rows (mem (scroll s)) = tl (screen_rows (mem s)) @ [replicate 80 32]"
proof (rule nth_equalityI)
  fix r assume "r < length (screen_rows (mem (scroll s)))"
  then have r: "r < 25" by simp
  show "screen_rows (mem (scroll s)) ! r = (tl (screen_rows (mem s)) @ [replicate 80 32]) ! r"
  proof (rule nth_equalityI)
    fix c assume "c < length (screen_rows (mem (scroll s)) ! r)"
    then have "c < 80" using r by simp
    with r show "screen_rows (mem (scroll s)) ! r ! c = (tl (screen_rows (mem s)) @ [replicate 80 32]) ! r ! c"
      by (auto simp: nth_append nth_tl char_at_scroll)
  qed (use r in \<open>auto simp: nth_append nth_tl\<close>)
qed simp

section \<open>putc refines the specification\<close>

text \<open>What \<^verbatim>\<open>putc\<close> does before it moves the hardware cursor.\<close>

definition newline_step :: "'a screen_scheme \<Rightarrow> 'a screen_scheme" where
  "newline_step s =
     (let s = s\<lparr>screen_y := screen_y s + 1, screen_x := 0\<rparr>
      in if screen_y s \<ge> 25 then (scroll s)\<lparr>screen_y := 24\<rparr> else s)"

definition putc_body :: "u8 \<Rightarrow> 'a screen_scheme \<Rightarrow> 'a screen_scheme" where
  "putc_body c s =
     (if c = 10 \<or> c = 13 then newline_step s
      else let s = s\<lparr>mem := put_cell (80 * screen_y s + screen_x s) c (mem s)\<rparr>;
               s = s\<lparr>screen_x := screen_x s + 1\<rparr>
           in if screen_x s \<ge> 80 then newline_step s else s)"

lemma putc_eq: "putc c s = (let s = putc_body c s in set_cursor_loc (word_of_int (get_screen_loc s)) s)"
  unfolding putc_def putc_body_def newline_step_def Let_def by (rule refl)

lemma cursor_frame [simp]:
  "screen_x (set_cursor_loc l s) = screen_x s" "screen_y (set_cursor_loc l s) = screen_y s"
  by (simp_all add: set_cursor_loc_def io_defs Let_def)

lemma putc_fields:
  "mem (putc c s) = mem (putc_body c s)"
  "screen_x (putc c s) = screen_x (putc_body c s)"
  "screen_y (putc c s) = screen_y (putc_body c s)"
  by (simp_all add: putc_eq Let_def)

lemma screen_abs_cong:
  "mem s = mem t \<Longrightarrow> screen_x s = screen_x t \<Longrightarrow> screen_y s = screen_y t \<Longrightarrow> screen_abs s = screen_abs t"
  by (simp add: screen_abs_def)

lemma newline_step_abs:
  assumes "0 \<le> screen_y s" "screen_y s < 25"
  shows "screen_abs (newline_step s) = vt_newline (screen_abs s)"
proof (cases "screen_y s < 24")
  case True
  then have "nat (screen_y s + 1) = nat (screen_y s) + 1" using assms by simp
  with True assms show ?thesis by (simp add: newline_step_def screen_abs_def vt_newline_def nat_less_iff)
next
  case False
  then have "screen_y s = 24" using assms by simp
  then show ?thesis
    by (simp add: newline_step_def Let_def screen_abs_def vt_newline_def screen_rows_scroll)
qed

lemma putc_body_abs:
  assumes "screen_inv s"
  shows "screen_abs (putc_body c s) = vt_putc c (screen_abs s)"
proof -
  define x y where "x = nat (screen_x s)" and "y = nat (screen_y s)"
  with assms have xy: "screen_x s = int x" "screen_y s = int y" "x < 80" "y < 25"
    by (auto simp: screen_inv_def)
  let ?t = "s\<lparr>mem := put_cell (80 * int y + int x) c (mem s), screen_x := int x + 1\<rparr>"
  show ?thesis
  proof (cases "c = 10 \<or> c = 13")
    case True
    with xy have "screen_abs (putc_body c s) = vt_newline (screen_abs s)"
      by (simp add: putc_body_def newline_step_abs)
    with True show ?thesis by (simp add: vt_putc_def split_beta)
  next
    case False
    have rows: "screen_rows (mem ?t) = (screen_rows (mem s))[y := (screen_rows (mem s) ! y)[x := c]]"
      using xy by (simp add: screen_rows_put del: nth_screen_rows)
    have "screen_abs (newline_step ?t) = vt_newline (screen_abs ?t)"
      using xy by (intro newline_step_abs) simp_all
    with False xy rows show ?thesis
      by (auto simp: putc_body_def Let_def vt_putc_def screen_abs_def vt_newline_def nat_add_distrib
          simp del: nth_screen_rows)
  qed
qed

lemma putc_abs: "screen_inv s \<Longrightarrow> screen_abs (putc c s) = vt_putc c (screen_abs s)"
  using screen_abs_cong [OF putc_fields] putc_body_abs by metis

section \<open>Invariants of the console\<close>

lemma newline_step_inv: "0 \<le> screen_y s \<Longrightarrow> screen_y s < 25 \<Longrightarrow> screen_inv (newline_step s)"
  by (auto simp: newline_step_def Let_def screen_inv_def)

lemma screen_inv_body: "screen_inv s \<Longrightarrow> screen_inv (putc_body c s)"
  by (auto simp: putc_body_def Let_def screen_inv_def newline_step_inv [unfolded screen_inv_def])

lemma screen_inv_putc: "screen_inv s \<Longrightarrow> screen_inv (putc c s)"
  using screen_inv_body [of s c] by (simp add: screen_inv_def putc_fields)

lemma screen_inv_erase: "screen_inv s \<Longrightarrow> screen_inv (erase_char s)"
  by (auto simp: erase_char_def Let_def screen_inv_def)

lemma same_outside_refl [simp]: "same_outside_screen m m"
  by (simp add: same_outside_screen_def)

lemma same_outside_trans:
  "same_outside_screen m m' \<Longrightarrow> same_outside_screen m' m'' \<Longrightarrow> same_outside_screen m m''"
  by (simp add: same_outside_screen_def)

lemma cell_in_range:
  assumes "i < 2000"
  shows "in_range VIDEO 4000 (cell_addr (int i))" and "in_range VIDEO 4000 (cell_addr (int i) + 1)"
proof -
  have "cell_addr (int i) + 1 = VIDEO + of_nat (2 * i + 1)" by (simp add: cell_addr_nat)
  moreover have "\<exists>k < 4000. cell_addr (int i) = VIDEO + of_nat k"
    using assms by (intro exI [of _ "2 * i"]) (simp add: cell_addr_nat)
  moreover have "2 * i + 1 < 4000" using assms by simp
  ultimately show "in_range VIDEO 4000 (cell_addr (int i))" "in_range VIDEO 4000 (cell_addr (int i) + 1)"
    by (simp_all only: in_range_iff) blast+
qed

lemma put_cell_outside:
  assumes "i < 2000"
  shows "same_outside_screen m (put_cell (int i) c m)"
  using cell_in_range [OF assms] by (auto simp: same_outside_screen_def put_cell_def)

lemma scroll_outside: "same_outside_screen (mem s) (mem (scroll s))"
  unfolding same_outside_screen_def
proof (intro allI impI)
  fix a assume a: "\<not> in_range VIDEO 4000 a"
  have sub: "in_range VIDEO 4000 a" if "in_range (VIDEO + of_nat b) n a" "b + n \<le> 4000" for b n
  proof -
    from that obtain i where "i < n" "a = VIDEO + of_nat b + of_nat i" by (auto simp: in_range_iff)
    then show ?thesis using that(2) by (auto simp: in_range_iff intro!: exI [of _ "b + i"])
  qed
  have "\<not> in_range (VIDEO + 3840) 160 a" "\<not> in_range VIDEO 3840 a"
    using a sub [of 3840 160] sub [of 0 3840] by auto
  then show "mem (scroll s) a = mem s a" by (simp add: mem_scroll wr_outside)
qed

lemma putc_outside:
  assumes "screen_inv s"
  shows "same_outside_screen (mem s) (mem (putc c s))"
proof -
  define i where "i = nat (80 * screen_y s + screen_x s)"
  with assms have i: "80 * screen_y s + screen_x s = int i" "i < 2000" by (auto simp: screen_inv_def)
  have nl: "same_outside_screen (mem t) (mem (newline_step t))" for t :: "'a screen_scheme"
    using scroll_outside [of "t\<lparr>screen_y := screen_y t + 1, screen_x := 0\<rparr>"]
    by (simp add: newline_step_def Let_def)
  have "same_outside_screen (mem s) (put_cell (int i) c (mem s))" using i(2) by (rule put_cell_outside)
  then show ?thesis
    using nl same_outside_trans [OF _ nl]
    by (simp add: putc_fields putc_body_def Let_def i)
qed

lemma fold_putc_outside: "screen_inv s \<Longrightarrow> same_outside_screen (mem s) (mem (fold putc cs s))"
proof (induction cs arbitrary: s)
  case (Cons c cs)
  then have "same_outside_screen (mem s) (mem (putc c s))" "same_outside_screen (mem (putc c s)) (mem (fold putc cs (putc c s)))"
    by (simp_all add: putc_outside screen_inv_putc)
  then show ?case by (auto intro: same_outside_trans)
qed simp

text \<open>A range of memory apart from the text screen; what it holds survives printing.\<close>

definition off_screen :: "u32 \<Rightarrow> nat \<Rightarrow> bool" where
  "off_screen a n \<longleftrightarrow> disjoint_ranges a n 0xB8000 4000"

lemma off_screen_byte: "same_outside_screen m m' \<Longrightarrow> off_screen a n \<Longrightarrow> i < n \<Longrightarrow> m' (a + of_nat i) = m (a + of_nat i)"
  by (simp add: off_screen_def disjoint_ranges_def same_outside_screen_def)

lemma hw_cursor_putc:
  assumes "screen_inv s"
  shows "int (hw_cursor (putc c s)) = get_screen_loc (putc c s)"
proof -
  let ?t = "putc_body c s"
  have inv: "screen_inv ?t" using assms by (rule screen_inv_body)
  then have "0 \<le> get_screen_loc ?t" "get_screen_loc ?t < 2000"
    by (auto simp: screen_inv_def get_screen_loc_def)
  then have "int (unat (word_of_int (get_screen_loc ?t) :: u16)) = get_screen_loc ?t"
    by (simp add: of_nat_nat take_bit_int_eq_self_iff unsigned_of_int)
  then show ?thesis
    by (simp add: putc_eq Let_def hw_cursor_set get_screen_loc_def)
qed

section \<open>Clients of the console\<close>

text \<open>
  A component that prints only needs to know that each character is one step of the
  specification and keeps the invariant; whole strings then are runs of the specification.
\<close>

locale char_console =
  fixes put :: "u8 \<Rightarrow> 's \<Rightarrow> 's" and inv :: "'s \<Rightarrow> bool"
    and abs :: "'s \<Rightarrow> 'v" and spec :: "u8 \<Rightarrow> 'v \<Rightarrow> 'v"
  assumes put_inv: "inv s \<Longrightarrow> inv (put c s)"
    and put_refines: "inv s \<Longrightarrow> abs (put c s) = spec c (abs s)"
begin

lemma put_all_inv: "inv s \<Longrightarrow> inv (fold put cs s)"
  by (induction cs arbitrary: s) (simp_all add: put_inv)

lemma put_all_refines: "inv s \<Longrightarrow> abs (fold put cs s) = fold spec cs (abs s)"
  by (induction cs arbitrary: s) (simp_all add: put_inv put_refines)

end

interpretation con: char_console putc screen_inv screen_abs vt_putc
  by unfold_locales (simp_all add: screen_inv_putc putc_abs)

lemma puts_from_Obj:
  assumes "0 \<notin> set xs" and "length zs + length xs < 2147483648"
  shows "puts_from (Obj (zs @ xs @ 0 # ys)) (length zs) s = Inr (length zs + length xs, fold putc xs s)"
  using assms
proof (induction xs arbitrary: zs s)
  case Nil
  then show ?case by (simp add: puts_from.simps [of _ "length zs"] nth_append)
next
  case (Cons x xs)
  have "puts_from (Obj (zs @ (x # xs) @ 0 # ys)) (length zs) s =
      puts_from (Obj ((zs @ [x]) @ xs @ 0 # ys)) (length (zs @ [x])) (putc x s)"
    using Cons.prems by (simp add: puts_from.simps [of _ "length zs"] nth_append)
  also have "\<dots> = Inr (length (zs @ [x]) + length xs, fold putc xs (putc x s))"
    using Cons.prems by (intro Cons.IH) auto
  finally show ?case by simp
qed

lemma puts_Obj:
  "0 \<notin> set xs \<Longrightarrow> length xs < 2147483648 \<Longrightarrow>
     puts (Obj (xs @ 0 # ys)) s = Inr (length xs, fold putc xs s)"
  using puts_from_Obj [of xs "[]" ys s] by (simp add: puts_def)

section \<open>Properties\<close>

text \<open>
  Property C10: \<^verbatim>\<open>putc\<close> refines the 25 by 80 character screen: from any cursor on the screen, printing a
  character (newlines, wrapping at the right edge and scrolling at the bottom included) changes the
  displayed rows and the cursor as the specification does, and the cursor stays on the screen.
\<close>

theorem putc_refines_screen:
  assumes "screen_inv s"
  shows "screen_abs (putc c s) = vt_putc c (screen_abs s) \<and> screen_inv (putc c s)"
  using assms by (simp add: putc_abs screen_inv_putc)

theorem putc_refines_screen_witness:
  "screen_abs (putc 65 \<lparr>mem = \<lambda>_. 32, io_log = [], device = \<lambda>_ _. 0, sym = \<lambda>_. 0, iflag = True,
      master_mask = 0, slave_mask = 0, addr_reg = 0, screen_x = 79, screen_y = 24\<rparr>)
   = vt_putc 65 (screen_abs \<lparr>mem = \<lambda>_. 32, io_log = [], device = \<lambda>_ _. 0, sym = \<lambda>_. 0, iflag = True,
      master_mask = 0, slave_mask = 0, addr_reg = 0, screen_x = 79, screen_y = 24\<rparr>)"
  by (rule conjunct1 [OF putc_refines_screen]) (simp add: screen_inv_def)

text \<open>
  Property C35: printing a character writes no memory outside the 4000 bytes of the text screen, and
  afterwards the hardware cursor is at the software cursor.
\<close>

theorem putc_confined:
  assumes "screen_inv s"
  shows "(\<forall>a. \<not> in_range 0xB8000 4000 a \<longrightarrow> mem (putc c s) a = mem s a) \<and>
    int (hw_cursor (putc c s)) = get_screen_loc (putc c s)"
  using assms putc_outside [of s c] by (simp add: same_outside_screen_def hw_cursor_putc)

theorem putc_confined_witness:
  "mem (putc 10 \<lparr>mem = \<lambda>a. ucast a, io_log = [], device = \<lambda>_ _. 0, sym = \<lambda>_. 0, iflag = True,
      master_mask = 0, slave_mask = 0, addr_reg = 0, screen_x = 5, screen_y = 24\<rparr>) 0xB8FA0 = 0xA0"
proof -
  let ?s = "\<lparr>mem = \<lambda>a. ucast a, io_log = [], device = \<lambda>_ _. 0, sym = \<lambda>_. 0, iflag = True,
      master_mask = 0, slave_mask = 0, addr_reg = 0, screen_x = 5, screen_y = 24\<rparr>"
  have "screen_inv ?s" by (simp add: screen_inv_def)
  moreover have "\<not> in_range 0xB8000 4000 0xB8FA0" by (simp add: in_range_def)
  ultimately have "mem (putc 10 ?s) 0xB8FA0 = mem ?s 0xB8FA0" using putc_confined by blast
  then show ?thesis by simp
qed

end
