(* ===== verification/Printf.thy ===== *)
theory Printf
  imports Screen Lib_String
begin

text \<open>
  \<^verbatim>\<open>printf\<close> of \<^verbatim>\<open>lib.c\<close> and \<^verbatim>\<open>clear_screen\<close>. The variadic arguments are the 32-bit stack slots after
  \<^verbatim>\<open>format\<close>, a list here; taking more slots than the caller pushed is \<open>OutOfBounds\<close>. The two loops
  over the format string, the outer \<^verbatim>\<open>while\<close> and the \<^verbatim>\<open>goto format_char_switch\<close>, are the two
  recursive functions. The local conversion buffers start with unspecified bytes; the conversions
  take the buffer as an argument and are shown not to depend on its contents.
\<close>

section \<open>Conversions\<close>

definition print_hex :: "u8 list \<Rightarrow> bool \<Rightarrow> u32 \<Rightarrow> 'a screen_scheme \<Rightarrow> (nat \<times> 'a screen_scheme) res" where
  "print_hex conv_buf alternate v s =
     (if \<not> alternate
      then rbind (itoa v conv_buf 0 16) (\<lambda>b. puts (Obj b) s)
      else rbind (itoa v conv_buf 8 16) (\<lambda>b.
             rbind (strlen (mem s) (Obj (drop 8 b))) (\<lambda>starting_index.
               let b = fold (\<lambda>i b. b[i := 48]) [starting_index..<8] b
               in puts (Obj (drop starting_index b)) s)))"

definition print_unsigned :: "u8 list \<Rightarrow> u32 \<Rightarrow> 'a screen_scheme \<Rightarrow> (nat \<times> 'a screen_scheme) res" where
  "print_unsigned conv_buf v s = rbind (itoa v conv_buf 0 10) (\<lambda>b. puts (Obj b) s)"

definition print_signed :: "u8 list \<Rightarrow> u32 \<Rightarrow> 'a screen_scheme \<Rightarrow> (nat \<times> 'a screen_scheme) res" where
  "print_signed conv_buf v s =
     (if sint v < 0
      then if v = 0x80000000 then Inl UndefinedArith
           else rbind (bset conv_buf 0 45) (\<lambda>b. rbind (itoa (- v) b 1 10) (\<lambda>b. puts (Obj b) s))
      else rbind (itoa v conv_buf 0 10) (\<lambda>b. puts (Obj b) s))"

definition slot :: "u32 list \<Rightarrow> nat \<Rightarrow> u32 res" where
  "slot args esp = (if esp < length args then Inr (args ! esp) else Inl OutOfBounds)"

text \<open>
  The switch at \<^verbatim>\<open>format_char_switch\<close>: \<open>buf\<close> is the index of the conversion character, \<open>esp\<close> the
  next argument slot. It returns the two indices and the state after the switch.
\<close>

function printf_conv :: "cptr \<Rightarrow> u32 list \<Rightarrow> nat \<Rightarrow> nat \<Rightarrow> bool \<Rightarrow> 'a screen_scheme
    \<Rightarrow> (nat \<times> nat \<times> 'a screen_scheme) res" where
  "printf_conv fmt args buf esp alternate s =
     (if 4294967296 \<le> buf then Inl Hang
      else rbind (fetch (mem s) fmt buf) (\<lambda>c.
        if c = 37 then Inr (buf, esp, putc 37 s)
        else if c = 35 then printf_conv fmt args (Suc buf) esp True s
        else if c = 120 then rbind (slot args esp) (\<lambda>v.
               rbind (print_hex (replicate 64 0) alternate v s) (\<lambda>(_, s). Inr (buf, Suc esp, s)))
        else if c = 117 then rbind (slot args esp) (\<lambda>v.
               rbind (print_unsigned (replicate 36 0) v s) (\<lambda>(_, s). Inr (buf, Suc esp, s)))
        else if c = 100 then rbind (slot args esp) (\<lambda>v.
               rbind (print_signed (replicate 36 0) v s) (\<lambda>(_, s). Inr (buf, Suc esp, s)))
        else if c = 99 then rbind (slot args esp) (\<lambda>v. Inr (buf, Suc esp, putc (ucast v) s))
        else if c = 115 then rbind (slot args esp) (\<lambda>v.
               rbind (puts (Ptr v) s) (\<lambda>(_, s). Inr (buf, Suc esp, s)))
        else Inr (buf, esp, s)))"
  by pat_completeness auto
termination
  by (relation "measure (\<lambda>(fmt, args, buf, esp, alternate, s). 4294967296 - buf)") auto

declare printf_conv.simps [simp del]

lemma printf_conv_advances: "printf_conv fmt args buf esp alt s = Inr (buf', esp', s') \<Longrightarrow> buf \<le> buf'"
proof (induction fmt args buf esp alt s rule: printf_conv.induct)
  case (1 fmt args buf esp alt s)
  show ?case
  proof (cases "fetch (mem s) fmt buf")
    case (Inl e)
    with "1.prems" show ?thesis by (simp add: printf_conv.simps [of fmt args buf] split: if_splits)
  next
    case (Inr c)
    show ?thesis
    proof (cases "c = 35 \<and> buf < 4294967296")
      case True
      then have "printf_conv fmt args (Suc buf) esp True s = Inr (buf', esp', s')"
        using "1.prems" Inr by (simp add: printf_conv.simps [of fmt args buf])
      then have "Suc buf \<le> buf'" using True Inr by (intro "1.IH") auto
      then show ?thesis by simp
    next
      case False
      with "1.prems" Inr show ?thesis
        by (auto simp: printf_conv.simps [of fmt args buf] rbind_eq_Inr split: if_splits)
    qed
  qed
qed

function printf_loop :: "cptr \<Rightarrow> u32 list \<Rightarrow> nat \<Rightarrow> nat \<Rightarrow> 'a screen_scheme \<Rightarrow> (nat \<times> 'a screen_scheme) res" where
  "printf_loop fmt args buf esp s =
     (if 4294967296 \<le> buf then Inl Hang
      else rbind (fetch (mem s) fmt buf) (\<lambda>c.
        if c = 0 then Inr (buf, s)
        else if c = 37
        then rbind (printf_conv fmt args (Suc buf) esp False s) (\<lambda>r.
               printf_loop fmt args (Suc (fst r)) (fst (snd r)) (snd (snd r)))
        else printf_loop fmt args (Suc buf) esp (putc c s)))"
  by pat_completeness auto
termination
  by (relation "measure (\<lambda>(fmt, args, buf, esp, s). 4294967296 - buf)")
    (auto dest: printf_conv_advances)

declare printf_loop.simps [simp del]

definition printf :: "cptr \<Rightarrow> u32 list \<Rightarrow> 'a screen_scheme \<Rightarrow> (nat \<times> 'a screen_scheme) res" where
  "printf format args s = printf_loop format args 0 0 s"

definition clear_screen :: "'a screen_scheme \<Rightarrow> 'a screen_scheme res" where
  "clear_screen s =
     (let s = clear s;
          s = s\<lparr>screen_x := 0, screen_y := 0\<rparr>
      in rbind (printf (lit ''391OS> '') [] s) (\<lambda>(_, s). Inr s))"

section \<open>Plain text\<close>

lemma printf_loop_plain:
  assumes "0 \<notin> set xs" "37 \<notin> set xs" "length zs + length xs < 4294967296"
  shows "printf_loop (Obj (zs @ xs @ ys)) args (length zs) esp s =
    printf_loop (Obj (zs @ xs @ ys)) args (length (zs @ xs)) esp (fold putc xs s)"
  using assms
proof (induction xs arbitrary: zs s)
  case Nil
  then show ?case by simp
next
  case (Cons x xs)
  have "printf_loop (Obj (zs @ (x # xs) @ ys)) args (length zs) esp s =
      printf_loop (Obj ((zs @ [x]) @ xs @ ys)) args (length (zs @ [x])) esp (putc x s)"
    using Cons.prems by (simp add: printf_loop.simps [of _ _ "length zs"] nth_append)
  also have "\<dots> = printf_loop (Obj ((zs @ [x]) @ xs @ ys)) args (length ((zs @ [x]) @ xs)) esp (fold putc xs (putc x s))"
    using Cons.prems by (intro Cons.IH) auto
  finally show ?case by simp
qed

lemma printf_loop_end: "length zs < 4294967296 \<Longrightarrow> printf_loop (Obj (zs @ 0 # ys)) args (length zs) esp s = Inr (length zs, s)"
  by (simp add: printf_loop.simps nth_append)

text \<open>A literal without conversions prints itself.\<close>

lemma printf_text:
  assumes "0 \<notin> set (bytes str)" "37 \<notin> set (bytes str)" "length str < 4294967296"
  shows "printf (lit str) args s = Inr (length str, fold putc (bytes str) s)"
proof -
  have len: "length (bytes str) = length str" by (simp add: bytes_def)
  have "printf (lit str) args s =
      printf_loop (Obj ([] @ bytes str @ [0])) args (length ([] @ bytes str)) 0 (fold putc (bytes str) s)"
    unfolding printf_def lit_def
    using printf_loop_plain [of "bytes str" "[]" "[0]" args 0 s] assms len by simp
  also have "\<dots> = Inr (length (bytes str), fold putc (bytes str) s)"
    using printf_loop_end [of "bytes str" "[]"] assms len by simp
  finally show ?thesis by (simp add: len)
qed

section \<open>Conversions print the digits\<close>

text \<open>Eight hexadecimal digits, and a signed decimal number.\<close>

definition hex8 :: "u32 \<Rightarrow> u8 list" where
  "hex8 v = replicate (8 - length (digits 16 v)) 48 @ digits 16 v"

definition signed_digits :: "u32 \<Rightarrow> u8 list" where
  "signed_digits v = (if sint v < 0 then 45 # digits 10 (- v) else digits 10 v)"

lemma digits_16: "length (digits 16 v) \<le> 8"
  using unsigned_less [of v] by (intro digits_length) simp_all

lemma length_hex8 [simp]: "length (hex8 v) = 8"
  using digits_16 [of v] by (simp add: hex8_def)

lemma parse_zeros: "parse_number r (replicate n 48 @ ds) = parse_number r ds"
  unfolding parse_number_def by (induction n) (simp_all add: digit_val_def)

lemma hex8_value: "parse_number 16 (hex8 v) = unat v"
  by (simp add: hex8_def parse_zeros digits_value)

lemma fold_upd_range:
  "n \<le> k \<Longrightarrow> k \<le> length b \<Longrightarrow>
     fold (\<lambda>i b. b[i := x]) [n..<k] b = take n b @ replicate (k - n) x @ drop k b"
proof (induction k)
  case 0
  then show ?case by simp
next
  case (Suc k)
  show ?case
  proof (cases "n = Suc k")
    case True
    then show ?thesis by simp
  next
    case False
    then have "n \<le> k" using Suc.prems by simp
    moreover have "drop k b = b ! k # drop (Suc k) b" using Suc.prems by (simp add: Cons_nth_drop_Suc)
    ultimately show ?thesis
      using Suc by (simp add: list_update_append Suc_diff_le replicate_append_same flip: replicate_Suc)
  qed
qed

lemma print_unsigned_digits:
  "length cb = 36 \<Longrightarrow> print_unsigned cb v s = Inr (length (digits 10 v), fold putc (digits 10 v) s)"
  using itoa_digits [of 10 0 cb v] digits_32 [of 10 v] digits_not_0 [of 10 v]
  by (simp add: print_unsigned_def puts_Obj)

lemma print_signed_digits:
  assumes "length cb = 36" and "v \<noteq> 0x80000000"
  shows "print_signed cb v s = Inr (length (signed_digits v), fold putc (signed_digits v) s)"
proof (cases "sint v < 0")
  case True
  have "itoa (- v) (cb[0 := 45]) 1 (int 10) =
      Inr (take 1 (cb[0 := 45]) @ digits 10 (- v) @ 0 # drop (Suc (1 + length (digits 10 (- v)))) (cb[0 := 45]))"
    using assms by (intro itoa_digits) simp_all
  moreover have "take 1 (cb[0 := 45]) = [45]" using assms by (cases cb) auto
  ultimately show ?thesis
    using True assms puts_Obj [of "45 # digits 10 (- v)"] digits_32 [of 10 "- v"] digits_not_0 [of 10 "- v"]
    by (simp add: print_signed_def signed_digits_def)
next
  case False
  then show ?thesis
    using itoa_digits [of 10 0 cb v] digits_32 [of 10 v] digits_not_0 [of 10 v] assms
    by (simp add: print_signed_def puts_Obj signed_digits_def)
qed

lemma print_hex_digits:
  assumes "length cb = 64"
  shows "print_hex cb alt v s =
    (let ds = if alt then hex8 v else digits 16 v in Inr (length ds, fold putc ds s))"
proof (cases alt)
  case True
  let ?ds = "digits 16 v"
  let ?b = "take 8 cb @ ?ds @ 0 # drop (Suc (8 + length ?ds)) cb"
  have itoa: "itoa v cb 8 16 = Inr ?b" using itoa_digits [of 16 8 cb v] assms by simp
  have len: "strlen (mem s) (Obj (drop 8 ?b)) = Inr (length ?ds)"
    using assms digits_not_0 [of 16 v] digits_16 [of v] by (simp add: strlen_Obj)
  have "fold (\<lambda>i b. b[i := 48]) [length ?ds..<8] ?b = take (length ?ds) ?b @ replicate (8 - length ?ds) 48 @ drop 8 ?b"
    using assms digits_16 [of v] by (intro fold_upd_range) auto
  then have "drop (length ?ds) (fold (\<lambda>i b. b[i := 48]) [length ?ds..<8] ?b) =
      hex8 v @ 0 # drop (Suc (8 + length ?ds)) cb"
    using assms digits_16 [of v] by (simp add: hex8_def)
  moreover have "0 \<notin> set (hex8 v)" using digits_not_0 [of 16 v] by (auto simp: hex8_def)
  ultimately show ?thesis
    using True itoa len by (simp add: print_hex_def Let_def puts_Obj)
next
  case False
  then show ?thesis
    using itoa_digits [of 16 0 cb v] assms digits_32 [of 16 v] digits_not_0 [of 16 v]
    by (simp add: print_hex_def puts_Obj Let_def)
qed

section \<open>The output of a format string\<close>

text \<open>
  What a format prints, as a list of characters: \<open>None\<close> when it takes an argument that is not
  there, ends inside a conversion, negates the least integer, or uses \<^verbatim>\<open>%s\<close> on an address that \<open>strs\<close> knows no
  string at.
\<close>

definition conv_out :: "(u32 \<Rightarrow> u8 list option) \<Rightarrow> bool \<Rightarrow> u8 \<Rightarrow> u32 \<Rightarrow> u8 list option" where
  "conv_out strs alt c v =
     (if c = 120 then Some (if alt then hex8 v else digits 16 v)
      else if c = 117 then Some (digits 10 v)
      else if c = 100 then (if v = 0x80000000 then None else Some (signed_digits v))
      else if c = 115 then strs v else Some [ucast v])"

fun fmt_out :: "(u32 \<Rightarrow> u8 list option) \<Rightarrow> u8 list \<Rightarrow> u32 list \<Rightarrow> u8 list option"
and fmt_conv :: "(u32 \<Rightarrow> u8 list option) \<Rightarrow> bool \<Rightarrow> u8 list \<Rightarrow> u32 list \<Rightarrow> u8 list option" where
  "fmt_out strs [] args = Some []"
| "fmt_out strs (c # cs) args =
     (if c = 37 then fmt_conv strs False cs args else map_option ((#) c) (fmt_out strs cs args))"
| "fmt_conv strs alt [] args = None"
| "fmt_conv strs alt (c # cs) args =
     (if c = 37 then map_option ((#) 37) (fmt_out strs cs args)
      else if c = 35 then fmt_conv strs True cs args
      else if c \<in> {120, 117, 100, 99, 115}
      then (case args of
              [] \<Rightarrow> None
            | v # vs \<Rightarrow>
                (case conv_out strs alt c v of
                   None \<Rightarrow> None | Some ds \<Rightarrow> map_option ((@) ds) (fmt_out strs cs vs)))
      else fmt_out strs cs args)"

declare conv_out_def [simp]

text \<open>The strings are in memory, each with its null byte and apart from the text screen, so that printing does not change them.\<close>

definition texts_at :: "(u32 \<Rightarrow> u8 list option) \<Rightarrow> 'a screen_scheme \<Rightarrow> bool" where
  "texts_at strs s \<longleftrightarrow> (\<forall>a xs. strs a = Some xs \<longrightarrow>
     screen_inv s \<and> off_screen a (Suc (length xs)) \<and> length xs < 2147483648 \<and> 0 \<notin> set xs \<and>
     (\<forall>i \<le> length xs. mem s (a + of_nat i) = (xs @ [0]) ! i))"

lemma texts_at_none [simp]: "texts_at (\<lambda>_. None) s"
  by (simp add: texts_at_def)

lemma texts_atD:
  assumes "texts_at strs s" and "strs a = Some xs"
  shows "screen_inv s" "off_screen a (Suc (length xs))" "length xs < 2147483648" "0 \<notin> set xs"
    and "i < length xs \<Longrightarrow> mem s (a + of_nat i) = xs ! i" and "mem s (a + of_nat (length xs)) = 0"
  using assms unfolding texts_at_def by (auto simp: nth_append)

lemma texts_at_putc [simp]:
  assumes "texts_at strs s"
  shows "texts_at strs (putc c s)"
proof -
  have "mem (putc c s) (a + of_nat i) = mem s (a + of_nat i)" if "strs a = Some xs" "i \<le> length xs" for a xs i
    using off_screen_byte [OF putc_outside, of s a "Suc (length xs)" i] texts_atD(1,2) [OF assms that(1)] that(2) by simp
  then show ?thesis using assms by (simp add: texts_at_def screen_inv_putc)
qed

lemma texts_at_fold [simp]: "texts_at strs s \<Longrightarrow> texts_at strs (fold putc cs s)"
  by (induction cs arbitrary: s) simp_all

lemma puts_text:
  assumes "texts_at strs s" and "strs a = Some xs"
  shows "puts (Ptr a) s = Inr (length xs, fold putc xs s)"
proof -
  have "i \<le> length xs \<Longrightarrow> texts_at strs u \<Longrightarrow> puts_from (Ptr a) i u = Inr (length xs, fold putc (drop i xs) u)" for i u
  proof (induction "length xs - i" arbitrary: i u)
    case 0
    then have "mem u (a + of_nat i) = 0" "i < 2147483648" using texts_atD(3,6) [OF 0(3) assms(2)] by simp_all
    then show ?case using 0 by (simp add: puts_from.simps [of _ i])
  next
    case (Suc n)
    then have i: "i < length xs" by simp
    have "mem u (a + of_nat i) = xs ! i" "i < 2147483648" "xs ! i \<noteq> 0"
      using texts_atD(3,4,5) [OF Suc.prems(2) assms(2)] i by (auto simp: in_set_conv_nth)
    moreover have "puts_from (Ptr a) (Suc i) (putc (xs ! i) u) = Inr (length xs, fold putc (drop (Suc i) xs) (putc (xs ! i) u))"
      using Suc.hyps(1) [of "Suc i"] Suc.hyps(2) Suc.prems i by simp
    ultimately show ?case using Cons_nth_drop_Suc [OF i, symmetric] by (simp add: puts_from.simps [of _ i])
  qed
  from this [of 0 s] assms(1) show ?thesis by (simp add: puts_def)
qed

lemma nth_middle: "n = length zs \<Longrightarrow> (zs @ c # ys) ! n = c"
  by simp

lemma slot_drop: "drop n xs = v # vs \<Longrightarrow> slot xs n = Inr v \<and> drop (Suc n) xs = vs"
  unfolding slot_def by (cases "n < length xs") (auto simp: Cons_nth_drop_Suc [symmetric])

lemma print_signed_least: "print_signed cb 0x80000000 s = Inl UndefinedArith"
  by (simp add: print_signed_def)

lemma printf_conv_step:
  assumes "length zs < 4294967296"
  shows "printf_conv (Obj (zs @ c # ys)) args (length zs) n alt s =
    (if c = 37 then Inr (length zs, n, putc 37 s)
     else if c = 35 then printf_conv (Obj (zs @ c # ys)) args (Suc (length zs)) n True s
     else if c = 120 then rbind (slot args n) (\<lambda>v. let ds = if alt then hex8 v else digits 16 v in
            Inr (length zs, Suc n, fold putc ds s))
     else if c = 117 then rbind (slot args n) (\<lambda>v. Inr (length zs, Suc n, fold putc (digits 10 v) s))
     else if c = 100 then rbind (slot args n) (\<lambda>v.
            if v = 0x80000000 then Inl UndefinedArith else Inr (length zs, Suc n, fold putc (signed_digits v) s))
     else if c = 99 then rbind (slot args n) (\<lambda>v. Inr (length zs, Suc n, putc (ucast v) s))
     else if c = 115 then rbind (slot args n) (\<lambda>v.
            rbind (puts (Ptr v) s) (\<lambda>(_, s). Inr (length zs, Suc n, s)))
     else Inr (length zs, n, s))"
  using assms
  by (auto simp: printf_conv.simps [of _ _ "length zs"] print_hex_digits print_unsigned_digits Let_def
      print_signed_digits nth_append print_signed_least intro!: rbind_cong)

lemma printf_fmt_out:
  shows "fmt_out strs cs (drop n args) = Some out \<Longrightarrow> texts_at strs s \<Longrightarrow> 0 \<notin> set cs \<Longrightarrow> length zs + length cs < 4294967296 \<Longrightarrow>
      printf_loop (Obj (zs @ cs @ [0])) args (length zs) n s = Inr (length zs + length cs, fold putc out s)"
    and "fmt_conv strs alt cs (drop n args) = Some out \<Longrightarrow> texts_at strs s \<Longrightarrow> 0 \<notin> set cs \<Longrightarrow> length zs + length cs < 4294967296 \<Longrightarrow>
      rbind (printf_conv (Obj (zs @ cs @ [0])) args (length zs) n alt s) (\<lambda>r.
        printf_loop (Obj (zs @ cs @ [0])) args (Suc (fst r)) (fst (snd r)) (snd (snd r))) =
      Inr (length zs + length cs, fold putc out s)"
proof (induction strs cs "drop n args" and strs alt cs "drop n args" arbitrary: n out zs s and n out zs s
    rule: fmt_out_fmt_conv.induct)
  case 1
  then show ?case by (simp add: printf_loop.simps)
next
  case (2 strs c cs)
  have re: "zs @ (c # cs) @ [0] = (zs @ [c]) @ cs @ [0]" by simp
  show ?case
  proof (cases "c = 37")
    case True
    have "printf_loop (Obj (zs @ (c # cs) @ [0])) args (length zs) n s =
      rbind (printf_conv (Obj (zs @ (c # cs) @ [0])) args (length (zs @ [c])) n False s) (\<lambda>r.
        printf_loop (Obj (zs @ (c # cs) @ [0])) args (Suc (fst r)) (fst (snd r)) (snd (snd r)))"
      using "2.prems" True by (simp add: printf_loop.simps [of _ _ "length zs"])
    also have "\<dots> = Inr (length (zs @ [c]) + length cs, fold putc out s)"
      unfolding re using "2.prems" True by (intro "2.hyps"(1)) auto
    finally show ?thesis by simp
  next
    case False
    with "2.prems" obtain o' where o': "fmt_out strs cs (drop n args) = Some o'" "out = c # o'" by auto
    have "printf_loop (Obj (zs @ (c # cs) @ [0])) args (length zs) n s =
      printf_loop (Obj (zs @ (c # cs) @ [0])) args (length (zs @ [c])) n (putc c s)"
      using "2.prems" False by (simp add: printf_loop.simps [of _ _ "length zs"])
    also have "\<dots> = Inr (length (zs @ [c]) + length cs, fold putc o' (putc c s))"
      unfolding re using "2.prems" False o' by (intro "2.hyps"(2)) auto
    finally show ?thesis using o' by simp
  qed
next
  case (3 strs alt)
  then show ?case by simp
next
  case (4 strs alt c cs)
  have re: "zs @ (c # cs) @ [0] = (zs @ [c]) @ cs @ [0]" by simp
  note step = printf_conv_step [of zs c "cs @ [0]" args n alt s]
  let ?L = "\<lambda>k t. printf_loop (Obj (zs @ (c # cs) @ [0])) args (length (zs @ [c])) k t"
  have len: "length zs < 4294967296" "length (zs @ [c]) + length cs < 4294967296" "0 \<notin> set cs" and tx: "texts_at strs s"
    using "4.prems" by auto
  consider "c = 37" | "c = 35" | "c \<in> {120, 117, 100, 99, 115}" | "c \<notin> {37, 35, 120, 117, 100, 99, 115}"
    by auto
  then show ?case
  proof cases
    case 1
    with "4.prems" obtain o' where o': "fmt_out strs cs (drop n args) = Some o'" "out = 37 # o'" by auto
    have "?L n (putc 37 s) = Inr (length (zs @ [c]) + length cs, fold putc o' (putc 37 s))"
      unfolding re using 1 o' len tx by (intro "4.hyps"(1)) auto
    then show ?thesis using step len 1 o' by simp
  next
    case 2
    have "rbind (printf_conv (Obj (zs @ (c # cs) @ [0])) args (length (zs @ [c])) n True s) (\<lambda>r.
        printf_loop (Obj (zs @ (c # cs) @ [0])) args (Suc (fst r)) (fst (snd r)) (snd (snd r))) =
      Inr (length (zs @ [c]) + length cs, fold putc out s)"
      unfolding re using 2 "4.prems" len tx by (intro "4.hyps"(2)) auto
    then show ?thesis using step len 2 by simp
  next
    case 3
    then obtain v vs where v: "drop n args = v # vs" using "4.prems" by (cases "drop n args") auto
    note sl = slot_drop [OF v]
    obtain ds o' where ds: "conv_out strs alt c v = Some ds" and o': "fmt_out strs cs vs = Some o'" "out = ds @ o'"
      using 3 "4.prems" v by (auto simp del: conv_out_def split: option.splits)
    have "?L (Suc n) (fold putc ds s) = Inr (length (zs @ [c]) + length cs, fold putc o' (fold putc ds s))"
      unfolding re using 3 o' len v sl ds tx by (intro "4.hyps"(3)) auto
    moreover have "printf_conv (Obj (zs @ c # cs @ [0])) args (length zs) n alt s =
        Inr (length zs, Suc n, fold putc ds s)"
      using step len 3 sl ds puts_text [OF tx, of v ds] by (auto split: if_splits)
    ultimately show ?thesis using o' by simp
  next
    case 4
    have "?L n s = Inr (length (zs @ [c]) + length cs, fold putc out s)"
      unfolding re using 4 "4.prems" len tx by (intro "4.hyps"(4)) auto
    then show ?thesis using step len 4 by simp
  qed
qed

section \<open>Clearing the screen\<close>

lemma put_cell_index: "i < 2000 \<Longrightarrow> i = 80 * (i div 80) + i mod 80 \<and> i div 80 < 25 \<and> i mod 80 < (80 :: nat)"
  by auto

lemma char_at_clear_loop:
  assumes "n \<le> 2000" "r < 25" "c < 80"
  shows "char_at (clear_loop n m) r c = (if 80 * r + c < n then 32 else char_at m r c)"
  using assms(1)
proof (induction n)
  case 0
  then show ?case by simp
next
  case (Suc n)
  then have n: "n = 80 * (n div 80) + n mod 80" "n div 80 < 25" "n mod 80 < 80" by auto
  have "int n = 80 * int (n div 80) + int (n mod 80)" by (simp add: zdiv_int zmod_int)
  then have "char_at (clear_loop (Suc n) m) r c =
      (if r = n div 80 \<and> c = n mod 80 then 32 else char_at (clear_loop n m) r c)"
    using char_at_put [OF assms(2,3) n(2,3)] by simp
  moreover have "80 * r + c = n \<longleftrightarrow> r = n div 80 \<and> c = n mod 80"
    using cell_index [OF assms(3) n(3), of r "n div 80"] n(1) by metis
  ultimately show ?case using Suc by auto
qed

lemma screen_rows_clear: "screen_rows (mem (clear s)) = replicate 25 (replicate 80 32)"
  by (rule nth_equalityI; (rule nth_equalityI)?) (auto simp: clear_def char_at_clear_loop)

lemma clear_screen_eq:
  "clear_screen s = Inr (fold putc (bytes ''391OS> '') ((clear s)\<lparr>screen_x := 0, screen_y := 0\<rparr>))"
proof -
  have "0 \<notin> set (bytes ''391OS> '')" "37 \<notin> set (bytes ''391OS> '')" by (auto simp: bytes_def)
  then show ?thesis by (simp add: clear_screen_def printf_text)
qed

lemma screen_inv_clear_screen: "clear_screen s = Inr s' \<Longrightarrow> screen_inv s'"
  by (auto simp: clear_screen_eq intro!: con.put_all_inv) (simp add: screen_inv_def)

section \<open>Printing only prints\<close>

lemma puts_from_prints: "puts_from p i s = Inr (n, s') \<Longrightarrow> \<exists>cs. s' = fold putc cs s"
proof (induction p i s rule: puts_from.induct)
  case (1 p i s)
  show ?case
  proof (cases "2147483648 \<le> i")
    case True
    then show ?thesis using "1.prems" by (simp add: puts_from.simps)
  next
    case False
    then obtain c where c: "fetch (mem s) p i = Inr c" using "1.prems"
      by (cases "fetch (mem s) p i") (simp_all add: puts_from.simps [of p i])
    show ?thesis
    proof (cases "c = 0")
      case True
      then show ?thesis using "1.prems" False c by (auto simp: puts_from.simps [of p i] intro: exI [of _ "[]"])
    next
      case nz: False
      then have "puts_from p (Suc i) (putc c s) = Inr (n, s')" using "1.prems" False c by (simp add: puts_from.simps [of p i])
      then obtain cs where "s' = fold putc cs (putc c s)" using "1.IH" [OF False c] nz by blast
      then show ?thesis by (intro exI [of _ "c # cs"]) simp
    qed
  qed
qed

lemma puts_prints: "puts p s = Inr (n, s') \<Longrightarrow> \<exists>cs. s' = fold putc cs s"
  unfolding puts_def by (rule puts_from_prints)

lemma conversions_print:
  "print_hex cb alt v s = Inr (n, s') \<Longrightarrow> \<exists>cs. s' = fold putc cs s"
  "print_unsigned cb v s = Inr (n, s') \<Longrightarrow> \<exists>cs. s' = fold putc cs s"
  "print_signed cb v s = Inr (n, s') \<Longrightarrow> \<exists>cs. s' = fold putc cs s"
  by (auto simp: print_hex_def print_unsigned_def print_signed_def rbind_eq_Inr Let_def split: if_splits dest: puts_prints)

lemma printf_conv_prints: "printf_conv fmt args buf e alt s = Inr (b', e', s') \<Longrightarrow> \<exists>cs. s' = fold putc cs s"
proof (induction fmt args buf e alt s rule: printf_conv.induct)
  case (1 fmt args buf e alt s)
  show ?case
  proof (cases "4294967296 \<le> buf")
    case True
    then show ?thesis using "1.prems" by (simp add: printf_conv.simps)
  next
    case False
    then obtain c where c: "fetch (mem s) fmt buf = Inr c" using "1.prems"
      by (cases "fetch (mem s) fmt buf") (simp_all add: printf_conv.simps [of fmt args buf])
    have single: "\<exists>cs. putc x s = fold putc cs s" "\<exists>cs. s = fold putc cs s" for x
      by (rule exI [of _ "[x]"], simp) (rule exI [of _ "[]"], simp)
    show ?thesis
    proof (cases "c = 35")
      case True
      then show ?thesis using "1.prems" "1.IH" [OF False c] False c by (simp add: printf_conv.simps [of fmt args buf])
    next
      case n35: False
      then show ?thesis using "1.prems" False c single
        by (auto simp: printf_conv.simps [of fmt args buf] rbind_eq_Inr split: if_splits dest!: conversions_print puts_prints)
    qed
  qed
qed

lemma printf_loop_prints: "printf_loop fmt args buf e s = Inr (n, s') \<Longrightarrow> \<exists>cs. s' = fold putc cs s"
proof (induction fmt args buf e s rule: printf_loop.induct)
  case (1 fmt args buf e s)
  show ?case
  proof (cases "4294967296 \<le> buf")
    case True
    then show ?thesis using "1.prems" by (simp add: printf_loop.simps)
  next
    case False
    then obtain c where c: "fetch (mem s) fmt buf = Inr c" using "1.prems"
      by (cases "fetch (mem s) fmt buf") (simp_all add: printf_loop.simps [of fmt args buf])
    note eq = printf_loop.simps [of fmt args buf e s]
    consider "c = 0" | "c = 37" | "c \<noteq> 0" "c \<noteq> 37" by blast
    then show ?thesis
    proof cases
      case 1
      then show ?thesis using "1.prems" False c by (auto simp: eq intro: exI [of _ "[]"])
    next
      case 2
      then obtain r where r: "printf_conv fmt args (Suc buf) e False s = Inr r"
        "printf_loop fmt args (Suc (fst r)) (fst (snd r)) (snd (snd r)) = Inr (n, s')"
        using "1.prems" False c by (auto simp: eq rbind_eq_Inr)
      obtain cs where "snd (snd r) = fold putc cs s" using printf_conv_prints [of fmt args "Suc buf" e False s "fst r" "fst (snd r)" "snd (snd r)"] r(1) by auto
      moreover obtain ds where "s' = fold putc ds (snd (snd r))" using "1.IH"(1) [OF False c _ _ r(1)] r(2) 2 by auto
      ultimately show ?thesis by (intro exI [of _ "cs @ ds"]) simp
    next
      case 3
      then have "printf_loop fmt args (Suc buf) e (putc c s) = Inr (n, s')" using "1.prems" False c by (simp add: eq)
      then obtain cs where "s' = fold putc cs (putc c s)" using "1.IH"(2) [OF False c] 3 by blast
      then show ?thesis by (intro exI [of _ "c # cs"]) simp
    qed
  qed
qed

lemma printf_prints: "printf fmt args s = Inr (n, s') \<Longrightarrow> \<exists>cs. s' = fold putc cs s"
  unfolding printf_def by (rule printf_loop_prints)

section \<open>Properties\<close>

text \<open>The state the witnesses below run in.\<close>

definition reset_screen :: screen where
  "reset_screen = \<lparr>mem = \<lambda>_. 0, io_log = [], device = \<lambda>_ _. 0, sym = \<lambda>_. 0, iflag = True,
     master_mask = 0, slave_mask = 0, addr_reg = 0, screen_x = 0, screen_y = 0\<rparr>"

text \<open>
  Property C19: \<^verbatim>\<open>printf\<close> prints what its format string says: for every format whose output is
  defined (the conversions \<^verbatim>\<open>%%\<close>, \<^verbatim>\<open>%x\<close>, \<^verbatim>\<open>%#x\<close>, \<^verbatim>\<open>%u\<close>, \<^verbatim>\<open>%d\<close>, \<^verbatim>\<open>%c\<close> and \<^verbatim>\<open>%s\<close> in any number and order, with enough
  arguments, and strings that are in memory apart from the screen) it terminates, returns the length of the format, and has put
  exactly the characters of the specified output, in order, on the screen.
\<close>

theorem printf_refines_format:
  assumes "fmt_out strs fmt args = Some out" and "texts_at strs s" and "0 \<notin> set fmt" and "length fmt < 4294967296" and "screen_inv s"
  shows "\<exists>s'. printf (Obj (fmt @ [0])) args s = Inr (length fmt, s') \<and>
    screen_abs s' = fold vt_putc out (screen_abs s) \<and> screen_inv s'"
  using assms printf_fmt_out(1) [of strs fmt 0 args out s "[]"]
  by (simp add: printf_def con.put_all_inv con.put_all_refines)

theorem printf_refines_format_witness:
  "\<exists>s'. printf (Obj (bytes ''%s=%#x%%'' @ [0])) [0x500000, 0xABC] (reset_screen\<lparr>mem := wr (mem reset_screen) 0x500000 (bytes ''eax'')\<rparr>) =
     Inr (8, s') \<and> screen_inv s'"
proof -
  let ?s = "reset_screen\<lparr>mem := wr (mem reset_screen) 0x500000 (bytes ''eax'')\<rparr>"
  have "texts_at [0x500000 \<mapsto> bytes ''eax''] ?s"
    by (auto simp: texts_at_def bytes_def screen_inv_def reset_screen_def wr_def nth_append nth_Cons' off_screen_def
        intro!: disjoint_ranges_apart)
  moreover have "fmt_out [0x500000 \<mapsto> bytes ''eax''] (bytes ''%s=%#x%%'') [0x500000, 0xABC] = Some (bytes ''eax='' @ hex8 0xABC @ [37])"
    by (simp add: bytes_def)
  moreover have "screen_inv ?s" by (simp add: screen_inv_def reset_screen_def)
  ultimately show ?thesis
    using printf_refines_format [of "[0x500000 \<mapsto> bytes ''eax'']" "bytes ''%s=%#x%%''" "[0x500000, 0xABC]" _ ?s]
    by (auto simp: bytes_def)
qed

text \<open>
  The \<^verbatim>\<open>%#x\<close> conversion prints exactly eight characters, which read back in base 16 as
  the argument, whatever the uninitialised conversion buffer held before.
\<close>

lemma print_hex_padded:
  assumes "length conv_buf = 64"
  shows "print_hex conv_buf True v s = Inr (8, fold putc (hex8 v) s) \<and>
    length (hex8 v) = 8 \<and> parse_number 16 (hex8 v) = unat v"
  using assms by (simp add: print_hex_digits hex8_value Let_def)

lemma print_hex_padded_witness:
  "print_hex (replicate 64 0xCC) True 14 reset_screen = Inr (8, fold putc (hex8 14) reset_screen) \<and>
     parse_number 16 (hex8 14) = 14"
  using print_hex_padded [of "replicate 64 0xCC" 14 reset_screen] by simp

text \<open>
  A format that ends in a lone percent sign makes \<^verbatim>\<open>printf\<close> read past the terminating
  null byte: the conversion switch steps over the terminator and the loop goes on behind it.
\<close>

lemma printf_dangling_percent:
  assumes "0 \<notin> set (bytes str)" and "37 \<notin> set (bytes str)" and "length str < 4294967290"
  shows "printf (lit (str @ ''%'')) args s = Inl OutOfBounds"
proof -
  let ?b = "bytes str"
  have len: "length ?b = length str" by (simp add: bytes_def)
  have lit: "lit (str @ ''%'') = Obj (?b @ [37, 0])" by (simp add: lit_def bytes_def)
  have "printf (lit (str @ ''%'')) args s = printf_loop (Obj ([] @ ?b @ [37, 0])) args (length ([] @ ?b)) 0 (fold putc ?b s)"
    unfolding printf_def lit using printf_loop_plain [of ?b "[]" "[37, 0]" args 0 s] assms len by simp
  also have "\<dots> = Inl OutOfBounds"
    using assms(3) len printf_conv_step [of "?b @ [37]" 0 "[]" args 0 False "fold putc ?b s"]
    by (simp add: printf_loop.simps nth_append)
  finally show ?thesis .
qed

lemma printf_dangling_percent_witness:
  "printf (lit (''100'' @ ''%'')) [] reset_screen = Inl OutOfBounds"
  by (rule printf_dangling_percent) (simp_all add: bytes_def)

text \<open>
  \<^verbatim>\<open>clear_screen\<close>, from any state, leaves a blank screen with the prompt at its start
  and the cursor after the prompt.
\<close>

lemma clear_screen_prompts:
  "\<exists>s'. clear_screen s = Inr s' \<and> screen_inv s' \<and>
     screen_abs s' = fold vt_putc (bytes ''391OS> '') (replicate 25 (replicate 80 32), 0, 0)"
proof -
  let ?t = "(clear s)\<lparr>screen_x := 0, screen_y := 0\<rparr>"
  have "screen_inv ?t" by (simp add: screen_inv_def)
  moreover have "screen_abs ?t = (replicate 25 (replicate 80 32), 0, 0)"
    using screen_rows_clear [of s] by (simp add: screen_abs_def)
  ultimately show ?thesis by (simp add: clear_screen_eq con.put_all_inv con.put_all_refines)
qed

end
