(* ===== verification/Idt.thy ===== *)
theory Idt
  imports Printf I8259
begin

text \<open>
  The interrupt descriptor table: \<^verbatim>\<open>idt_desc_t\<close> and \<^verbatim>\<open>SET_IDT_ENTRY\<close> of \<^verbatim>\<open>x86_desc.h\<close>, \<^verbatim>\<open>init_idt\<close> and
  the exception handlers of \<^verbatim>\<open>idt.c\<close>, and \<^verbatim>\<open>insert_idt\<close> of \<^verbatim>\<open>intr_util.c\<close>. The bit fields are words of
  their declared width. The addresses of the handlers are the link-time parameter \<open>sym\<close>.

  An exception handler prints its message and then spins in \<^verbatim>\<open>while(1)\<close>; its result is
  \<open>Spins s\<close> with the state it spins in.
\<close>

section \<open>Definitions\<close>

abbreviation (input) KERNEL_CS :: u16 where "KERNEL_CS \<equiv> 0x0010"
abbreviation (input) NUM_VEC :: nat where "NUM_VEC \<equiv> 256"
abbreviation (input) RESV_IDT_NUM :: u32 where "RESV_IDT_NUM \<equiv> 32"

record idt_desc_t =
  offset_15_00 :: u16
  seg_selector :: u16
  reserved4 :: u8
  reserved3 :: "1 word"
  reserved2 :: "1 word"
  reserved1 :: "1 word"
  size_bit :: "1 word"
  reserved0 :: "1 word"
  dpl :: "2 word"
  present :: "1 word"
  offset_31_16 :: u16

record idt_st = screen +
  idt :: "idt_desc_t list"

definition SET_IDT_ENTRY :: "u32 \<Rightarrow> idt_desc_t \<Rightarrow> idt_desc_t" where
  "SET_IDT_ENTRY handler str =
     str\<lparr>offset_31_16 := ucast (drop_bit 16 (handler AND 0xFFFF0000)),
         offset_15_00 := ucast (handler AND 0xFFFF)\<rparr>"

text \<open>The body of the loop of \<^verbatim>\<open>init_idt\<close> for vector \<open>i\<close>.\<close>

definition init_idt_entry :: "(symbol \<Rightarrow> u32) \<Rightarrow> nat \<Rightarrow> idt_desc_t \<Rightarrow> idt_desc_t" where
  "init_idt_entry addr i d =
     (let d = d\<lparr>offset_15_00 := 0\<rparr>;
          d = d\<lparr>seg_selector := KERNEL_CS\<rparr>;
          d = d\<lparr>reserved4 := 0\<rparr>;
          d = d\<lparr>reserved3 := if i < 32 then 0 else 1\<rparr>;
          d = d\<lparr>reserved2 := 1\<rparr>;
          d = d\<lparr>reserved1 := 1\<rparr>;
          d = d\<lparr>size_bit := 1\<rparr>;
          d = d\<lparr>reserved0 := 0\<rparr>;
          d = d\<lparr>dpl := if i = 0x80 then 3 else 0\<rparr>;
          d = d\<lparr>present := if (i < 20 \<and> i \<noteq> 15) \<or> i = 0x80 \<or> i = 0x20 then 1 else 0\<rparr>;
          d = d\<lparr>offset_31_16 := 0\<rparr>;
          d = (if i \<noteq> 0x80 \<or> i \<noteq> 0x20 then SET_IDT_ENTRY (addr Sym_exp_default) d else d)
      in if i = 0x80 then SET_IDT_ENTRY (addr Sym_syscall_asm_linkage) d else d)"

definition set_vector :: "nat \<Rightarrow> symbol \<Rightarrow> 'a idt_st_scheme \<Rightarrow> 'a idt_st_scheme" where
  "set_vector i f s = s\<lparr>idt := (idt s)[i := SET_IDT_ENTRY (sym s f) (idt s ! i)]\<rparr>"

definition init_idt :: "'a idt_st_scheme \<Rightarrow> 'a idt_st_scheme" where
  "init_idt s =
     (let s = fold (\<lambda>i s. s\<lparr>idt := (idt s)[i := init_idt_entry (sym s) i (idt s ! i)]\<rparr>) [0..<NUM_VEC] s;
          s = set_vector 0 Sym_exp_de s;
          s = set_vector 1 Sym_exp_db s;
          s = set_vector 2 Sym_exp_nmi s;
          s = set_vector 3 Sym_exp_bp s;
          s = set_vector 4 Sym_exp_of s;
          s = set_vector 5 Sym_exp_br s;
          s = set_vector 6 Sym_exp_ud s;
          s = set_vector 7 Sym_exp_nm s;
          s = set_vector 8 Sym_exp_df s;
          s = set_vector 9 Sym_exp_cso s;
          s = set_vector 10 Sym_exp_ts s;
          s = set_vector 11 Sym_exp_np s;
          s = set_vector 12 Sym_exp_ss s;
          s = set_vector 13 Sym_exp_gp s;
          s = set_vector 14 Sym_exp_pf s;
          s = set_vector 16 Sym_exp_mf s;
          s = set_vector 17 Sym_exp_ac s;
          s = set_vector 18 Sym_exp_mc s;
          s = set_vector 19 Sym_exp_xf s
      in set_vector 32 Sym_pit_wrapper s)"

definition insert_idt :: "u32 \<Rightarrow> u32 \<Rightarrow> 'a idt_st_scheme \<Rightarrow> (int \<times> 'a idt_st_scheme) res" where
  "insert_idt handler irq_num s =
     (if handler = 0
      then rbind (printf (lit ''No handler found!'') [] s) (\<lambda>(_, s). Inr (-1, s))
      else let i = unat (RESV_IDT_NUM + irq_num)
           in if length (idt s) \<le> i then Inl OutOfBounds
              else let d = SET_IDT_ENTRY handler (idt s ! i);
                       d = d\<lparr>present := 1\<rparr>;
                       d = d\<lparr>seg_selector := KERNEL_CS\<rparr>
                   in Inr (0, s\<lparr>idt := (idt s)[i := d]\<rparr>))"

section \<open>Exception handlers\<close>

datatype 's outcome = Returns 's | Spins 's

definition print_and_spin :: "string \<Rightarrow> 'a screen_scheme \<Rightarrow> 'a screen_scheme outcome res" where
  "print_and_spin msg s = rbind (printf (lit msg) [] s) (\<lambda>(_, s). Inr (Spins s))"

abbreviation (input) newline :: string where "newline \<equiv> [CHR 0x0A]"

definition exp_de where "exp_de = print_and_spin (''Divide by 0 0x0 '' @ newline)"
definition exp_db where "exp_db = print_and_spin (''Intel reserved exception 0x1'' @ newline)"
definition exp_nmi where "exp_nmi = print_and_spin (''Non-maskable interrupt invoked 0x2'' @ newline)"
definition exp_bp where "exp_bp = print_and_spin (''INT 3(Breakpoint) instruction invoked 0x3'' @ newline)"
definition exp_of where "exp_of = print_and_spin (''Overflow (INTO) 0x4'' @ newline)"
definition exp_br where "exp_br = print_and_spin (''Bounds range exceeded 0x5'' @ newline)"
definition exp_ud where "exp_ud = print_and_spin (''Invalid opcode 0x6'' @ newline)"
definition exp_nm where "exp_nm = print_and_spin (''Device not available 0x7'' @ newline)"
definition exp_df where "exp_df = print_and_spin (''Double fault 0x8'' @ newline)"
definition exp_cso where "exp_cso = print_and_spin (''Coprocessor segment overrun 0x9'' @ newline)"
definition exp_ts where "exp_ts = print_and_spin (''Invalid TSS 0xA'' @ newline)"
definition exp_np where "exp_np = print_and_spin (''Segment not present 0xB'' @ newline)"
definition exp_ss where "exp_ss = print_and_spin (''Stack-segment fault 0xC'' @ newline)"
definition exp_gp where "exp_gp = print_and_spin (''General protection fault 0xD'' @ newline)"
definition exp_pf where "exp_pf = print_and_spin (''Page fault 0xE'' @ newline)"
definition exp_mf where "exp_mf = print_and_spin (''x87 FPU error 0x10'' @ newline)"
definition exp_ac where "exp_ac = print_and_spin (''Alignment check 0x11'' @ newline)"
definition exp_mc where "exp_mc = print_and_spin (''Machine check 0x12'' @ newline)"
definition exp_xf where "exp_xf = print_and_spin (''SIMD Floating-Point Exception 0x13'' @ newline)"
definition exp_default where "exp_default = print_and_spin (''Unknown exception has occurred'' @ newline)"

section \<open>What the processor reads from a gate\<close>

definition gate_offset :: "idt_desc_t \<Rightarrow> u32" where
  "gate_offset d = push_bit 16 (ucast (offset_31_16 d)) OR ucast (offset_15_00 d)"

text \<open>The five type bits of a gate: \<open>0xE\<close> is a 32-bit interrupt gate, \<open>0xF\<close> a 32-bit trap gate.\<close>

definition gate_type :: "idt_desc_t \<Rightarrow> nat" where
  "gate_type d = unat (reserved3 d) + 2 * unat (reserved2 d) + 4 * unat (reserved1 d) +
     8 * unat (size_bit d) + 16 * unat (reserved0 d)"

text \<open>The handlers of the processor's exceptions, by vector; vector 15 is reserved.\<close>

definition exception_symbols :: "symbol list" where
  "exception_symbols =
     [Sym_exp_de, Sym_exp_db, Sym_exp_nmi, Sym_exp_bp, Sym_exp_of, Sym_exp_br, Sym_exp_ud, Sym_exp_nm,
      Sym_exp_df, Sym_exp_cso, Sym_exp_ts, Sym_exp_np, Sym_exp_ss, Sym_exp_gp, Sym_exp_pf, Sym_exp_default,
      Sym_exp_mf, Sym_exp_ac, Sym_exp_mc, Sym_exp_xf]"

definition vector_symbol :: "nat \<Rightarrow> symbol" where
  "vector_symbol v =
     (if v < 20 then exception_symbols ! v
      else if v = 32 then Sym_pit_wrapper else if v = 0x80 then Sym_syscall_asm_linkage
      else Sym_exp_default)"

text \<open>The code at a handler's address.\<close>

definition exception_code :: "symbol \<Rightarrow> 'a screen_scheme \<Rightarrow> 'a screen_scheme outcome res" where
  "exception_code f =
     (case f of
        Sym_exp_de \<Rightarrow> exp_de | Sym_exp_db \<Rightarrow> exp_db | Sym_exp_nmi \<Rightarrow> exp_nmi | Sym_exp_bp \<Rightarrow> exp_bp
      | Sym_exp_of \<Rightarrow> exp_of | Sym_exp_br \<Rightarrow> exp_br | Sym_exp_ud \<Rightarrow> exp_ud | Sym_exp_nm \<Rightarrow> exp_nm
      | Sym_exp_df \<Rightarrow> exp_df | Sym_exp_cso \<Rightarrow> exp_cso | Sym_exp_ts \<Rightarrow> exp_ts | Sym_exp_np \<Rightarrow> exp_np
      | Sym_exp_ss \<Rightarrow> exp_ss | Sym_exp_gp \<Rightarrow> exp_gp | Sym_exp_pf \<Rightarrow> exp_pf | Sym_exp_mf \<Rightarrow> exp_mf
      | Sym_exp_ac \<Rightarrow> exp_ac | Sym_exp_mc \<Rightarrow> exp_mc | Sym_exp_xf \<Rightarrow> exp_xf | _ \<Rightarrow> exp_default)"

section \<open>Lemmas\<close>

lemma gate_offset_SET [simp]: "gate_offset (SET_IDT_ENTRY h d) = h"
proof -
  have m: "(0xFFFF :: u32) = mask 16" "(0xFFFF0000 :: u32) = push_bit 16 (mask 16)"
    by (simp_all add: mask_eq_exp_minus_1)
  show ?thesis
    unfolding gate_offset_def SET_IDT_ENTRY_def m
    by (rule bit_word_eqI) (auto simp: bit_simps)
qed

lemma SET_frame [simp]:
  "present (SET_IDT_ENTRY h d) = present d" "dpl (SET_IDT_ENTRY h d) = dpl d"
  "gate_type (SET_IDT_ENTRY h d) = gate_type d" "seg_selector (SET_IDT_ENTRY h d) = seg_selector d"
  by (simp_all add: SET_IDT_ENTRY_def gate_type_def)

lemma init_entry_fields:
  "gate_offset (init_idt_entry a i d) = a (if i = 0x80 then Sym_syscall_asm_linkage else Sym_exp_default)"
  "present (init_idt_entry a i d) = (if (i < 20 \<and> i \<noteq> 15) \<or> i = 0x80 \<or> i = 0x20 then 1 else 0)"
  "dpl (init_idt_entry a i d) = (if i = 0x80 then 3 else 0)"
  "gate_type (init_idt_entry a i d) = (if i < 32 then 0xE else 0xF)"
  "seg_selector (init_idt_entry a i d) = KERNEL_CS"
  by (simp_all add: init_idt_entry_def Let_def) (simp_all add: gate_type_def)

lemma set_vector_frame [simp]:
  "length (idt (set_vector i f s)) = length (idt s)" "sym (set_vector i f s) = sym s"
  by (simp_all add: set_vector_def)

lemma idt_set_vector:
  "v < length (idt s) \<Longrightarrow> idt (set_vector i f s) ! v =
     (if v = i then SET_IDT_ENTRY (sym s f) (idt s ! v) else idt s ! v)"
  by (auto simp: set_vector_def nth_list_update)

text \<open>The table after the loop of \<^verbatim>\<open>init_idt\<close>.\<close>

lemma init_loop:
  fixes s :: "'a idt_st_scheme"
  defines "t n \<equiv> fold (\<lambda>i s. s\<lparr>idt := (idt s)[i := init_idt_entry (sym s) i (idt s ! i)]\<rparr>) [0..<n] s"
  shows "length (idt (t n)) = length (idt s) \<and> sym (t n) = sym s \<and>
    (\<forall>v < length (idt s). idt (t n) ! v = (if v < n then init_idt_entry (sym s) v (idt s ! v) else idt s ! v))"
  unfolding t_def by (induction n) (auto simp: nth_list_update less_Suc_eq)

definition idt_after_loop :: "'a idt_st_scheme \<Rightarrow> 'a idt_st_scheme" where
  "idt_after_loop s = fold (\<lambda>i s. s\<lparr>idt := (idt s)[i := init_idt_entry (sym s) i (idt s ! i)]\<rparr>) [0..<NUM_VEC] s"

lemma idt_after_loop [simp]:
  "length (idt (idt_after_loop s)) = length (idt s)" "sym (idt_after_loop s) = sym s"
  "v < length (idt s) \<Longrightarrow> v < 256 \<Longrightarrow> idt (idt_after_loop s) ! v = init_idt_entry (sym s) v (idt s ! v)"
  using init_loop [where s = s and n = 256] by (simp_all add: idt_after_loop_def)

lemma init_idt_nth:
  assumes "length (idt s) = 256" "v < 256"
  shows "idt (init_idt s) ! v =
    (if v < 20 \<and> v \<noteq> 15 \<or> v = 32
     then SET_IDT_ENTRY (sym s (vector_symbol v)) (init_idt_entry (sym s) v (idt s ! v))
     else init_idt_entry (sym s) v (idt s ! v))"
proof (cases "v < 20 \<or> v = 32")
  case False
  then show ?thesis
    unfolding init_idt_def idt_after_loop_def [symmetric] Let_def
    using assms by (simp add: idt_set_vector)
next
  case True
  then have "v \<in> {0, 1, 2, 3, 4, 5, 6, 7, 8, 9, 10, 11, 12, 13, 14, 15, 16, 17, 18, 19, 32}"
    by (simp only: insert_iff empty_iff) presburger
  then show ?thesis
    unfolding init_idt_def idt_after_loop_def [symmetric] Let_def
    using assms by (elim insertE emptyE; simp add: idt_set_vector vector_symbol_def exception_symbols_def)
qed

lemma printf_message:
  assumes "0 \<notin> set (bytes msg)" "37 \<notin> set (bytes msg)" "length msg < 4294967296"
  shows "print_and_spin msg s = Inr (Spins (fold putc (bytes msg) s))"
  by (simp add: print_and_spin_def printf_text [OF assms])

lemmas exp_defs = exp_de_def exp_db_def exp_nmi_def exp_bp_def exp_of_def exp_br_def exp_ud_def exp_nm_def
  exp_df_def exp_cso_def exp_ts_def exp_np_def exp_ss_def exp_gp_def exp_pf_def exp_mf_def exp_ac_def
  exp_mc_def exp_xf_def exp_default_def

lemma exception_message:
  "\<exists>msg. exception_code f s = print_and_spin msg s \<and> msg \<noteq> [] \<and> 0 \<notin> set (bytes msg) \<and> 37 \<notin> set (bytes msg) \<and>
     length msg < 4294967296"
  by (cases f; rule exI; rule conjI, simp only: exception_code_def exp_defs symbol.case, simp add: bytes_def)

lemma exception_code_spins: "\<exists>msg. msg \<noteq> [] \<and> exception_code f s = Inr (Spins (fold putc msg s))"
proof -
  obtain msg where "exception_code f s = print_and_spin msg s" "msg \<noteq> []"
    "0 \<notin> set (bytes msg)" "37 \<notin> set (bytes msg)" "length msg < 4294967296"
    using exception_message [of f s] by blast
  then show ?thesis by (intro exI [of _ "bytes msg"]) (simp add: printf_message bytes_def)
qed

section \<open>Properties\<close>

text \<open>
  Property C26: after \<^verbatim>\<open>init_idt\<close> every vector of the table leads to the handler written for it: the
  two halves of the offset recombine to the address of that handler, the gate is present exactly for
  the exceptions other than the reserved vector 15, the timer vector and the system call vector, only
  the system call gate is open to user level, and vectors below 32 are interrupt gates while all others
  are trap gates.
\<close>

theorem init_idt_vectors:
  assumes "length (idt s) = 256" and "v < 256"
  shows "let d = idt (init_idt s) ! v in
    gate_offset d = sym s (vector_symbol v) \<and>
    (present d = 1 \<longleftrightarrow> v < 20 \<and> v \<noteq> 15 \<or> v = 0x80 \<or> v = 0x20) \<and>
    dpl d = (if v = 0x80 then 3 else 0) \<and>
    gate_type d = (if v < 32 then 0xE else 0xF) \<and> seg_selector d = 0x10"
  unfolding Let_def init_idt_nth [OF assms]
  by (auto simp: init_entry_fields vector_symbol_def exception_symbols_def)

theorem init_idt_vectors_witness:
  "gate_offset (idt (init_idt \<lparr>mem = \<lambda>_. 0, io_log = [], device = \<lambda>_ _. 0,
      sym = \<lambda>f. if f = Sym_exp_pf then 0x401234 else 0, iflag = False, master_mask = 0xff, slave_mask = 0xff,
      addr_reg = 0, screen_x = 0, screen_y = 0,
      idt = replicate 256 \<lparr>offset_15_00 = 0, seg_selector = 0, reserved4 = 0, reserved3 = 0, reserved2 = 0,
        reserved1 = 0, size_bit = 0, reserved0 = 0, dpl = 0, present = 0, offset_31_16 = 0\<rparr>\<rparr>) ! 14) = 0x401234"
  by (subst init_idt_vectors [unfolded Let_def, THEN conjunct1])
    (simp_all add: vector_symbol_def exception_symbols_def)

text \<open>
  \<^verbatim>\<open>insert_idt\<close> with a handler for one of the 16 interrupt lines makes the gate of that line
  present and lead to the handler, keeps its type and privilege, and changes no other vector; without a
  handler it reports failure and leaves the table as it was.
\<close>

lemma insert_idt_gate:
  assumes "length (idt s) = 256" and "irq < 16"
  shows "(h \<noteq> 0 \<longrightarrow> (\<exists>s'. insert_idt h (of_nat irq) s = Inr (0, s') \<and>
      gate_offset (idt s' ! (32 + irq)) = h \<and> present (idt s' ! (32 + irq)) = 1 \<and>
      gate_type (idt s' ! (32 + irq)) = gate_type (idt s ! (32 + irq)) \<and>
      dpl (idt s' ! (32 + irq)) = dpl (idt s ! (32 + irq)) \<and>
      (\<forall>v. v \<noteq> 32 + irq \<longrightarrow> idt s' ! v = idt s ! v))) \<and>
    (\<exists>s'. insert_idt 0 (of_nat irq) s = Inr (-1, s') \<and> idt s' = idt s)"
proof -
  have idx: "unat (32 + of_nat irq :: u32) = 32 + irq"
    using u32_less_add_eq [of 32 irq] assms by simp
  have idt_fold: "idt (fold putc cs s) = idt s" for cs :: "u8 list"
    by (induction cs arbitrary: s)
      (simp_all add: putc_def Let_def scroll_def set_cursor_loc_def io_defs)
  have "insert_idt 0 (of_nat irq) s = Inr (-1, fold putc (bytes ''No handler found!'') s)"
    using printf_text [of "''No handler found!''" "[]" s] by (simp add: insert_idt_def bytes_def)
  moreover have "gate_offset (d\<lparr>present := p, seg_selector := q\<rparr>) = gate_offset d"
    "gate_type (d\<lparr>present := p, seg_selector := q\<rparr>) = gate_type d" for d p q
    by (simp_all add: gate_offset_def gate_type_def)
  ultimately show ?thesis
    using assms idx by (simp add: insert_idt_def Let_def idt_fold)
qed

lemma insert_idt_gate_witness:
  "\<exists>s'. insert_idt 0x400000 8 \<lparr>mem = \<lambda>_. 0, io_log = [], device = \<lambda>_ _. 0, sym = \<lambda>_. 0, iflag = False,
      master_mask = 0xff, slave_mask = 0xff, addr_reg = 0, screen_x = 0, screen_y = 0,
      idt = replicate 256 \<lparr>offset_15_00 = 0, seg_selector = 0, reserved4 = 0, reserved3 = 0, reserved2 = 0,
        reserved1 = 0, size_bit = 0, reserved0 = 0, dpl = 0, present = 0, offset_31_16 = 0\<rparr>\<rparr> = Inr (0, s')
    \<and> gate_offset (idt s' ! 40) = 0x400000"
  using insert_idt_gate [of "\<lparr>mem = \<lambda>_. 0, io_log = [], device = \<lambda>_ _. 0, sym = \<lambda>_. 0, iflag = False,
      master_mask = 0xff, slave_mask = 0xff, addr_reg = 0, screen_x = 0, screen_y = 0,
      idt = replicate 256 \<lparr>offset_15_00 = 0, seg_selector = 0, reserved4 = 0, reserved3 = 0, reserved2 = 0,
        reserved1 = 0, size_bit = 0, reserved0 = 0, dpl = 0, present = 0, offset_31_16 = 0\<rparr>\<rparr>" 8 "0x400000"]
  by auto

text \<open>
  Every exception is fatal and reported: the handler of each exception vector prints a
  non-empty message on the screen and then spins; it never returns to the code that raised the
  exception.
\<close>

lemma exceptions_report_and_spin:
  assumes "screen_inv s" and "v < 20"
  shows "\<exists>msg s'. exception_code (vector_symbol v) s = Inr (Spins s') \<and> msg \<noteq> [] \<and>
    screen_abs s' = fold vt_putc msg (screen_abs s) \<and> screen_inv s'"
  using exception_code_spins [of "vector_symbol v" s] assms(1)
  by (metis con.put_all_inv con.put_all_refines)

lemma exceptions_report_and_spin_witness:
  "\<exists>s'. exception_code (vector_symbol 14) reset_screen = Inr (Spins s') \<and> screen_inv s'"
proof -
  have "screen_inv reset_screen" by (simp add: screen_inv_def reset_screen_def)
  from exceptions_report_and_spin [OF this, of 14] show ?thesis by auto
qed

end
