(* ===== verification/Paging.thy ===== *)
theory Paging
  imports Idt "HOL-Library.Signed_Division"
begin

text \<open>
  The page tables, \<^verbatim>\<open>paging.c\<close>: the three 1024-entry tables, \<^verbatim>\<open>paging_setup\<close>,
  \<^verbatim>\<open>set_up_program_paging\<close>, \<^verbatim>\<open>vidmap_helper\<close>, \<^verbatim>\<open>map_term\<close> and \<^verbatim>\<open>remap_terminal_schedule\<close>, with the
  control registers the inline assembly loads.

  The specification side is \<open>mmu\<close>, the two-level translation of the processor with 4 MB pages
  enabled. The addresses of the tables come from the linker (\<open>sym\<close>); \<open>linked\<close> states what the
  declarations \<^verbatim>\<open>aligned(PAGE_SIZE)\<close> and the load address of the kernel guarantee of them.
\<close>

section \<open>Definitions\<close>

abbreviation (input) NUM_ENTRY :: nat where "NUM_ENTRY \<equiv> 1024"
abbreviation (input) BLANK :: u32 where "BLANK \<equiv> 2"
abbreviation (input) VMEM :: u32 where "VMEM \<equiv> 0xB8000"
abbreviation (input) RW_P_MASK :: u32 where "RW_P_MASK \<equiv> 3"
abbreviation (input) KERNEL_PHYS_VIRT_MEMO_ADDR :: u32 where "KERNEL_PHYS_VIRT_MEMO_ADDR \<equiv> 0x400000"
abbreviation (input) FOUR_MB_PAGE :: u32 where "FOUR_MB_PAGE \<equiv> 0x80"
abbreviation (input) FOUR_MB :: int where "FOUR_MB \<equiv> 0x400000"
abbreviation (input) PROGRAM_PAGE_MASK :: u32 where "PROGRAM_PAGE_MASK \<equiv> 0x87"
abbreviation (input) PROGRAM_IDX :: nat where "PROGRAM_IDX \<equiv> 32"
abbreviation (input) VID_MEM_INIT :: u32 where "VID_MEM_INIT \<equiv> 0x8800000"
abbreviation (input) VID_FOURKB :: u32 where "VID_FOURKB \<equiv> 0x17"
abbreviation (input) PD_MASK :: u32 where "PD_MASK \<equiv> 0xFFC00000"
abbreviation (input) PT_MASK :: u32 where "PT_MASK \<equiv> 0x003FF000"

record paging = idt_st +
  page_directory :: "u32 list"
  page_table :: "u32 list"
  vid_page_table :: "u32 list"
  cr0 :: u32
  cr3 :: u32
  cr4 :: u32

definition load_cr3 :: "'a paging_scheme \<Rightarrow> 'a paging_scheme" where
  "load_cr3 s = s\<lparr>cr3 := sym s Sym_page_directory\<rparr>"

definition paging_setup :: "'a paging_scheme \<Rightarrow> 'a paging_scheme" where
  "paging_setup s =
     (let s = fold (\<lambda>i s. s\<lparr>page_table := (page_table s)[i := BLANK],
                           page_directory := (page_directory s)[i := BLANK]\<rparr>) [0..<NUM_ENTRY] s;
          s = s\<lparr>page_table := (page_table s)[unat (drop_bit 12 VMEM) := VMEM OR RW_P_MASK]\<rparr>;
          pt = sym s Sym_page_table;
          s = s\<lparr>page_directory := (page_directory s)[unat (drop_bit 22 pt) := pt OR RW_P_MASK]\<rparr>;
          s = s\<lparr>page_directory := (page_directory s)[0 := pt OR RW_P_MASK]\<rparr>;
          s = s\<lparr>page_directory := (page_directory s)[1 := KERNEL_PHYS_VIRT_MEMO_ADDR OR RW_P_MASK OR FOUR_MB_PAGE]\<rparr>;
          s = load_cr3 s;
          s = s\<lparr>cr4 := cr4 s OR 0x10\<rparr>
      in s\<lparr>cr0 := cr0 s OR 0x80000000\<rparr>)"

definition int32 :: "int \<Rightarrow> int res" where
  "int32 i = (if - 2147483648 \<le> i \<and> i < 2147483648 then Inr i else Inl UndefinedArith)"

definition set_up_program_paging :: "int \<Rightarrow> 'a paging_scheme \<Rightarrow> 'a paging_scheme res" where
  "set_up_program_paging process_number s =
     rbind (int32 (process_number * FOUR_MB)) (\<lambda>start_addr.
     rbind (int32 (uint KERNEL_PHYS_VIRT_MEMO_ADDR + start_addr)) (\<lambda>a.
       let s = s\<lparr>page_directory := (page_directory s)[PROGRAM_IDX := word_of_int a OR PROGRAM_PAGE_MASK]\<rparr>
       in Inr (s\<lparr>cr3 := cr3 s\<rparr>)))"

definition vidmap_helper :: "'a paging_scheme \<Rightarrow> u32 \<times> 'a paging_scheme" where
  "vidmap_helper s =
     (let s = fold (\<lambda>i s. s\<lparr>vid_page_table := (vid_page_table s)[i := BLANK]\<rparr>) [0..<NUM_ENTRY] s;
          pd_idx = VID_MEM_INIT AND PD_MASK;
          pt_idx = VID_MEM_INIT AND PT_MASK;
          s = s\<lparr>page_directory := (page_directory s)[unat (drop_bit 22 pd_idx) := sym s Sym_vid_page_table OR VID_FOURKB]\<rparr>;
          s = s\<lparr>vid_page_table := (vid_page_table s)[unat (drop_bit 12 pt_idx) := VMEM OR VID_FOURKB]\<rparr>
      in (VID_MEM_INIT, load_cr3 s))"

text \<open>
  \<^verbatim>\<open>map_term\<close> dereferences its pointer argument: what goes into the page table is the word stored there, which is
  the argument here.
\<close>

definition map_term :: "u8 \<Rightarrow> u8 \<Rightarrow> u32 \<Rightarrow> 'a paging_scheme \<Rightarrow> 'a paging_scheme" where
  "map_term term_flag old_flag addr_word s =
     (let s = s\<lparr>vid_page_table := (vid_page_table s)[unat old_flag := addr_word OR 7]\<rparr>;
          s = s\<lparr>vid_page_table := (vid_page_table s)[unat term_flag := VMEM OR 7]\<rparr>
      in load_cr3 s)"

definition remap_terminal_schedule :: "u32 \<Rightarrow> u32 \<Rightarrow> 'a paging_scheme \<Rightarrow> 'a paging_scheme res" where
  "remap_terminal_schedule virtual_addr phy_addr s =
     (let pd_idx = unat (word_of_int (sint virtual_addr sdiv FOUR_MB) :: u32)
      in if NUM_ENTRY \<le> pd_idx then Inl OutOfBounds
         else let s = s\<lparr>page_directory := (page_directory s)[pd_idx := sym s Sym_vid_page_table OR 7]\<rparr>;
                  s = s\<lparr>vid_page_table := (vid_page_table s)[0 := phy_addr OR 7]\<rparr>
              in Inr (load_cr3 s))"

section \<open>The processor's translation\<close>

text \<open>An entry admits an access: it is present, and open to user level (and writable) when the access needs it.\<close>

definition entry_ok :: "bool \<Rightarrow> bool \<Rightarrow> u32 \<Rightarrow> bool" where
  "entry_ok user write e \<longleftrightarrow> bit e 0 \<and> (user \<longrightarrow> bit e 2) \<and> (user \<and> write \<longrightarrow> bit e 1)"

definition frame_of :: "nat \<Rightarrow> u32 \<Rightarrow> u32 \<Rightarrow> u32" where
  "frame_of k e va = push_bit k (drop_bit k e) OR take_bit k va"

text \<open>
  The kernel enters no page table in the directory but its two; an entry for any other table has no
  meaning here and counts as not present.
\<close>

definition table_entry :: "'a paging_scheme \<Rightarrow> u32 \<Rightarrow> nat \<Rightarrow> u32" where
  "table_entry s base i =
     (if base = sym s Sym_page_table then page_table s ! i
      else if base = sym s Sym_vid_page_table then vid_page_table s ! i
      else 0)"

definition mmu :: "bool \<Rightarrow> bool \<Rightarrow> 'a paging_scheme \<Rightarrow> u32 \<Rightarrow> u32 res" where
  "mmu user write s va =
     (let pde = page_directory s ! unat (drop_bit 22 va)
      in if \<not> entry_ok user write pde then Inl PageFault
         else if bit pde 7 then Inr (frame_of 22 pde va)
         else let pte = table_entry s (push_bit 12 (drop_bit 12 pde)) (unat (take_bit 10 (drop_bit 12 va)))
              in if \<not> entry_ok user write pte then Inl PageFault else Inr (frame_of 12 pte va))"

definition linked :: "(symbol \<Rightarrow> u32) \<Rightarrow> bool" where
  "linked addr \<longleftrightarrow> take_bit 12 (addr Sym_page_table) = 0 \<and> take_bit 12 (addr Sym_vid_page_table) = 0 \<and>
     addr Sym_page_table \<noteq> addr Sym_vid_page_table \<and>
     drop_bit 22 (addr Sym_page_table) = 1 \<and> drop_bit 22 (addr Sym_vid_page_table) = 1"

definition tables_ok :: "'a paging_scheme \<Rightarrow> bool" where
  "tables_ok s \<longleftrightarrow> length (page_directory s) = 1024 \<and> length (page_table s) = 1024 \<and>
     length (vid_page_table s) = 1024 \<and> linked (sym s)"

section \<open>Memory accesses of the kernel\<close>

text \<open>
  Pointers hold virtual addresses; \<open>mem\<close> is physical memory. \<open>phys write s va n\<close> is where the
  \<open>n\<close> bytes from \<open>va\<close> on lie; a byte that is not mapped is a page fault (the handler never returns, so
  nothing of a partly done block operation is ever seen). \<open>vview\<close> is memory as the kernel sees it, with null bytes at
  unmapped addresses; \<open>vstrlen\<close> scans a string in it and faults when the scan ends at an unmapped byte.
\<close>

definition vread :: "'a paging_scheme \<Rightarrow> u32 \<Rightarrow> u8 res" where
  "vread s va = rbind (mmu False False s va) (\<lambda>pa. Inr (mem s pa))"

definition vwrite :: "u32 \<Rightarrow> u8 \<Rightarrow> 'a paging_scheme \<Rightarrow> 'a paging_scheme res" where
  "vwrite va b s = rbind (mmu False True s va) (\<lambda>pa. Inr (s\<lparr>mem := (mem s)(pa := b)\<rparr>))"

definition phys :: "bool \<Rightarrow> 'a paging_scheme \<Rightarrow> u32 \<Rightarrow> nat \<Rightarrow> u32 res" where
  "phys write s va n =
     (if n = 0 then Inr va
      else rbind (mmu False write s va) (\<lambda>pa.
        if list_all (\<lambda>i. mmu False write s (va + of_nat i) = Inr (pa + of_nat i)) [0..<n]
        then Inr pa else Inl PageFault))"

definition vmemcpy :: "u32 \<Rightarrow> u32 \<Rightarrow> nat \<Rightarrow> 'a paging_scheme \<Rightarrow> 'a paging_scheme res" where
  "vmemcpy dest src n s =
     rbind (phys True s dest n) (\<lambda>d. rbind (phys False s src n) (\<lambda>a. Inr (s\<lparr>mem := memcpy (mem s) d a n\<rparr>)))"

definition vmemset :: "u32 \<Rightarrow> u32 \<Rightarrow> nat \<Rightarrow> 'a paging_scheme \<Rightarrow> 'a paging_scheme res" where
  "vmemset dest c n s = rbind (phys True s dest n) (\<lambda>d. Inr (s\<lparr>mem := memset (mem s) d c n\<rparr>))"

text \<open>Copies between an object of the kernel and memory.\<close>

definition vstore :: "u32 \<Rightarrow> u8 list \<Rightarrow> 'a paging_scheme \<Rightarrow> 'a paging_scheme res" where
  "vstore dest xs s = rbind (phys True s dest (length xs)) (\<lambda>d. Inr (s\<lparr>mem := wr (mem s) d xs\<rparr>))"

definition vload :: "'a paging_scheme \<Rightarrow> u32 \<Rightarrow> nat \<Rightarrow> u8 list res" where
  "vload s src n = rbind (phys False s src n) (\<lambda>a. Inr (rd (mem s) a n))"

definition vview :: "'a paging_scheme \<Rightarrow> mem" where
  "vview s va = (case mmu False False s va of Inl _ \<Rightarrow> 0 | Inr pa \<Rightarrow> mem s pa)"

definition vmapped :: "'a paging_scheme \<Rightarrow> cptr \<Rightarrow> nat \<Rightarrow> bool" where
  "vmapped s p i = (case p of Ptr a \<Rightarrow> (case mmu False False s (a + of_nat i) of Inl _ \<Rightarrow> False | Inr _ \<Rightarrow> True) | _ \<Rightarrow> True)"

definition vstrlen :: "'a paging_scheme \<Rightarrow> cptr \<Rightarrow> nat res" where
  "vstrlen s p = rbind (strlen (vview s) p) (\<lambda>n. if vmapped s p n then Inr n else Inl PageFault)"

lemma mmu_cong:
  "page_directory s = page_directory t \<Longrightarrow> page_table s = page_table t \<Longrightarrow> vid_page_table s = vid_page_table t \<Longrightarrow>
   sym s = sym t \<Longrightarrow> mmu user write s va = mmu user write t va"
  by (simp add: mmu_def table_entry_def Let_def)

lemma phys_cong:
  "page_directory s = page_directory t \<Longrightarrow> page_table s = page_table t \<Longrightarrow> vid_page_table s = vid_page_table t \<Longrightarrow>
   sym s = sym t \<Longrightarrow> phys write s va n = phys write t va n"
  by (simp add: phys_def mmu_cong [of s t])

lemma mmu_mem [simp]: "mmu user write (s\<lparr>mem := m\<rparr>) va = mmu user write s va"
  by (simp add: mmu_def table_entry_def Let_def)

lemma phys_mem [simp]: "phys write (s\<lparr>mem := m\<rparr>) va n = phys write s va n"
  by (simp add: phys_def)

lemma phys_0 [simp]: "phys write s va 0 = Inr va"
  by (simp add: phys_def)

lemma phys_eq:
  "0 < n \<longrightarrow> (phys write s va n = Inr pa \<longleftrightarrow> (\<forall>i < n. mmu False write s (va + of_nat i) = Inr (pa + of_nat i)))"
proof
  assume n: "0 < n"
  have all: "list_all P [0..<n] \<longleftrightarrow> (\<forall>i < n. P i)" for P by (auto simp: list_all_iff)
  show "phys write s va n = Inr pa \<longleftrightarrow> (\<forall>i < n. mmu False write s (va + of_nat i) = Inr (pa + of_nat i))" (is "?l = ?r")
  proof
    assume ?l
    with n show ?r by (auto simp: phys_def all rbind_eq_Inr split: if_splits)
  next
    assume r: ?r
    then have "mmu False write s va = Inr pa" using n by fastforce
    with r n show ?l by (simp add: phys_def all)
  qed
qed

lemma phys_sub:
  assumes "phys write s va n = Inr pa" and "k + m \<le> n" and "0 < m"
  shows "phys write s (va + of_nat k) m = Inr (pa + of_nat k)"
proof -
  have "\<forall>i < n. mmu False write s (va + of_nat i) = Inr (pa + of_nat i)"
    using assms phys_eq [of n "write" s va pa] by simp
  then have "\<forall>i < m. mmu False write s (va + of_nat (k + i)) = Inr (pa + of_nat (k + i))"
    using assms(2) by (simp del: of_nat_add)
  then show ?thesis using phys_eq [of m "write" s "va + of_nat k" "pa + of_nat k"] assms(3)
    by (simp add: add.assoc)
qed

section \<open>Entries\<close>

lemma entry_ok_flags:
  assumes "take_bit 12 base = 0"
  shows "entry_ok user write (base OR 3) \<longleftrightarrow> \<not> user"
    "entry_ok user write (base OR 7)" "entry_ok user write (base OR 0x17)"
    "\<not> bit (base OR 3) 7" "\<not> bit (base OR 7) 7" "\<not> bit (base OR 0x17) 7"
    "push_bit 12 (drop_bit 12 (base OR 3)) = base" "push_bit 12 (drop_bit 12 (base OR 7)) = base"
    "push_bit 12 (drop_bit 12 (base OR 0x17)) = base"
proof -
  have b: "\<not> bit base n" if "n < 12" for n
    using assms that by (metis bit_take_bit_iff bit_0_eq bot_apply bot_bool_def)
  have d: "push_bit 12 (drop_bit 12 (base OR x)) = base" if "take_bit 12 x = (x :: u32)" for x
  proof (rule bit_word_eqI)
    fix n assume "n < LENGTH(32)"
    have "\<not> bit x n" if "12 \<le> n" using \<open>take_bit 12 x = x\<close> that
      by (metis bit_take_bit_iff not_le)
    then show "bit (push_bit 12 (drop_bit 12 (base OR x))) n = bit base n"
      using b [of n] \<open>n < LENGTH(32)\<close> by (cases "n < 12") (auto simp: bit_simps)
  qed
  show "entry_ok user write (base OR 3) \<longleftrightarrow> \<not> user"
    "entry_ok user write (base OR 7)" "entry_ok user write (base OR 0x17)"
    "\<not> bit (base OR 3) 7" "\<not> bit (base OR 7) 7" "\<not> bit (base OR 0x17) 7"
    by (simp_all add: entry_ok_def bit_or_iff b)
  show "push_bit 12 (drop_bit 12 (base OR 3)) = base" "push_bit 12 (drop_bit 12 (base OR 7)) = base"
    "push_bit 12 (drop_bit 12 (base OR 0x17)) = base"
    by (rule d; simp)+
qed

lemma take_drop_parts: "push_bit k (drop_bit k (va :: u32)) OR take_bit k va = va"
  by (rule bit_word_eqI) (auto simp: bit_simps)

lemma frame_of_same: "drop_bit k e = drop_bit k (va :: u32) \<Longrightarrow> frame_of k e va = va"
  by (simp add: frame_of_def take_drop_parts)

lemma nat_div_eq:
  assumes "0 < (m :: nat)"
  shows "n div m = k \<longleftrightarrow> k * m \<le> n \<and> n < Suc k * m"
proof -
  have "n div m = k \<longleftrightarrow> k \<le> n div m \<and> n div m < Suc k" by auto
  then show ?thesis using assms by (simp only: less_eq_div_iff_mult_less_eq div_less_iff_less_mult)
qed

lemma drop_bit_22_eq: "unat (drop_bit 22 (va :: u32)) = unat va div 0x400000"
  unfolding unsigned_drop_bit_eq by (simp add: drop_bit_eq_div take_bit_nat_eq_self)

lemma drop_bit_12_eq: "unat (drop_bit 12 (va :: u32)) = unat va div 4096"
  unfolding unsigned_drop_bit_eq by (simp add: drop_bit_eq_div take_bit_nat_eq_self)

lemma pt_index: "unat (take_bit 10 (drop_bit 12 (va :: u32))) = unat va div 4096 mod 1024"
  unfolding unsigned_take_bit_eq drop_bit_12_eq by (simp add: take_bit_eq_mod)

lemma pd_index_bound [simp]: "unat (va :: u32) div 0x400000 < 1024"
  using unat_u32_bound [of va] by (simp add: div_less_iff_less_mult)

lemma unat_take_22: "unat (take_bit 22 (x :: u32)) = unat x mod 0x400000"
  unfolding unsigned_take_bit_eq by (simp add: take_bit_eq_mod)

lemma unat_split_22: "unat (x :: u32) = 0x400000 * unat (drop_bit 22 x) + unat (take_bit 22 x)"
  unfolding drop_bit_22_eq unat_take_22 by simp

lemma frame_parts:
  "drop_bit k (frame_of k e va) = drop_bit k e" "take_bit k (frame_of k e va) = take_bit k va"
  by (rule bit_word_eqI; auto simp: frame_of_def bit_simps dest: bit_imp_le_length)+

lemma frame_of_22:
  assumes "drop_bit 22 e = of_nat k" and "k < 1024"
  shows "unat (frame_of 22 e va) = 0x400000 * k + unat va mod 0x400000"
proof -
  have "unat (frame_of 22 e va) = 0x400000 * unat (drop_bit 22 e) + unat (take_bit 22 va)"
    using unat_split_22 [of "frame_of 22 e va"] by (simp add: frame_parts)
  then show ?thesis using assms by (simp add: unat_take_22)
qed

section \<open>paging\_setup\<close>

lemma paging_loop:
  fixes s :: "'a paging_scheme"
  defines "t n \<equiv> fold (\<lambda>i s. s\<lparr>page_table := (page_table s)[i := BLANK],
      page_directory := (page_directory s)[i := BLANK]\<rparr>) [0..<n] s"
  shows "t n = s\<lparr>page_table := replicate (min n (length (page_table s))) BLANK @ drop n (page_table s),
      page_directory := replicate (min n (length (page_directory s))) BLANK @ drop n (page_directory s)\<rparr>"
proof (induction n)
  case 0
  show ?case by (simp add: t_def)
next
  case (Suc n)
  have upd: "(replicate (min n (length xs)) x @ drop n xs)[n := x] =
      replicate (min (Suc n) (length xs)) x @ drop (Suc n) xs" for x :: u32 and xs
    by (cases "n < length xs")
      (simp_all add: list_update_append list_update_beyond min_def replicate_append_same Cons_nth_drop_Suc [symmetric] flip: replicate_Suc)
  have "t (Suc n) = (t n)\<lparr>page_table := (page_table (t n))[n := BLANK],
      page_directory := (page_directory (t n))[n := BLANK]\<rparr>"
    by (simp add: t_def)
  then show ?case by (simp only: Suc upd) (simp add: upd)
qed

lemma paging_setup_tables:
  assumes "tables_ok s"
  shows "page_directory (paging_setup s) =
      (replicate 1024 BLANK)[0 := sym s Sym_page_table OR 3, 1 := 0x400083]"
    and "page_table (paging_setup s) = (replicate 1024 BLANK)[0xB8 := 0xB8003]"
    and "vid_page_table (paging_setup s) = vid_page_table s"
    and "sym (paging_setup s) = sym s"
  using assms
  by (simp_all add: paging_setup_def paging_loop tables_ok_def linked_def Let_def load_cr3_def list_update_swap)

lemma blank_not_ok: "\<not> entry_ok user write 2"
  by (simp add: entry_ok_def)

lemma drop_bit_eqI: "unat (drop_bit k x) = unat (drop_bit k y) \<Longrightarrow> drop_bit k x = drop_bit k (y :: u32)"
  by (rule unsigned_word_eqI)

lemma kernel_page_entry:
  "entry_ok user write 0x400083 \<longleftrightarrow> \<not> user" "bit (0x400083 :: u32) 7"
  "unat va div 0x400000 = 1 \<Longrightarrow> frame_of 22 0x400083 va = va"
proof -
  show "entry_ok user write 0x400083 \<longleftrightarrow> \<not> user" "bit (0x400083 :: u32) 7"
    by (simp_all add: entry_ok_def)
  show "frame_of 22 0x400083 va = va" if "unat va div 0x400000 = 1"
    by (rule frame_of_same, rule drop_bit_eqI, unfold drop_bit_22_eq) (simp add: that)
qed

lemma video_page_entry:
  "entry_ok user write 0xB8003 \<longleftrightarrow> \<not> user"
  "unat va div 4096 = 0xB8 \<Longrightarrow> frame_of 12 0xB8003 va = va"
proof -
  show "entry_ok user write 0xB8003 \<longleftrightarrow> \<not> user" by (simp add: entry_ok_def)
  show "frame_of 12 0xB8003 va = va" if "unat va div 4096 = 0xB8"
    by (rule frame_of_same, rule drop_bit_eqI, unfold drop_bit_12_eq) (simp add: that)
qed

lemma low_page_index: "n div 0x400000 = 0 \<Longrightarrow> n div 4096 mod 1024 = n div (4096 :: nat)"
  by (simp add: div_eq_0_iff)

lemma mmu_paging_setup:
  assumes "tables_ok s"
  shows "mmu user write (paging_setup s) va =
    (if \<not> user \<and> (unat va div 4096 = 0xB8 \<or> unat va div 0x400000 = 1) then Inr va else Inl PageFault)"
proof -
  note tabs = paging_setup_tables [OF assms]
  have al: "take_bit 12 (sym s Sym_page_table) = 0" using assms by (simp add: tables_ok_def linked_def)
  let ?i = "unat va div 0x400000"
  have dir: "page_directory (paging_setup s) ! ?i =
      (if ?i = 0 then sym s Sym_page_table OR 3 else if ?i = 1 then 0x400083 else 2)"
    by (simp add: tabs nth_list_update)
  consider "?i = 0" | "?i = 1" | "?i \<noteq> 0" "?i \<noteq> 1" by blast
  then show ?thesis
  proof cases
    case 1
    have "table_entry (paging_setup s) (sym s Sym_page_table) (unat va div 4096) =
        (if unat va div 4096 = 0xB8 then 0xB8003 else 2)"
      using 1 by (simp add: table_entry_def tabs nth_list_update div_eq_0_iff div_less_iff_less_mult)
    then show ?thesis
      using 1 dir entry_ok_flags [OF al] video_page_entry blank_not_ok
      by (cases "unat va div 4096 = 0xB8") (simp_all add: mmu_def drop_bit_22_eq pt_index low_page_index Let_def)
  next
    case 2
    then show ?thesis using dir kernel_page_entry by (simp add: mmu_def drop_bit_22_eq)
  next
    case 3
    have "unat va div 4096 \<noteq> 0xB8"
    proof
      assume "unat va div 4096 = 0xB8"
      then have "unat va div 4096 div 1024 = 0" by simp
      with 3 show False by (simp add: div_mult2_eq [symmetric])
    qed
    with 3 dir blank_not_ok show ?thesis by (simp add: mmu_def drop_bit_22_eq)
  qed
qed

text \<open>The kernel page is mapped to itself.\<close>

definition kernel_mapped :: "'a paging_scheme \<Rightarrow> bool" where
  "kernel_mapped s \<longleftrightarrow> (\<forall>va write. unat va div 0x400000 = 1 \<longrightarrow> mmu False write s va = Inr va)"

lemma kernel_mapped_setup: "tables_ok s \<Longrightarrow> kernel_mapped (paging_setup s)"
  by (simp add: kernel_mapped_def mmu_paging_setup)

lemma kernel_mapped_cong:
  "page_directory s = page_directory t \<Longrightarrow> page_table s = page_table t \<Longrightarrow> vid_page_table s = vid_page_table t \<Longrightarrow>
   sym s = sym t \<Longrightarrow> kernel_mapped t \<Longrightarrow> kernel_mapped s"
  unfolding kernel_mapped_def using mmu_cong [of s t] by simp

lemma phys_kernel:
  assumes "kernel_mapped s" and "0x400000 \<le> unat va" and "unat va + n \<le> 0x800000"
  shows "phys write s va n = Inr va"
proof (cases "n = 0")
  case False
  have "mmu False write s (va + of_nat i) = Inr (va + of_nat i)" if "i < n" for i
  proof -
    have "unat (va + of_nat i) = unat va + i" using assms that by (intro u32_less_add_eq) simp
    then have "unat (va + of_nat i) div 0x400000 = 1" using assms that by (simp add: nat_div_eq)
    then show ?thesis using assms(1) by (simp add: kernel_mapped_def)
  qed
  then show ?thesis using False phys_eq [of n "write" s va va] by simp
qed simp

section \<open>Program and video pages\<close>

lemma mmu_other_directory_entry:
  assumes "length (page_directory s) = 1024" "unat va div 0x400000 \<noteq> i"
  shows "mmu user write (s\<lparr>page_directory := (page_directory s)[i := e]\<rparr>) va = mmu user write s va"
  using assms by (simp add: mmu_def drop_bit_22_eq Let_def table_entry_def)

lemma set_up_program_paging_eq:
  assumes "0 \<le> n" "n < 510"
  shows "set_up_program_paging n s =
    Inr (s\<lparr>page_directory := (page_directory s)[32 := push_bit 22 (of_nat (nat n + 1)) OR 0x87]\<rparr>)"
proof -
  have "(word_of_int (0x400000 + n * 0x400000) :: u32) = word_of_int (0x400000 * int (nat n + 1))"
    using assms(1) by (simp add: algebra_simps)
  also have "\<dots> = push_bit 22 (of_nat (nat n + 1))" by (simp add: push_bit_eq_mult algebra_simps)
  finally show ?thesis
    using assms by (simp add: set_up_program_paging_def int32_def Let_def)
qed

lemma program_entry:
  assumes "k < 1024"
  shows "entry_ok user write (push_bit 22 (of_nat k) OR 0x87)" "bit (push_bit 22 (of_nat k) OR 0x87 :: u32) 7"
    "drop_bit 22 (push_bit 22 (of_nat k) OR 0x87 :: u32) = of_nat k"
proof -
  show "entry_ok user write (push_bit 22 (of_nat k) OR 0x87)" "bit (push_bit 22 (of_nat k) OR 0x87 :: u32) 7"
    by (simp_all add: entry_ok_def bit_or_iff bit_push_bit_iff)
  have "take_bit 10 (of_nat k :: u32) = of_nat k"
    using assms by (simp add: take_bit_of_nat take_bit_nat_eq_self)
  moreover have "drop_bit 22 (push_bit 22 x OR 0x87 :: u32) = take_bit 10 x" for x
    by (rule bit_word_eqI) (auto simp: bit_simps bit_numeral_iff)
  ultimately show "drop_bit 22 (push_bit 22 (of_nat k) OR 0x87 :: u32) = of_nat k" by simp
qed

lemma mmu_program:
  assumes "length (page_directory s) = 1024" "0 \<le> n" "n < 510" "set_up_program_paging n s = Inr s'"
    and "unat va div 0x400000 = 32"
  shows "\<exists>pa. mmu user write s' va = Inr pa \<and> unat pa = 0x400000 * (nat n + 1) + unat va mod 0x400000"
proof -
  define e :: u32 where "e = push_bit 22 (of_nat (nat n + 1)) OR 0x87"
  have k: "nat n + 1 < 1024" using assms by simp
  have "s' = s\<lparr>page_directory := (page_directory s)[32 := e]\<rparr>"
    using assms set_up_program_paging_eq [of n s] by (simp add: e_def)
  then have "mmu user write s' va = Inr (frame_of 22 e va)"
    using assms program_entry(1,2) [OF k, folded e_def] by (simp add: mmu_def drop_bit_22_eq Let_def)
  then show ?thesis using frame_of_22 [OF program_entry(3) [OF k] k, of va] by (simp add: e_def)
qed

lemma vidmap_loop:
  "length (vid_page_table s) = n \<Longrightarrow>
   fold (\<lambda>i s. s\<lparr>vid_page_table := (vid_page_table s)[i := BLANK]\<rparr>) [0..<n] s =
     s\<lparr>vid_page_table := replicate n BLANK\<rparr>"
proof -
  have "k \<le> length (vid_page_table s) \<Longrightarrow>
    fold (\<lambda>i s. s\<lparr>vid_page_table := (vid_page_table s)[i := BLANK]\<rparr>) [0..<k] s =
      s\<lparr>vid_page_table := replicate k BLANK @ drop k (vid_page_table s)\<rparr>" for k
  proof (induction k)
    case 0
    show ?case by simp
  next
    case (Suc k)
    then have "drop k (vid_page_table s) = vid_page_table s ! k # drop (Suc k) (vid_page_table s)"
      by (simp add: Cons_nth_drop_Suc)
    with Suc show ?case
      by (simp add: list_update_append replicate_append_same flip: replicate_Suc)
  qed
  then show "length (vid_page_table s) = n \<Longrightarrow> ?thesis" by simp
qed

lemma vidmap_helper_tables:
  assumes "length (vid_page_table s) = 1024"
  shows "vidmap_helper s = (VID_MEM_INIT, s\<lparr>
    vid_page_table := (replicate 1024 BLANK)[0 := 0xB8017],
    page_directory := (page_directory s)[34 := sym s Sym_vid_page_table OR 0x17],
    cr3 := sym s Sym_page_directory\<rparr>)"
  using vidmap_loop [OF assms] by (simp add: vidmap_helper_def Let_def load_cr3_def)

lemma vid_entry:
  "entry_ok user write 0xB8017"
  "unat va div 4096 mod 1024 = 0 \<Longrightarrow> unat (frame_of 12 0xB8017 va) = 0xB8000 + unat va mod 4096"
proof -
  show "entry_ok user write 0xB8017" by (simp add: entry_ok_def)
  have split: "unat x = 4096 * unat (drop_bit 12 x) + unat (take_bit 12 x)" for x :: u32
    unfolding drop_bit_12_eq unsigned_take_bit_eq by (simp add: take_bit_eq_mod)
  have "unat (take_bit 12 va) = unat va mod 4096"
    unfolding unsigned_take_bit_eq by (simp add: take_bit_eq_mod)
  then show "unat (frame_of 12 0xB8017 va) = 0xB8000 + unat va mod 4096"
    using split [of "frame_of 12 0xB8017 va"] unfolding frame_parts by simp
qed

lemma mmu_vidmap:
  assumes "tables_ok s" "vidmap_helper s = (va0, s')" "unat va div 0x400000 = 34"
  shows "unat va div 4096 mod 1024 = 0 \<Longrightarrow>
      \<exists>pa. mmu user write s' va = Inr pa \<and> unat pa = 0xB8000 + unat va mod 4096"
    and "unat va div 4096 mod 1024 \<noteq> 0 \<Longrightarrow> mmu user write s' va = Inl PageFault"
proof -
  define e where "e = sym s Sym_vid_page_table OR 0x17"
  have al: "take_bit 12 (sym s Sym_vid_page_table) = 0" using assms by (simp add: tables_ok_def linked_def)
  have ne: "sym s Sym_vid_page_table \<noteq> sym s Sym_page_table" using assms by (auto simp: tables_ok_def linked_def)
  have s': "s' = s\<lparr>vid_page_table := (replicate 1024 BLANK)[0 := 0xB8017],
      page_directory := (page_directory s)[34 := e], cr3 := sym s Sym_page_directory\<rparr>"
    using assms(1,2) vidmap_helper_tables [of s] by (simp add: tables_ok_def e_def)
  have e: "entry_ok user write e" "\<not> bit e 7" "push_bit 12 (drop_bit 12 e) = sym s Sym_vid_page_table"
    unfolding e_def using entry_ok_flags [OF al] by simp_all
  define i where "i = unat va div 4096 mod 1024"
  have "i < 1024" by (simp add: i_def)
  then have pte: "table_entry s' (sym s Sym_vid_page_table) i = (if i = 0 then 0xB8017 else 2)"
    using ne by (simp add: table_entry_def s' nth_list_update)
  have dir: "page_directory s' ! 34 = e" using assms(1) by (simp add: s' tables_ok_def)
  have "mmu user write s' va =
      (if i = 0 then Inr (frame_of 12 0xB8017 va) else Inl PageFault)"
    unfolding mmu_def drop_bit_22_eq pt_index i_def [symmetric] assms(3) Let_def dir
    using e pte vid_entry(1) blank_not_ok by (cases "i = 0") simp_all
  then show "unat va div 4096 mod 1024 = 0 \<Longrightarrow>
      \<exists>pa. mmu user write s' va = Inr pa \<and> unat pa = 0xB8000 + unat va mod 4096"
    and "unat va div 4096 mod 1024 \<noteq> 0 \<Longrightarrow> mmu user write s' va = Inl PageFault"
    using vid_entry(2) [of va] by (auto simp: i_def)
qed

lemma tables_ok_kept:
  "tables_ok s \<Longrightarrow> tables_ok (paging_setup s)"
  "tables_ok s \<Longrightarrow> set_up_program_paging n s = Inr s' \<Longrightarrow> tables_ok s'"
  "tables_ok s \<Longrightarrow> tables_ok (snd (vidmap_helper s))"
  "tables_ok s \<Longrightarrow> tables_ok (map_term f g a s)"
  "tables_ok s \<Longrightarrow> remap_terminal_schedule va pa s = Inr s' \<Longrightarrow> tables_ok s'"
proof -
  show "tables_ok s \<Longrightarrow> tables_ok (paging_setup s)"
    using paging_setup_tables [of s] by (simp add: tables_ok_def)
  show "tables_ok s \<Longrightarrow> tables_ok (snd (vidmap_helper s))"
    by (simp add: tables_ok_def vidmap_helper_tables)
qed (auto simp: tables_ok_def set_up_program_paging_def map_term_def remap_terminal_schedule_def
      load_cr3_def Let_def rbind_eq_Inr split: if_splits)

section \<open>Properties\<close>

text \<open>
  Property C23: \<^verbatim>\<open>paging_setup\<close> gives the kernel exactly the address space it means to: 4 to 8 MB and the
  text page at \<open>0xB8000\<close> are mapped to themselves, every other address (page 0, hence null pointers, included)
  faults, and user level can access nothing; paging and 4 MB pages are switched on.
\<close>

theorem paging_setup_address_space:
  assumes "tables_ok s"
  shows "mmu user write (paging_setup s) va =
      (if \<not> user \<and> (0xB8000 \<le> va \<and> va < 0xB9000 \<or> 0x400000 \<le> va \<and> va < 0x800000)
       then Inr va else Inl PageFault) \<and>
    bit (cr0 (paging_setup s)) 31 \<and> bit (cr4 (paging_setup s)) 4 \<and>
    cr3 (paging_setup s) = sym s Sym_page_directory"
proof -
  have "unat va div 4096 = 0xB8 \<longleftrightarrow> 0xB8000 \<le> va \<and> va < 0xB9000"
    unfolding word_le_nat_alt word_less_nat_alt by (simp add: nat_div_eq)
  moreover have "unat va div 0x400000 = 1 \<longleftrightarrow> 0x400000 \<le> va \<and> va < 0x800000"
    unfolding word_le_nat_alt word_less_nat_alt by (simp add: nat_div_eq)
  moreover have "bit (cr0 (paging_setup s)) 31 \<and> bit (cr4 (paging_setup s)) 4 \<and>
    cr3 (paging_setup s) = sym s Sym_page_directory"
    by (simp add: paging_setup_def paging_loop Let_def load_cr3_def bit_or_iff)
  ultimately show ?thesis using mmu_paging_setup [OF assms] by simp
qed

text \<open>A machine state with linked, blank tables, in which the witnesses run.\<close>

definition reset_paging :: paging where
  "reset_paging = \<lparr>mem = \<lambda>_. 0, io_log = [], device = \<lambda>_ _. 0,
     sym = \<lambda>f. if f = Sym_page_table then 0x402000 else if f = Sym_vid_page_table then 0x403000 else 0x401000,
     iflag = False, master_mask = 0xff, slave_mask = 0xff, addr_reg = 0, screen_x = 0, screen_y = 0,
     idt = [], page_directory = replicate 1024 0, page_table = replicate 1024 0,
     vid_page_table = replicate 1024 0, cr0 = 1, cr3 = 0, cr4 = 0\<rparr>"

lemma reset_tables_ok: "tables_ok reset_paging"
  by (simp add: tables_ok_def linked_def reset_paging_def)

lemma kernel_tables:
  "page_directory (paging_setup reset_paging) = (replicate 1024 2)[0 := 0x402003, 1 := 0x400083]"
  "page_table (paging_setup reset_paging) = (replicate 1024 2)[0xB8 := 0xB8003]"
  "vid_page_table (paging_setup reset_paging) = replicate 1024 0"
  "sym (paging_setup reset_paging) =
     (\<lambda>f. if f = Sym_page_table then 0x402000 else if f = Sym_vid_page_table then 0x403000 else 0x401000)"
  using paging_setup_tables [OF reset_tables_ok] by (simp_all add: reset_paging_def)

theorem paging_setup_address_space_witness:
  "mmu False True (paging_setup reset_paging) 0xB8F00 = Inr 0xB8F00 \<and>
   mmu False True (paging_setup reset_paging) 0 = Inl PageFault"
  using paging_setup_address_space [OF reset_tables_ok] by simp

text \<open>
  Property C24: \<^verbatim>\<open>set_up_program_paging\<close> for process number \<open>n\<close> maps the 4 MB from 128 MB on, open to user
  level, to the physical 4 MB frame \<open>n + 1\<close>, and leaves the translation of every other address as it was.
\<close>

theorem program_page_mapping:
  assumes "tables_ok s" and "0 \<le> n" and "n < 510"
  shows "\<exists>s'. set_up_program_paging n s = Inr s' \<and> tables_ok s' \<and>
    (\<forall>va. unat va div 0x400000 = 32 \<longrightarrow>
       (\<exists>pa. mmu user write s' va = Inr pa \<and>
          unat pa = 0x400000 * (nat n + 1) + (unat va - 0x8000000))) \<and>
    (\<forall>va. unat va div 0x400000 \<noteq> 32 \<longrightarrow> mmu user write s' va = mmu user write s va)"
proof -
  obtain s' where s': "set_up_program_paging n s = Inr s'"
    using assms by (simp add: set_up_program_paging_eq)
  have len: "length (page_directory s) = 1024" using assms(1) by (simp add: tables_ok_def)
  have "unat va mod 0x400000 = unat va - 0x8000000" if "unat va div 0x400000 = 32" for va :: u32
    using that minus_div_mult_eq_mod [of "unat va" "0x400000"] by simp
  moreover have "mmu user write s' va = mmu user write s va" if "unat va div 0x400000 \<noteq> 32" for va
  proof -
    have "s' = s\<lparr>page_directory := (page_directory s)[32 := push_bit 22 (of_nat (nat n + 1)) OR 0x87]\<rparr>"
      using s' assms set_up_program_paging_eq [of n s] by simp
    then show ?thesis by (simp add: mmu_other_directory_entry [OF len that])
  qed
  ultimately show ?thesis
    using s' mmu_program [OF len assms(2,3) s'] tables_ok_kept(2) [OF assms(1) s'] by auto
qed

theorem program_page_mapping_witness:
  "\<exists>s' pa. set_up_program_paging 1 reset_paging = Inr s' \<and>
     mmu True True s' 0x8048000 = Inr pa \<and> unat pa = 0x848000"
proof -
  obtain s' where "set_up_program_paging 1 reset_paging = Inr s'"
    and m: "\<And>va. unat va div 0x400000 = 32 \<longrightarrow> (\<exists>pa. mmu True True s' va = Inr pa \<and>
          unat pa = 0x400000 * (nat 1 + 1) + (unat va - 0x8000000))"
    using program_page_mapping [OF reset_tables_ok, of 1 True True] by auto
  then show ?thesis using m [of "0x8048000"] by auto
qed

text \<open>
  Property C25: the pages of two processes never share a physical byte; process number 0, however, is
  given frame 1, the 4 MB the kernel itself runs in: its user-level page and the kernel page are the same memory.
\<close>

theorem program_frames:
  assumes "tables_ok s" and "0 \<le> n" and "n < 510" and "0 \<le> m" and "m < 510"
    and "set_up_program_paging n (paging_setup s) = Inr sn" and "set_up_program_paging m (paging_setup s) = Inr sm"
    and "unat va div 0x400000 = 32" and "unat vb div 0x400000 = 32"
  shows "(n \<noteq> m \<longrightarrow> mmu True True sn va \<noteq> mmu True True sm vb) \<and>
    (n = 0 \<longrightarrow> mmu True True sn va = mmu False True (paging_setup s) (va - 0x7C00000))"
proof -
  have len: "length (page_directory (paging_setup s)) = 1024"
    using tables_ok_kept(1) [OF assms(1)] by (simp add: tables_ok_def)
  obtain pa where pa: "mmu True True sn va = Inr pa" "unat pa = 0x400000 * (nat n + 1) + unat va mod 0x400000"
    using mmu_program [OF len assms(2,3,6,8)] by blast
  obtain pb where pb: "mmu True True sm vb = Inr pb" "unat pb = 0x400000 * (nat m + 1) + unat vb mod 0x400000"
    using mmu_program [OF len assms(4,5,7,9)] by blast
  have "unat pa div 0x400000 = nat n + 1" "unat pb div 0x400000 = nat m + 1" by (simp_all add: pa pb)
  then have "n \<noteq> m \<longrightarrow> pa \<noteq> pb" using assms(2,4) by auto
  moreover have "n = 0 \<longrightarrow> mmu False True (paging_setup s) (va - 0x7C00000) = Inr pa"
  proof
    assume n: "n = 0"
    have ge: "0x8000000 \<le> unat va" using assms(8) by (simp add: nat_div_eq)
    then have sub: "unat (va - 0x7C00000) = unat va - 0x7C00000"
      by (subst unat_sub) (simp_all add: word_le_nat_alt)
    have "unat va mod 0x400000 = unat va - 0x8000000"
      using assms(8) minus_div_mult_eq_mod [of "unat va" "0x400000"] by simp
    then have "va - 0x7C00000 = pa" using n pa(2) sub ge by (simp add: word_unat_eq_iff)
    moreover have "unat (va - 0x7C00000) div 0x400000 = 1"
      using assms(8) sub by (simp add: nat_div_eq) linarith
    ultimately show "mmu False True (paging_setup s) (va - 0x7C00000) = Inr pa"
      using mmu_paging_setup [OF assms(1)] by simp
  qed
  ultimately show ?thesis using pa(1) pb(1) by simp
qed

theorem program_frames_witness:
  "\<exists>s0. set_up_program_paging 0 (paging_setup reset_paging) = Inr s0 \<and>
     mmu True True s0 0x8000010 = mmu False True (paging_setup reset_paging) 0x400010"
proof -
  obtain s0 where s0: "set_up_program_paging 0 (paging_setup reset_paging) = Inr s0"
    by (simp add: set_up_program_paging_eq)
  have "mmu True True s0 0x8000010 = mmu False True (paging_setup reset_paging) (0x8000010 - 0x7C00000)"
    using program_frames [OF reset_tables_ok _ _ _ _ s0 s0, of "0x8000010" "0x8000010"] by simp
  with s0 show ?thesis by auto
qed

text \<open>
  \<^verbatim>\<open>vidmap_helper\<close> returns \<open>0x8800000\<close> and maps exactly that 4 KB page, open to user level, to
  the text screen; the rest of its 4 MB region faults and no other translation that goes through the
  directory changes.
\<close>

lemma vidmap_page_mapping:
  assumes "tables_ok s"
  shows "\<exists>s'. vidmap_helper s = (0x8800000, s') \<and>
    (\<forall>off < 0x400000. if off < 4096 then \<exists>pa. mmu user write s' (0x8800000 + of_nat off) = Inr pa \<and> unat pa = 0xB8000 + off
       else mmu user write s' (0x8800000 + of_nat off) = Inl PageFault) \<and>
    (\<forall>i < 1024. i \<noteq> 34 \<longrightarrow> page_directory s' ! i = page_directory s ! i)"
proof -
  have len: "length (vid_page_table s) = 1024" using assms by (simp add: tables_ok_def)
  obtain s' where s': "vidmap_helper s = (0x8800000, s')"
    using vidmap_helper_tables [OF len] by simp
  have idx: "unat (0x8800000 + of_nat off :: u32) = 0x8800000 + off" if "off < 0x400000" for off
    using u32_less_add_eq [of "0x8800000" off] that by simp
  have "if off < 4096 then \<exists>pa. mmu user write s' (0x8800000 + of_nat off) = Inr pa \<and> unat pa = 0xB8000 + off
       else mmu user write s' (0x8800000 + of_nat off) = Inl PageFault" if off: "off < 0x400000" for off
  proof -
    let ?va = "0x8800000 + of_nat off :: u32"
    have "unat ?va div 0x400000 = 34" using idx [OF off] off by (simp add: nat_div_eq)
    note m = mmu_vidmap [OF assms s' this, of user "write"]
    have "unat ?va div 4096 = 0x8800 + off div 4096" using idx [OF off] by simp
    moreover have "(0x8800 + off div 4096) mod 1024 = off div 4096"
      using off by (simp add: mod_add_left_eq [symmetric, of "0x8800"] div_less_iff_less_mult)
    ultimately have "unat ?va div 4096 mod 1024 = off div 4096" by simp
    moreover have "unat ?va mod 4096 = off mod 4096" using idx [OF off] by (simp add: mod_add_left_eq [symmetric, of "0x8800000"])
    ultimately show ?thesis using m by (auto simp: div_eq_0_iff)
  qed
  moreover have "\<forall>i < 1024. i \<noteq> 34 \<longrightarrow> page_directory s' ! i = page_directory s ! i"
    using s' vidmap_helper_tables [OF len] by auto
  ultimately show ?thesis using s' by blast
qed

lemma vidmap_page_mapping_witness:
  "\<exists>s' pa. vidmap_helper reset_paging = (0x8800000, s') \<and> mmu True True s' 0x8800F9E = Inr pa \<and> unat pa = 0xB8F9E"
proof -
  obtain s' where s': "vidmap_helper reset_paging = (0x8800000, s')"
    and m: "\<forall>off < 0x400000. if off < 4096
      then \<exists>pa. mmu True True s' (0x8800000 + of_nat off) = Inr pa \<and> unat pa = 0xB8000 + off
      else mmu True True s' (0x8800000 + of_nat off) = Inl PageFault"
    using vidmap_page_mapping [OF reset_tables_ok, of True True] by blast
  from m [rule_format, of "0xF9E"] show ?thesis using s' by auto
qed

end
