(* ===== verification/Rtc.thy ===== *)
theory Rtc
  imports Paging
begin

text \<open>
  The real-time clock driver, \<^verbatim>\<open>rtc.c\<close>, and \<^verbatim>\<open>test_interrupts\<close> of \<^verbatim>\<open>lib.c\<close>. \<^verbatim>\<open>rtc_read\<close> waits for
  \<^verbatim>\<open>next_interrupt\<close>; the interrupts that arrive while it waits are its argument. \<^verbatim>\<open>rtc_close\<close> calls the
  system call \<^verbatim>\<open>close\<close> and stands with it in the theory \<open>Process\<close>.
\<close>

section \<open>Definitions\<close>

abbreviation (input) RTC_ADDR_PORT :: u16 where "RTC_ADDR_PORT \<equiv> 0x70"
abbreviation (input) RTC_DATA_PORT :: u16 where "RTC_DATA_PORT \<equiv> 0x71"
abbreviation (input) STATUS_REG_A :: u8 where "STATUS_REG_A \<equiv> 0x8A"
abbreviation (input) STATUS_REG_B :: u8 where "STATUS_REG_B \<equiv> 0x8B"
abbreviation (input) STATUS_REG_C :: u8 where "STATUS_REG_C \<equiv> 0x0C"
abbreviation (input) PERIODIC_INTERRUPT_MASK :: u8 where "PERIODIC_INTERRUPT_MASK \<equiv> 0x40"
abbreviation (input) RATE_MASK :: u8 where "RATE_MASK \<equiv> 0xF0"
abbreviation (input) RATE :: u8 where "RATE \<equiv> 15"
abbreviation (input) FISH_RATE :: u8 where "FISH_RATE \<equiv> 11"

record rtc = paging +
  next_interrupt :: int

definition rtc_init :: "u32 \<Rightarrow> 'a rtc_scheme \<Rightarrow> 'a rtc_scheme res" where
  "rtc_init irq_num s =
     (let s = cli s;
          s = s\<lparr>next_interrupt := 0\<rparr>;
          s = outb STATUS_REG_B RTC_ADDR_PORT s;
          (prev, s) = inb RTC_DATA_PORT s;
          s = outb STATUS_REG_B RTC_ADDR_PORT s;
          s = outb (prev OR PERIODIC_INTERRUPT_MASK) RTC_DATA_PORT s
      in rbind (insert_idt (sym s Sym_rtc_wrapper) irq_num s) (\<lambda>(_, s).
           let s = enable_irq irq_num s in Inr (sti s)))"

definition rtc_handler :: "'a rtc_scheme \<Rightarrow> 'a rtc_scheme" where
  "rtc_handler s =
     (let s = cli s;
          s = s\<lparr>next_interrupt := 1\<rparr>;
          s = outb STATUS_REG_C RTC_ADDR_PORT s;
          (_, s) = inb RTC_DATA_PORT s;
          s = send_eoi 8 s
      in sti s)"

text \<open>
  \<^verbatim>\<open>rtc_write\<close> on the byte \<^verbatim>\<open>buf\<close> points to: the return value, the byte left there, and the state. A shift
  distance outside 0 to 31 is undefined.
\<close>

definition rtc_write_byte :: "u8 \<Rightarrow> 'a rtc_scheme \<Rightarrow> (int \<times> u8 \<times> 'a rtc_scheme) res" where
  "rtc_write_byte b s =
     (let d = uint b - 1
      in if d < 0 \<or> 32 \<le> d then Inl UndefinedArith
         else let freq = (drop_bit (nat d) 32768 :: u32);
                  b = (if freq < 2 then FISH_RATE else RATE)
              in if freq AND (freq - 1) \<noteq> 0 then Inr (-1, b, s)
                 else let s = cli s;
                          s = outb STATUS_REG_A RTC_ADDR_PORT s;
                          (prev, s) = inb RTC_DATA_PORT s;
                          s = outb STATUS_REG_A RTC_ADDR_PORT s;
                          s = outb ((prev AND RATE_MASK) OR b) RTC_DATA_PORT s;
                          s = send_eoi 8 s
                      in Inr (0, b, sti s))"

definition rtc_write :: "int \<Rightarrow> u32 \<Rightarrow> int \<Rightarrow> 'a rtc_scheme \<Rightarrow> (int \<times> 'a rtc_scheme) res" where
  "rtc_write fd buf nbytes s =
     rbind (vread s buf) (\<lambda>b.
     rbind (rtc_write_byte b s) (\<lambda>(r, b, s).
     rbind (vwrite buf b s) (\<lambda>s. Inr (r, s))))"

definition rtc_open :: "cptr \<Rightarrow> 'a rtc_scheme \<Rightarrow> (int \<times> 'a rtc_scheme) res" where
  "rtc_open filename s =
     rbind (rtc_init 8 s) (\<lambda>s.
     rbind (rtc_write_byte RATE s) (\<lambda>(_, _, s). Inr (0, s)))"

definition rtc_read :: "('a rtc_scheme \<Rightarrow> 'a rtc_scheme res) list \<Rightarrow> int \<Rightarrow> u32 \<Rightarrow> int
    \<Rightarrow> 'a rtc_scheme \<Rightarrow> (int \<times> 'a rtc_scheme) res" where
  "rtc_read interrupts fd buf nbytes s =
     (let s = s\<lparr>next_interrupt := 0\<rparr>
      in rbind (spin_until (\<lambda>s. next_interrupt s \<noteq> 0) interrupts s) (\<lambda>s. Inr (0, s)))"

fun test_interrupts_loop :: "nat \<Rightarrow> mem \<Rightarrow> mem" where
  "test_interrupts_loop 0 m = m"
| "test_interrupts_loop (Suc i) m =
     (let m = test_interrupts_loop i m in m(cell_addr (int i) := m (cell_addr (int i)) + 1))"

definition test_interrupts :: "'a rtc_scheme \<Rightarrow> 'a rtc_scheme" where
  "test_interrupts s = (let s = s\<lparr>mem := test_interrupts_loop (25 * 80) (mem s)\<rparr> in rtc_handler s)"

section \<open>Lemmas\<close>

text \<open>The controller's reading of the log: an address selects a register, data sets it.\<close>

fun cmos_event :: "io_event \<Rightarrow> u8 \<times> (u8 \<Rightarrow> u8) \<Rightarrow> u8 \<times> (u8 \<Rightarrow> u8)" where
  "cmos_event (Out p d) (idx, regs) =
     (if p = 0x70 then (d AND 0x7F, regs) else if p = 0x71 then (idx, regs(idx := d)) else (idx, regs))"
| "cmos_event (In p d) st = st"

definition cmos :: "io_event list \<Rightarrow> u8 \<Rightarrow> u8" where
  "cmos log = snd (fold cmos_event log (0, \<lambda>_. 0))"

lemma cmos_select:
  "cmos (log @ [Out 0x70 a, In 0x71 v, Out 0x70 a, Out 0x71 d] @ rest) =
     snd (fold cmos_event rest (a AND 0x7F, (cmos log)(a AND 0x7F := d)))"
  by (cases "fold cmos_event log (0, \<lambda>_. 0)") (simp add: cmos_def)

lemma shift_power: "d < 32 \<Longrightarrow> (let f = drop_bit d (32768 :: u32) in f AND (f - 1) = 0 \<and> (f < 2 \<longleftrightarrow> 15 \<le> d))"
proof -
  have "\<forall>d \<in> {..<32}. (let f = drop_bit d (32768 :: u32) in f AND (f - 1) = 0 \<and> (f < 2 \<longleftrightarrow> 15 \<le> d))"
    by (simp add: lessThan_nat_numeral Let_def)
  then show "d < 32 \<Longrightarrow> (let f = drop_bit d (32768 :: u32) in f AND (f - 1) = 0 \<and> (f < 2 \<longleftrightarrow> 15 \<le> d))"
    by blast
qed

definition rtc_rate :: "u8 \<Rightarrow> u8" where
  "rtc_rate b = (if b < 16 then RATE else FISH_RATE)"

lemma rtc_write_byte_eq:
  assumes "1 \<le> b" "b \<le> 32"
  shows "rtc_write_byte b s = Inr (0, rtc_rate b, s\<lparr>
    io_log := io_log s @ (let prev = device s (io_log s @ [Out 0x70 0x8A]) 0x71 in [Out 0x70 0x8A, In 0x71 prev,
       Out 0x70 0x8A, Out 0x71 ((prev AND 0xF0) OR rtc_rate b), Out 0xA0 0x60, Out 0x20 0x62]), iflag := True\<rparr>)"
proof -
  let ?d = "nat (uint b - 1)"
  have d: "?d < 32" "uint b - 1 \<ge> 0" "uint b - 1 < 32" using assms by (simp_all add: word_le_def)
  have lt: "15 \<le> ?d \<longleftrightarrow> \<not> b < 16" using d by (simp add: word_less_def) linarith
  note f = shift_power [OF d(1), unfolded Let_def]
  show ?thesis
    using d f lt by (simp add: rtc_write_byte_def Let_def split_beta rtc_rate_def)
      (simp add: io_defs Let_def send_eoi_def)
qed

text \<open>How the rate reaches the clock.\<close>

lemma rate_cmos:
  "cmos (log @ [Out 0x70 0x8A, In 0x71 prev, Out 0x70 0x8A, Out 0x71 d, Out 0xA0 0x60, Out 0x20 0x62]) =
     (cmos log)(0xA := d)"
  using cmos_select [of log "0x8A" prev d "[Out 0xA0 0x60, Out 0x20 0x62]"] by simp

lemma mmu_io [simp]:
  "mmu user write (s\<lparr>iflag := f\<rparr>) va = mmu user write s va"
  "mmu user write (s\<lparr>io_log := l\<rparr>) va = mmu user write s va"
  "mmu user write (s\<lparr>next_interrupt := n\<rparr>) va = mmu user write s va"
  by (simp_all add: mmu_def table_entry_def Let_def)

lemma rtc_handler_ready: "next_interrupt (rtc_handler s) = 1"
  by (simp add: rtc_handler_def Let_def io_defs send_eoi_def)

lemma rtc_init_eq:
  assumes "sym s Sym_rtc_wrapper \<noteq> 0" and "length (idt s) = 256"
  shows "\<exists>s'. rtc_init 8 s = Inr s' \<and> irq_delivered s' 8 \<and> iflag s' \<and>
    idt s' = (idt s)[40 := (SET_IDT_ENTRY (sym s Sym_rtc_wrapper) (idt s ! 40))\<lparr>present := 1, seg_selector := 0x10\<rparr>] \<and>
    bit (cmos (io_log s') 0xB) 6"
proof -
  define v where "v = device s (io_log s @ [Out 0x70 0x8B]) 0x71"
  define t where "t = s\<lparr>iflag := False, next_interrupt := 0,
    io_log := io_log s @ [Out 0x70 0x8B, In 0x71 v, Out 0x70 0x8B, Out 0x71 (v OR 0x40)],
    idt := (idt s)[40 := (SET_IDT_ENTRY (sym s Sym_rtc_wrapper) (idt s ! 40))\<lparr>present := 1, seg_selector := 0x10\<rparr>]\<rparr>"
  have "rtc_init 8 s = Inr (sti (enable_irq 8 t))"
    using assms by (simp add: rtc_init_def Let_def split_beta) (simp add: insert_idt_def io_defs Let_def v_def t_def)
  moreover have "irq_delivered (sti (enable_irq 8 t)) 8"
    using i8259.enable_self [of 8 t] by (simp add: irq_delivered_def io_defs)
  moreover have "\<exists>a b. io_log (sti (enable_irq 8 t)) = io_log t @ [Out 0x21 a, Out 0xA1 b]"
    by (simp add: enable_irq_def io_defs Let_def)
  then have "cmos (io_log (sti (enable_irq 8 t))) 0xB = (v OR 0x40)"
    using cmos_select [of "io_log s" "0x8B" v "v OR 0x40"] by (auto simp: t_def)
  then have "bit (cmos (io_log (sti (enable_irq 8 t))) 0xB) 6" by (simp add: bit_or_iff)
  moreover have "idt (sti (enable_irq 8 t)) = idt t" by (simp add: enable_irq_def io_defs Let_def)
  ultimately show ?thesis by (simp add: t_def)
qed

section \<open>Properties\<close>

text \<open>
  \<^verbatim>\<open>rtc_write\<close> of a byte from 1 to 32 never fails, but knows two rates only: bytes below 16 program
  rate 15 (2 Hz) and the others rate 11 (32 Hz), whatever frequency was asked for; the rate goes to the low half
  of register A, and the byte in the caller's buffer is overwritten with it.
\<close>

lemma rtc_write_two_rates:
  assumes "vread s buf = Inr b" and "mmu False True s buf = Inr pa" and "1 \<le> b" and "b \<le> 32"
  shows "\<exists>s' prev. rtc_write fd buf nbytes s = Inr (0, s') \<and>
    cmos (io_log s') 0xA = ((prev AND 0xF0) OR (if b < 16 then 15 else 11)) \<and>
    mem s' = (mem s)(pa := if b < 16 then 15 else 11)"
proof -
  have "\<exists>s' prev. rtc_write fd buf nbytes s = Inr (0, s') \<and>
      cmos (io_log s') 0xA = ((prev AND 0xF0) OR rtc_rate b) \<and> mem s' = (mem s)(pa := rtc_rate b)"
    using assms(1,2) rtc_write_byte_eq [OF assms(3,4), of s]
    by (auto simp: rtc_write_def vwrite_def rate_cmos Let_def)
  then show ?thesis by (simp only: rtc_rate_def)
qed

text \<open>The state of the witnesses: the kernel's address space, with a buffer at \<open>0x500000\<close>.\<close>

definition reset_rtc :: rtc where
  "reset_rtc = paging.extend (paging_setup (paging.truncate reset_paging\<lparr>mem := (\<lambda>_. 0)(0x500000 := 4)\<rparr>))
     \<lparr>next_interrupt = 0\<rparr>"

lemma mmu_extend: "mmu user write (paging.extend p e) va = mmu user write p va"
  by (simp add: mmu_def table_entry_def Let_def paging.defs)

lemma reset_rtc_mmu: "mmu False write reset_rtc 0x500000 = Inr 0x500000"
proof -
  let ?p = "paging.truncate reset_paging\<lparr>mem := (\<lambda>_. 0)(0x500000 := 4)\<rparr>"
  have "tables_ok ?p" using reset_tables_ok by (simp add: tables_ok_def paging.defs)
  then show ?thesis by (simp add: reset_rtc_def mmu_extend mmu_paging_setup)
qed

lemma rtc_write_two_rates_witness:
  "\<exists>s'. rtc_write 2 0x500000 4 reset_rtc = Inr (0, s') \<and> mem s' 0x500000 = 15"
proof -
  have "mem reset_rtc 0x500000 = 4"
    by (simp add: reset_rtc_def paging.defs paging_setup_def paging_loop load_cr3_def Let_def)
  then have "vread reset_rtc 0x500000 = Inr 4" by (simp add: vread_def reset_rtc_mmu)
  from rtc_write_two_rates [OF this reset_rtc_mmu, of 2 4] show ?thesis by auto
qed

text \<open>
  \<^verbatim>\<open>rtc_open\<close> puts the clock into service: it succeeds, line 8 is delivered (cascade included),
  its gate is present and leads to the wrapper of the clock handler, periodic interrupts are on, and the rate is
  15, two interrupts a second.
\<close>

lemma rtc_open_starts_clock:
  assumes "sym s Sym_rtc_wrapper \<noteq> 0" and "length (idt s) = 256"
  shows "\<exists>s' prev. rtc_open filename s = Inr (0, s') \<and> irq_delivered s' 8 \<and> iflag s' \<and>
    present (idt s' ! 40) = 1 \<and> gate_offset (idt s' ! 40) = sym s Sym_rtc_wrapper \<and>
    bit (cmos (io_log s') 0xB) 6 \<and> cmos (io_log s') 0xA = ((prev AND 0xF0) OR 15)"
proof -
  obtain t where t: "rtc_init 8 s = Inr t" "irq_delivered t 8"
    "idt t = (idt s)[40 := (SET_IDT_ENTRY (sym s Sym_rtc_wrapper) (idt s ! 40))\<lparr>present := 1, seg_selector := 0x10\<rparr>]"
    "bit (cmos (io_log t) 0xB) 6"
    using rtc_init_eq [OF assms] by blast
  have "gate_offset (d\<lparr>present := p, seg_selector := q\<rparr>) = gate_offset d" for d p q
    by (simp add: gate_offset_def)
  moreover have "irq_delivered (t\<lparr>io_log := l, iflag := f\<rparr>) 8" for l f
    using t(2) by (simp add: irq_delivered_def)
  ultimately show ?thesis
    using t assms(2) rtc_write_byte_eq [of 15 t]
    by (simp add: rtc_open_def rtc_rate_def Let_def rate_cmos) blast
qed

lemma rtc_open_starts_clock_witness:
  "\<exists>s'. rtc_open Null (reset_rtc\<lparr>sym := \<lambda>_. 0x400100,
      idt := replicate 256 \<lparr>offset_15_00 = 0, seg_selector = 0, reserved4 = 0, reserved3 = 1, reserved2 = 1,
        reserved1 = 1, size_bit = 1, reserved0 = 0, dpl = 0, present = 0, offset_31_16 = 0\<rparr>\<rparr>) = Inr (0, s') \<and>
     irq_delivered s' 8 \<and> gate_offset (idt s' ! 40) = 0x400100"
  using rtc_open_starts_clock [of "reset_rtc\<lparr>sym := \<lambda>_. 0x400100,
      idt := replicate 256 \<lparr>offset_15_00 = 0, seg_selector = 0, reserved4 = 0, reserved3 = 1, reserved2 = 1,
        reserved1 = 1, size_bit = 1, reserved0 = 0, dpl = 0, present = 0, offset_31_16 = 0\<rparr>\<rparr>" Null]
  by auto

text \<open>
  \<^verbatim>\<open>rtc_read\<close> returns 0 when a clock interrupt arrives while it waits, whatever other interrupts
  are handled before or after; as long as only interrupts arrive that leave \<^verbatim>\<open>next_interrupt\<close> alone, it does not
  return, even if a clock interrupt had been handled before the call.
\<close>

lemma rtc_read_blocks:
  fixes hs :: "('a rtc_scheme \<Rightarrow> 'a rtc_scheme res) list"
  assumes "\<And>h t. h \<in> set hs \<Longrightarrow> \<exists>t'. h t = Inr t'"
  shows "((\<lambda>s. Inr (rtc_handler s)) \<in> set hs \<longrightarrow>
      (\<exists>s'. rtc_read hs fd buf nbytes s = Inr (0, s') \<and> next_interrupt s' \<noteq> 0)) \<and>
    ((\<forall>h \<in> set hs. \<forall>t t'. h t = Inr t' \<longrightarrow> next_interrupt t' = next_interrupt t) \<longrightarrow>
      rtc_read hs fd buf nbytes s = Inl Hang)"
proof (intro conjI impI)
  let ?ready = "\<lambda>s. next_interrupt s \<noteq> 0" and ?s = "s\<lparr>next_interrupt := 0\<rparr>"
  show "\<exists>s'. rtc_read hs fd buf nbytes s = Inr (0, s') \<and> next_interrupt s' \<noteq> 0"
    if "(\<lambda>s. Inr (rtc_handler s)) \<in> set hs"
  proof -
    have "\<exists>s'. spin_until ?ready hs ?s = Inr s'"
      using that assms by (intro spin_until_wakes [of "\<lambda>s. Inr (rtc_handler s)"]) (auto simp: rtc_handler_ready)
    then obtain s' where s': "spin_until ?ready hs ?s = Inr s'" ..
    then have "next_interrupt s' \<noteq> 0" by (rule spin_until_sound)
    with s' show ?thesis by (simp add: rtc_read_def)
  qed
  show "rtc_read hs fd buf nbytes s = Inl Hang"
    if "\<forall>h \<in> set hs. \<forall>t t'. h t = Inr t' \<longrightarrow> next_interrupt t' = next_interrupt t"
  proof -
    have "spin_until ?ready hs ?s = Inl Hang"
    proof (rule spin_until_hang)
      fix h and t :: "'a rtc_scheme" assume "h \<in> set hs" "\<not> next_interrupt t \<noteq> 0"
      with that assms [of h t] show "\<exists>t'. h t = Inr t' \<and> \<not> next_interrupt t' \<noteq> 0" by metis
    qed simp
    then show ?thesis by (simp add: rtc_read_def)
  qed
qed

lemma rtc_read_blocks_witness:
  "\<exists>s'. rtc_read [Inr, \<lambda>s. Inr (rtc_handler s)] 2 0 4 reset_rtc = Inr (0, s') \<and> next_interrupt s' \<noteq> 0"
  using rtc_read_blocks [of "[Inr, \<lambda>s. Inr (rtc_handler s)]" 2 0 4 reset_rtc] by auto

end
