(* ===== verification/Filesystem.thy ===== *)
theory Filesystem
  imports Rtc
begin

text \<open>
  The read-only file system, \<^verbatim>\<open>filesystem.c\<close>: \<^verbatim>\<open>fs_init\<close>, the three read helpers, the directory operations and the
  file operations that need no process. (\<^verbatim>\<open>fs_file_read\<close> and the \<^verbatim>\<open>close\<close> operations use the process control block
  and are in the theory \<open>Process\<close>.)

  The static copy of the boot block and the static directory entry are kept as raw bytes, 4096 and 64 of
  them, read through accessors at the offsets of the packed structures; a scan that runs off a file name of 32
  characters therefore goes on into the file type, as it does in the program. The image itself is in memory.

  The specification of \<^verbatim>\<open>read_data\<close> is the file as a sequence of bytes, \<open>file_byte\<close>.
\<close>

section \<open>Layout\<close>

abbreviation (input) FILENAME_LEN :: nat where "FILENAME_LEN \<equiv> 32"
abbreviation (input) FOUR_KB :: nat where "FOUR_KB \<equiv> 4096"
abbreviation (input) MAX_DENTRY_NUM :: nat where "MAX_DENTRY_NUM \<equiv> 63"
abbreviation (input) REG_TYPE :: u32 where "REG_TYPE \<equiv> 2"

record fs = rtc +
  dentry_global :: "u8 list"
  boot_block :: "u8 list"
  inode_addr :: u32
  boot_block_addr :: u32
  data_block_addr :: u32
  dir_count :: u32

definition bb_dir_count :: "u8 list \<Rightarrow> u32" where
  "bb_dir_count bb = le32 (take 4 bb)"

definition bb_inode_count :: "u8 list \<Rightarrow> u32" where
  "bb_inode_count bb = le32 (take 4 (drop 4 bb))"

definition bb_data_count :: "u8 list \<Rightarrow> u32" where
  "bb_data_count bb = le32 (take 4 (drop 8 bb))"

definition direntries :: "u8 list \<Rightarrow> nat \<Rightarrow> u8 list" where
  "direntries bb i = take 64 (drop (64 + 64 * i) bb)"

definition de_filename :: "u8 list \<Rightarrow> u8 list" where
  "de_filename d = take FILENAME_LEN d"

definition de_filetype :: "u8 list \<Rightarrow> u32" where
  "de_filetype d = le32 (take 4 (drop 32 d))"

definition de_inode :: "u8 list \<Rightarrow> u32" where
  "de_inode d = le32 (take 4 (drop 36 d))"

definition ino_length :: "u8 list \<Rightarrow> u32" where
  "ino_length b = le32 (take 4 b)"

definition ino_block :: "u8 list \<Rightarrow> nat \<Rightarrow> u32" where
  "ino_block b i = le32 (take 4 (drop (4 + 4 * i) b))"

section \<open>Operations\<close>

definition fs_init :: "u32 \<Rightarrow> 'a fs_scheme \<Rightarrow> (int \<times> 'a fs_scheme) res" where
  "fs_init start_addr s =
     rbind (vload s start_addr FOUR_KB) (\<lambda>bb.
       let s = s\<lparr>boot_block := bb\<rparr>;
           s = s\<lparr>boot_block_addr := start_addr\<rparr>;
           s = s\<lparr>inode_addr := start_addr + of_nat FOUR_KB\<rparr>;
           s = s\<lparr>data_block_addr := inode_addr s + bb_inode_count (boot_block s) * of_nat FOUR_KB\<rparr>;
           s = s\<lparr>dir_count := 0\<rparr>
       in Inr (0, s))"

text \<open>
  \<^verbatim>\<open>read_dentry_by_index\<close>: the return value and the entry it stores, if it stores one. The comparison
  lets the index 63 through, which is one past the array.
\<close>

definition read_dentry_by_index :: "u32 \<Rightarrow> 'a fs_scheme \<Rightarrow> (int \<times> u8 list option) res" where
  "read_dentry_by_index index s =
     (if unat index > MAX_DENTRY_NUM then Inr (-1, None)
      else if MAX_DENTRY_NUM \<le> unat index then Inl OutOfBounds
      else Inr (0, Some (direntries (boot_block s) (unat index))))"

fun find_dentry :: "'a fs_scheme \<Rightarrow> cptr \<Rightarrow> nat list \<Rightarrow> (int \<times> u8 list option) res" where
  "find_dentry s fname [] = Inr (-1, None)"
| "find_dentry s fname (i # is) =
     rbind (strncmp (vview s) (Obj (de_filename (direntries (boot_block s) i))) fname FILENAME_LEN) (\<lambda>c.
       if c = 0
       then rbind (read_dentry_by_index (of_nat i) s) (\<lambda>(r, d). if r = -1 then Inr (-1, d) else Inr (0, d))
       else find_dentry s fname is)"

definition read_dentry_by_name :: "cptr \<Rightarrow> 'a fs_scheme \<Rightarrow> (int \<times> u8 list option) res" where
  "read_dentry_by_name fname s =
     (if is_null fname then Inr (-1, None)
      else rbind (vstrlen s fname) (\<lambda>n.
        if n = 0 then Inr (-1, None) else find_dentry s fname [0..<MAX_DENTRY_NUM]))"

text \<open>Storing the entry into the static variable.\<close>

definition store_global :: "u8 list option \<Rightarrow> 'a fs_scheme \<Rightarrow> 'a fs_scheme" where
  "store_global d s = (case d of None \<Rightarrow> s | Some e \<Rightarrow> s\<lparr>dentry_global := e\<rparr>)"

definition fs_dir_open :: "cptr \<Rightarrow> 'a fs_scheme \<Rightarrow> (int \<times> 'a fs_scheme) res" where
  "fs_dir_open filename s =
     rbind (read_dentry_by_name filename s) (\<lambda>(result, d).
       let s = store_global d s in if result = -1 then Inr (-1, s) else Inr (0, s))"

definition fs_dir_write :: "int \<Rightarrow> u32 \<Rightarrow> int \<Rightarrow> int" where
  "fs_dir_write fd buf nbytes = -1"

definition fs_dir_read :: "int \<Rightarrow> u32 \<Rightarrow> int \<Rightarrow> 'a fs_scheme \<Rightarrow> (int \<times> 'a fs_scheme) res" where
  "fs_dir_read fd buf nbytes s =
     rbind (read_dentry_by_index (dir_count s) s) (\<lambda>(_, d).
       let s = store_global d s
       in rbind (vmemset buf 0 FILENAME_LEN s) (\<lambda>s.
          rbind (strlen (vview s) (Obj (dentry_global s))) (\<lambda>len.
            let flag = FILENAME_LEN \<le> len
            in rbind (vstore buf (if flag then take FILENAME_LEN (dentry_global s) else take len (dentry_global s)) s) (\<lambda>s.
               let s = s\<lparr>dir_count := dir_count s + 1\<rparr>
               in if dir_count s > bb_dir_count (boot_block s) then Inr (0, s\<lparr>dir_count := 0\<rparr>)
                  else Inr (if flag then int FILENAME_LEN else int len, s)))))"

definition fs_file_open :: "cptr \<Rightarrow> 'a fs_scheme \<Rightarrow> (int \<times> 'a fs_scheme) res" where
  "fs_file_open filename s =
     rbind (read_dentry_by_name filename s) (\<lambda>(result, d).
       let s = store_global d s
       in if de_filetype (dentry_global s) \<noteq> REG_TYPE then Inr (-1, s)
          else if result = -1 then Inr (-1, s) else Inr (0, s))"

definition fs_file_write :: "int \<Rightarrow> u32 \<Rightarrow> int \<Rightarrow> int" where
  "fs_file_write fd buf nbytes = -1"

text \<open>
  The loop of \<^verbatim>\<open>read_data\<close>. \<^verbatim>\<open>read_byte\<close> and \<^verbatim>\<open>left_length\<close> are \<^verbatim>\<open>int32_t\<close>; sums with \<^verbatim>\<open>offset\<close> are
  unsigned and wrap; an index past the block array is out of bounds.
\<close>

lemma uint_mod_4096: "uint ((x :: u32) mod 4096) < 4096" "0 \<le> uint ((x :: u32) mod 4096)"
  by (simp_all add: uint_mod)

function read_data_loop :: "u8 list \<Rightarrow> u32 \<Rightarrow> u32 \<Rightarrow> int \<Rightarrow> int \<Rightarrow> 'a fs_scheme \<Rightarrow> (int \<times> 'a fs_scheme) res" where
  "read_data_loop inode_local offset buf left_length read_byte s =
     (if \<not> read_byte \<le> left_length then Inr (read_byte, s)
      else let i = unat ((word_of_int read_byte + offset) div of_nat FOUR_KB)
           in if 1023 \<le> i then Inl OutOfBounds
              else let num = ino_block inode_local i
                   in if sint num < 0 \<or> sint num \<ge> sint (bb_data_count (boot_block s)) then Inr (-1, s)
                      else let curr_block_addr = data_block_addr s + num * of_nat FOUR_KB;
                               in_blk_pos = uint ((word_of_int read_byte + offset) mod of_nat FOUR_KB)
                           in rbind (int32 (left_length - read_byte + in_blk_pos)) (\<lambda>k.
                              if k < int FOUR_KB
                              then rbind (vmemcpy (buf + word_of_int read_byte)
                                     (curr_block_addr + word_of_int in_blk_pos) (nat (left_length - read_byte)) s)
                                     (\<lambda>s. Inr (left_length, s))
                              else let else_byte = (if int FOUR_KB - in_blk_pos > left_length - read_byte
                                                    then left_length - read_byte else int FOUR_KB - in_blk_pos)
                                   in rbind (vmemcpy (buf + word_of_int read_byte) curr_block_addr (nat else_byte) s)
                                        (\<lambda>s. read_data_loop inode_local offset buf left_length (read_byte + else_byte) s)))"
  by pat_completeness auto
termination
proof (relation "measure (\<lambda>(b, offset, buf, left, r, s). nat (left + 1 - r))", goal_cases)
  case (2 inode_local offset buf left_length read_byte s i num curr in_blk_pos k else_byte s')
  then have "in_blk_pos < 4096" using uint_mod_4096(1) by simp
  moreover have "4096 \<le> left_length - read_byte + in_blk_pos"
    using 2 by (auto simp: int32_def split: if_splits)
  ultimately have "0 < else_byte" using 2 by simp
  with 2 show ?case by simp
qed simp

declare read_data_loop.simps [simp del]

text \<open>One round of the loop: whether it was the last, the count, and the state; the loop is a run of rounds.\<close>

definition read_round :: "u8 list \<Rightarrow> u32 \<Rightarrow> u32 \<Rightarrow> int \<Rightarrow> int \<Rightarrow> 'a fs_scheme \<Rightarrow> ((bool \<times> int) \<times> 'a fs_scheme) res" where
  "read_round inode_local offset buf left_length read_byte s =
     (let i = unat ((word_of_int read_byte + offset) div of_nat FOUR_KB)
      in if 1023 \<le> i then Inl OutOfBounds
         else let num = ino_block inode_local i
              in if sint num < 0 \<or> sint num \<ge> sint (bb_data_count (boot_block s)) then Inr ((True, -1), s)
                 else let curr_block_addr = data_block_addr s + num * of_nat FOUR_KB;
                          in_blk_pos = uint ((word_of_int read_byte + offset) mod of_nat FOUR_KB)
                      in rbind (int32 (left_length - read_byte + in_blk_pos)) (\<lambda>k.
                         if k < int FOUR_KB
                         then rbind (vmemcpy (buf + word_of_int read_byte)
                                (curr_block_addr + word_of_int in_blk_pos) (nat (left_length - read_byte)) s)
                                (\<lambda>s. Inr ((True, left_length), s))
                         else let else_byte = (if int FOUR_KB - in_blk_pos > left_length - read_byte
                                               then left_length - read_byte else int FOUR_KB - in_blk_pos)
                              in rbind (vmemcpy (buf + word_of_int read_byte) curr_block_addr (nat else_byte) s)
                                   (\<lambda>s. Inr ((False, read_byte + else_byte), s))))"

lemma read_data_loop_rounds:
  "read_data_loop b offset buf left r s =
     (if \<not> r \<le> left then Inr (r, s)
      else rbind (read_round b offset buf left r s) (\<lambda>((last, r), s). if last then Inr (r, s) else read_data_loop b offset buf left r s))"
  by (subst read_data_loop.simps) (simp add: read_round_def Let_def rbind_def split: sum.split)

lemma read_round_advances:
  assumes "read_round b offset buf left r s = Inr ((False, r'), s')" and "r \<le> left"
  shows "r < r'"
proof -
  define q where "q = uint ((word_of_int r + offset) mod 4096)"
  have q: "q < 4096" using uint_mod_4096(1) by (simp add: q_def)
  have "\<exists>k. int32 (left - r + q) = Inr k \<and> \<not> k < 4096 \<and> r' = r + (if 4096 - q > left - r then left - r else 4096 - q)"
    using assms(1) unfolding read_round_def Let_def q_def by (auto simp: rbind_eq_Inr split: if_splits)
  then show ?thesis using q by (auto simp: int32_def split: if_splits)
qed

definition read_data :: "u32 \<Rightarrow> u32 \<Rightarrow> u32 \<Rightarrow> u32 \<Rightarrow> 'a fs_scheme \<Rightarrow> (int \<times> 'a fs_scheme) res" where
  "read_data inode offset buf len s =
     rbind (vload s (inode_addr s + inode * of_nat FOUR_KB) FOUR_KB) (\<lambda>inode_local.
       if len = 0 \<or> buf = 0 \<or> offset > ino_length inode_local then Inr (-1, s)
       else let left_length = sint (if len + offset > ino_length inode_local
                                    then ino_length inode_local - offset else len)
            in read_data_loop inode_local offset buf left_length 0 s)"

section \<open>Directory lookup\<close>

text \<open>The name of an entry, and of an argument: at most 32 characters, up to the first null byte.\<close>

definition entry_name :: "u8 list \<Rightarrow> nat \<Rightarrow> u8 list" where
  "entry_name bb i = takeWhile (\<lambda>c. c \<noteq> 0) (de_filename (direntries bb i))"

definition char_of_arg :: "'a fs_scheme \<Rightarrow> cptr \<Rightarrow> nat \<Rightarrow> u8" where
  "char_of_arg s p i = (case fetch (vview s) p i of Inl _ \<Rightarrow> 0 | Inr c \<Rightarrow> c)"

definition arg_name :: "'a fs_scheme \<Rightarrow> cptr \<Rightarrow> u8 list" where
  "arg_name s p = cut (char_of_arg s p) FILENAME_LEN"

lemma length_direntries [simp]: "length bb = 4096 \<Longrightarrow> i < 63 \<Longrightarrow> length (direntries bb i) = 64"
  by (simp add: direntries_def)

lemma arg_str_at:
  assumes "vstrlen s p = Inr n"
  shows "str_at (vview s) p (char_of_arg s p) k"
  unfolding str_at_def
proof (intro allI impI)
  fix i assume nz: "\<forall>j < i. char_of_arg s p j \<noteq> 0"
  have len: "strlen (vview s) p = Inr n" using assms by (auto simp: vstrlen_def rbind_eq_Inr split: if_splits)
  then have "char_of_arg s p n = 0" by (simp add: strlen_Inr char_of_arg_def)
  then have "i \<le> n" using nz by (meson not_le)
  then have "\<exists>c. fetch (vview s) p i = Inr c" using len by (cases "i = n") (auto simp: strlen_Inr dest: spec [of _ i])
  then show "fetch (vview s) p i = Inr (char_of_arg s p i)" by (auto simp: char_of_arg_def)
qed

lemma entry_str_at:
  assumes "length bb = 4096" "i < 63"
  shows "str_at m (Obj (de_filename (direntries bb i))) ((!) (de_filename (direntries bb i))) 32"
    and "cut ((!) (de_filename (direntries bb i))) 32 = entry_name bb i"
proof -
  have len: "length (de_filename (direntries bb i)) = 32" using assms by (simp add: de_filename_def)
  then show "str_at m (Obj (de_filename (direntries bb i))) ((!) (de_filename (direntries bb i))) 32"
    by (intro str_at_Obj) simp
  show "cut ((!) (de_filename (direntries bb i))) 32 = entry_name bb i"
    unfolding cut_def entry_name_def using len map_nth [of "de_filename (direntries bb i)"] by simp
qed

lemma find_dentry_find:
  assumes "length (boot_block s) = 4096" "vstrlen s p = Inr n" "set is \<subseteq> {..<63}"
  shows "find_dentry s p is = Inr (case find (\<lambda>i. entry_name (boot_block s) i = arg_name s p) is of
     None \<Rightarrow> (-1, None) | Some i \<Rightarrow> (0, Some (direntries (boot_block s) i)))"
  using assms(3)
proof (induction "is")
  case (Cons i "is")
  let ?e = "Obj (de_filename (direntries (boot_block s) i))"
  have i: "i < 63" using Cons.prems by simp
  have eq: "strncmp (vview s) ?e p 32 = Inr 0 \<longleftrightarrow> entry_name (boot_block s) i = arg_name s p"
    using strncmp_eq_0 [OF entry_str_at(1) [OF assms(1) i] arg_str_at [OF assms(2)]]
      entry_str_at(2) [OF assms(1) i]
    by (simp add: arg_name_def)
  have "\<exists>c. strncmp (vview s) ?e p 32 = Inr c"
    using strncmp_total [OF entry_str_at(1) [OF assms(1) i] arg_str_at [OF assms(2)]] by simp
  with eq i Cons show ?case by (auto simp: read_dentry_by_index_def)
qed simp

lemma read_dentry_by_name_eq:
  assumes "length (boot_block s) = 4096" and "\<not> is_null fname" and "vstrlen s fname = Inr k" and "0 < k"
  shows "read_dentry_by_name fname s =
    Inr (case find (\<lambda>i. entry_name (boot_block s) i = arg_name s fname) [0..<63] of
           None \<Rightarrow> (-1, None) | Some i \<Rightarrow> (0, Some (direntries (boot_block s) i)))"
  using assms find_dentry_find [OF assms(1,3), of "[0..<63]"]
  by (simp add: read_dentry_by_name_def atLeast0LessThan)

lemma strlen_entry:
  assumes "0 \<in> set d" and "length d = 64"
  shows "strlen m (Obj d) = Inr (length (takeWhile (\<lambda>c. c \<noteq> 0) d))"
proof -
  let ?xs = "takeWhile (\<lambda>c. c \<noteq> 0) d"
  have "dropWhile (\<lambda>c. c \<noteq> 0) d \<noteq> []" using assms(1) by (simp add: dropWhile_eq_Nil_conv)
  then obtain ys where "dropWhile (\<lambda>c. c \<noteq> 0) d = 0 # ys"
    by (metis (mono_tags, lifting) hd_Cons_tl hd_dropWhile)
  then have d: "d = ?xs @ 0 # ys" using takeWhile_dropWhile_id [of "\<lambda>c. c \<noteq> 0" d] by simp
  have "length ?xs \<le> 64" using assms(2) length_takeWhile_le [of _ d] by metis
  moreover have "0 \<notin> set ?xs" by (auto dest: set_takeWhileD)
  ultimately have "strlen m (Obj (?xs @ 0 # ys)) = Inr (length ?xs)" by (intro strlen_Obj) simp_all
  with d show ?thesis by simp
qed

lemma phys_dir [simp]: "phys write (s\<lparr>dentry_global := d\<rparr>) va n = phys write s va n"
  by (rule phys_cong) simp_all

lemma wr_zeros_prefix:
  assumes "length xs \<le> n"
  shows "wr (wr m a (replicate n 0)) a xs = wr m a (xs @ replicate (n - length xs) 0)"
proof
  fix x
  show "wr (wr m a (replicate n 0)) a xs x = wr m a (xs @ replicate (n - length xs) 0) x"
    using assms by (cases "unat (x - a) < length xs") (auto simp: wr_def nth_append)
qed

lemma fs_dir_read_eq:
  assumes "length (boot_block s) = 4096" and "unat (dir_count s) < 63"
    and "0 \<in> set (direntries (boot_block s) (unat (dir_count s)))" and "phys True s buf 32 = Inr pb"
  shows "fs_dir_read fd buf nbytes s =
    (let d = direntries (boot_block s) (unat (dir_count s)); name = take 32 (takeWhile (\<lambda>c. c \<noteq> 0) d);
         s = s\<lparr>dentry_global := d, mem := wr (mem s) pb (name @ replicate (32 - length name) 0)\<rparr>
     in if dir_count s + 1 > bb_dir_count (boot_block s) then Inr (0, s\<lparr>dir_count := 0\<rparr>)
        else Inr (int (length name), s\<lparr>dir_count := dir_count s + 1\<rparr>))"
proof -
  let ?d = "direntries (boot_block s) (unat (dir_count s))"
  let ?n = "length (takeWhile (\<lambda>c. c \<noteq> 0) ?d)"
  have len: "strlen m (Obj ?d) = Inr ?n" for m using assms by (intro strlen_entry) simp_all
  have d: "read_dentry_by_index (dir_count s) s = Inr (0, Some ?d)"
    using assms(2) by (simp add: read_dentry_by_index_def)
  define xs where "xs = (if 32 \<le> ?n then take 32 ?d else take ?n ?d)"
  have xs: "xs = take 32 (takeWhile (\<lambda>c. c \<noteq> 0) ?d)"
  proof -
    have "take 32 (take ?n ?d) = xs" by (simp add: xs_def min_def)
    then show ?thesis using takeWhile_eq_take [of "\<lambda>c. c \<noteq> 0" ?d] by simp
  qed
  have st: "vstore buf xs (s\<lparr>dentry_global := ?d, mem := wr (mem s) pb (replicate 32 0)\<rparr>) =
      Inr (s\<lparr>dentry_global := ?d, mem := wr (mem s) pb (xs @ replicate (32 - length xs) 0)\<rparr>)"
  proof (cases "xs = []")
    case True
    then show ?thesis by (simp add: vstore_def)
  next
    case False
    then have "phys True s buf (length xs) = Inr pb"
      using phys_sub [OF assms(4), of 0 "length xs"] by (simp add: xs)
    then show ?thesis by (simp add: vstore_def wr_zeros_prefix xs)
  qed
  let ?s1 = "s\<lparr>dentry_global := ?d, mem := wr (mem s) pb (replicate 32 0)\<rparr>"
  have ms: "vmemset buf 0 32 (s\<lparr>dentry_global := ?d\<rparr>) = Inr ?s1"
    using assms(4) by (simp add: vmemset_def memset_wr)
  have flag: "(if 32 \<le> ?n then int 32 else int ?n) = int (length xs)"
    by (simp add: xs min_def)
  have g: "dentry_global ?s1 = ?d" by simp
  have "fs_dir_read fd buf nbytes s =
      (let s = s\<lparr>dentry_global := ?d, mem := wr (mem s) pb (xs @ replicate (32 - length xs) 0)\<rparr>
       in if dir_count s + 1 > bb_dir_count (boot_block s) then Inr (0, s\<lparr>dir_count := 0\<rparr>)
          else Inr (int (length xs), s\<lparr>dir_count := dir_count s + 1\<rparr>))"
    unfolding fs_dir_read_def d rbind_Inr case_prod_conv store_global_def option.case Let_def ms g len
      xs_def [symmetric] st flag by simp
  then show ?thesis unfolding xs Let_def .
qed

text \<open>A program that lists the directory: \<open>k\<close> reads into one buffer, with what each returns and leaves there.\<close>

fun dir_reads :: "nat \<Rightarrow> u32 \<Rightarrow> 'a fs_scheme \<Rightarrow> ((int \<times> u8 list) list \<times> 'a fs_scheme) res" where
  "dir_reads 0 buf s = Inr ([], s)"
| "dir_reads (Suc k) buf s =
     rbind (fs_dir_read 2 buf 32 s) (\<lambda>(r, s).
     rbind (vload s buf 32) (\<lambda>bs.
     rbind (dir_reads k buf s) (\<lambda>(rs, s). Inr ((r, bs) # rs, s))))"

definition padded_name :: "u8 list \<Rightarrow> nat \<Rightarrow> u8 list" where
  "padded_name bb i = entry_name bb i @ replicate (32 - length (entry_name bb i)) 0"

lemma entry_name_take: "entry_name bb i = take 32 (takeWhile (\<lambda>c. c \<noteq> 0) (direntries bb i))"
proof -
  have "takeWhile P (take n xs) = take n (takeWhile P xs)" for P n and xs :: "u8 list"
    by (induction xs arbitrary: n) (auto simp: take_Cons split: nat.splits)
  then show ?thesis by (simp add: entry_name_def de_filename_def)
qed

lemma length_padded_name [simp]: "length (padded_name bb i) = 32"
  using entry_name_take [of bb i] by (simp add: padded_name_def)

lemma mmu_kernel_write: "mmu False True s va = mmu False False s va"
  by (simp add: mmu_def entry_ok_def Let_def)

lemma phys_kernel_write: "phys True s va n = phys False s va n"
  by (simp add: phys_def mmu_kernel_write)

lemma phys_dir_count [simp]: "phys write (s\<lparr>dir_count := d\<rparr>) va n = phys write s va n"
  by (rule phys_cong) simp_all

lemma fs_dir_read_next:
  assumes "length (boot_block s) = 4096" and "unat (dir_count s) = i" and "i < 63" and "0 \<in> set (direntries (boot_block s) i)"
    and "phys True s buf 32 = Inr pb" and "unat (bb_dir_count (boot_block s)) = N" and "N < 63"
  shows "\<exists>s'. fs_dir_read fd buf nbytes s = Inr (if i < N then int (length (entry_name (boot_block s) i)) else 0, s') \<and>
    vload s' buf 32 = Inr (padded_name (boot_block s) i) \<and> unat (dir_count s') = (if i < N then i + 1 else 0) \<and>
    boot_block s' = boot_block s \<and> phys True s' buf 32 = Inr pb"
proof -
  let ?t = "s\<lparr>dentry_global := direntries (boot_block s) i, mem := wr (mem s) pb (padded_name (boot_block s) i)\<rparr>"
  have "unat (dir_count s + 1) = i + 1"
    using assms(2,3) u32_less_add_eq [of "dir_count s" 1] by simp
  then have gt: "dir_count s + 1 > bb_dir_count (boot_block s) \<longleftrightarrow> \<not> i < N"
    using assms(6) by (auto simp: word_less_nat_alt)
  have "fs_dir_read fd buf nbytes s =
      (if i < N then Inr (int (length (entry_name (boot_block s) i)), ?t\<lparr>dir_count := dir_count s + 1\<rparr>)
       else Inr (0, ?t\<lparr>dir_count := 0\<rparr>))"
    using fs_dir_read_eq [OF assms(1), of buf pb fd nbytes] assms(2-5) gt
    by (simp add: padded_name_def entry_name_take Let_def)
  moreover have "rd (wr (mem s) pb (padded_name (boot_block s) i)) pb 32 = padded_name (boot_block s) i"
    using rd_wr_same [of "padded_name (boot_block s) i" "mem s" pb] by simp
  moreover have "phys False s buf 32 = Inr pb" using assms(5) by (simp add: phys_kernel_write)
  ultimately show ?thesis
    using assms(5) \<open>unat (dir_count s + 1) = i + 1\<close> by (auto simp: vload_def)
qed

lemma dir_reads_from:
  assumes "unat (bb_dir_count bb) = N" and "N < 63" and "length bb = 4096" and "\<forall>i \<le> N. 0 \<in> set (direntries bb i)"
  shows "boot_block s = bb \<Longrightarrow> unat (dir_count s) = i \<Longrightarrow> i \<le> N \<Longrightarrow> phys True s buf 32 = Inr pb \<Longrightarrow>
    \<exists>s'. dir_reads (Suc (N - i)) buf s =
      Inr (map (\<lambda>i. (int (length (entry_name bb i)), padded_name bb i)) [i..<N] @ [(0, padded_name bb N)], s') \<and>
      dir_count s' = 0"
proof (induction "N - i" arbitrary: i s)
  case 0
  then have i: "i = N" by simp
  obtain s' where "fs_dir_read 2 buf 32 s = Inr (0, s')" "vload s' buf 32 = Inr (padded_name bb N)" "unat (dir_count s') = 0"
    using fs_dir_read_next [of s i buf pb N 2 32] 0 assms i by auto
  then show ?case using i by (simp add: unat_eq_0)
next
  case (Suc k)
  then have i: "i < N" by simp
  obtain s1 where s1: "fs_dir_read 2 buf 32 s = Inr (int (length (entry_name bb i)), s1)"
    "vload s1 buf 32 = Inr (padded_name bb i)" "unat (dir_count s1) = i + 1" "boot_block s1 = bb" "phys True s1 buf 32 = Inr pb"
    using fs_dir_read_next [of s i buf pb N 2 32] Suc.prems assms i by auto
  have "\<exists>s'. dir_reads (Suc (N - (i + 1))) buf s1 =
      Inr (map (\<lambda>i. (int (length (entry_name bb i)), padded_name bb i)) [i + 1..<N] @ [(0, padded_name bb N)], s') \<and>
      dir_count s' = 0"
    using Suc.hyps(2) s1 i by (intro Suc.hyps(1)) auto
  moreover have "Suc (N - i) = Suc (Suc (N - (i + 1)))" using i by simp
  moreover have "[i..<N] = i # [i + 1..<N]" using i by (simp add: upt_conv_Cons)
  ultimately show ?case using s1 by (auto simp del: dir_reads.simps simp: dir_reads.simps(2) [of "Suc _"])
qed

section \<open>Reading a file\<close>

definition block_addr :: "'a fs_scheme \<Rightarrow> u8 list \<Rightarrow> nat \<Rightarrow> u32" where
  "block_addr s b i = data_block_addr s + ino_block b i * 4096"

text \<open>The file as a sequence of bytes.\<close>

definition file_byte :: "'a fs_scheme \<Rightarrow> u8 list \<Rightarrow> nat \<Rightarrow> u8" where
  "file_byte s b k = mem s (block_addr s b (k div 4096) + of_nat (k mod 4096))"

text \<open>
  A sound file of \<open>L\<close> bytes and a buffer of \<open>n\<close> bytes for it: the blocks of the file, and the one at its
  very end that the loop looks at too, are blocks of the image and mapped where they are; the buffer is
  mapped and no part of those blocks.
\<close>

definition read_ok :: "'a fs_scheme \<Rightarrow> u8 list \<Rightarrow> nat \<Rightarrow> u32 \<Rightarrow> u32 \<Rightarrow> nat \<Rightarrow> bool" where
  "read_ok s b L buf pb n \<longleftrightarrow> L < 1023 * 4096 \<and> n \<le> L \<and> phys True s buf n = Inr pb \<and>
     (\<forall>i \<le> L div 4096. 0 \<le> sint (ino_block b i) \<and> sint (ino_block b i) < sint (bb_data_count (boot_block s)) \<and>
        phys False s (block_addr s b i) 4096 = Inr (block_addr s b i) \<and>
        disjoint_ranges (block_addr s b i) 4096 pb n)"

lemma vmemcpy_block:
  assumes dst: "phys True s buf n = Inr pb" and n: "n < 4294967296" and src: "phys False s (block_addr s b i) 4096 = Inr (block_addr s b i)"
    and dj: "disjoint_ranges (block_addr s b i) 4096 pb n" and q: "q + c \<le> 4096" and r: "length xs + c \<le> n"
  shows "vmemcpy (buf + of_nat (length xs)) (block_addr s b i + of_nat q) c (s\<lparr>mem := wr (mem s) pb xs\<rparr>) =
    Inr (s\<lparr>mem := wr (mem s) pb (xs @ map (file_byte s b) [4096 * i + q..<4096 * i + q + c])\<rparr>)"
proof (cases "c = 0")
  case True
  then show ?thesis by (simp add: vmemcpy_def memcpy_def)
next
  case False
  let ?a = "block_addr s b i" and ?r = "length xs"
  have pd: "phys True s (buf + of_nat ?r) c = Inr (pb + of_nat ?r)"
    using dst n r False by (intro phys_sub [of _ _ _ n]) simp_all
  have ps: "phys False s (?a + of_nat q) c = Inr (?a + of_nat q)"
    using src q False by (intro phys_sub [of _ _ _ 4096]) simp_all
  have away: "\<not> in_range pb n (?a + of_nat q + of_nat j)" if "j < c" for j
    using dj that q by (auto simp: disjoint_ranges_def add.assoc simp flip: of_nat_add)
  have in_sub: "in_range pb n x" if "in_range (pb + of_nat ?r) c x" for x
  proof -
    from that n r obtain j where "j < c" "x = pb + of_nat (?r + j)" by (auto simp: in_range_iff add.assoc)
    with n r show ?thesis by (auto simp: in_range_iff simp del: of_nat_add intro!: exI [of _ "?r + j"])
  qed
  have safe: "up_safe (pb + of_nat ?r) (?a + of_nat q) c"
  proof (rule disjoint_up_safe, rule disjoint_ranges_sym)
    show "disjoint_ranges (?a + of_nat q) c (pb + of_nat ?r) c"
      using away in_sub by (auto simp: disjoint_ranges_def)
  qed (use q in simp_all)
  have "rd (wr (mem s) pb xs) (?a + of_nat q) c = rd (mem s) (?a + of_nat q) c"
  proof (rule rd_cong)
    fix j assume "j < c"
    then have "\<not> in_range pb ?r (?a + of_nat q + of_nat j)"
      using away [of j] r by (auto simp: in_range_def)
    then show "wr (mem s) pb xs (?a + of_nat q + of_nat j) = mem s (?a + of_nat q + of_nat j)"
      by (rule wr_outside)
  qed
  also have "\<dots> = map (file_byte s b) [4096 * i + q..<4096 * i + q + c]"
    using q by (intro nth_equalityI) (auto simp: file_byte_def add.assoc simp flip: of_nat_add)
  finally have "memcpy (wr (mem s) pb xs) (pb + of_nat ?r) (?a + of_nat q) c =
      wr (mem s) pb (xs @ map (file_byte s b) [4096 * i + q..<4096 * i + q + c])"
    using safe r n by (simp add: memcpy_wr wr_append)
  with pd ps show ?thesis by (simp add: vmemcpy_def)
qed

lemma u32_div_mod_4096:
  assumes "k < 4294967296"
  shows "unat ((of_nat k :: u32) div 4096) = k div 4096" "uint ((of_nat k :: u32) mod 4096) = int (k mod 4096)"
proof -
  have k: "unat (of_nat k :: u32) = k" using assms by simp
  show "unat ((of_nat k :: u32) div 4096) = k div 4096" unfolding unat_div k by simp
  have "uint (of_nat k :: u32) = int k" using k by (metis of_nat_unat)
  then show "uint ((of_nat k :: u32) mod 4096) = int (k mod 4096)" unfolding uint_mod by (simp add: zmod_int)
qed

text \<open>One round of the loop, with \<open>r\<close> bytes already in the buffer.\<close>

lemma read_round_eq:
  assumes ok: "read_ok s b L buf pb n" and off: "unat offset + n \<le> L" and r: "length xs \<le> n"
  defines "k \<equiv> unat offset + length xs" and "q \<equiv> (unat offset + length xs) mod 4096"
  shows "read_round b offset buf (int n) (int (length xs)) (s\<lparr>mem := wr (mem s) pb xs\<rparr>) =
    (if n - length xs + q < 4096
     then Inr ((True, int n), s\<lparr>mem := wr (mem s) pb (xs @ map (file_byte s b) [k..<unat offset + n])\<rparr>)
     else Inr ((False, int (length xs + (4096 - q))),
            s\<lparr>mem := wr (mem s) pb (xs @ map (file_byte s b) [k - q..<k - q + (4096 - q)])\<rparr>))"
proof -
  let ?r = "length xs" and ?i = "k div 4096"
  have L: "L < 4190208" using ok by (simp add: read_ok_def)
  have kL: "k \<le> L" using off r by (simp add: k_def)
  have w: "word_of_int (int ?r) + offset = (of_nat k :: u32)" by (simp add: k_def)
  have di: "unat ((of_nat k :: u32) div 4096) = ?i" "uint ((of_nat k :: u32) mod 4096) = int q"
    using u32_div_mod_4096 [of k] kL L by (simp_all add: q_def k_def [symmetric])
  have i: "?i \<le> L div 4096" using kL by (rule div_le_mono)
  have i2: "?i < 1023" using L kL by (simp add: div_less_iff_less_mult)
  have q: "q < 4096" "k = 4096 * ?i + q" by (simp_all add: q_def k_def)
  have num: "0 \<le> sint (ino_block b ?i)" "sint (ino_block b ?i) < sint (bb_data_count (boot_block s))"
    using ok i by (auto simp: read_ok_def)
  have blk: "phys True s buf n = Inr pb" "n < 4294967296" "phys False s (block_addr s b ?i) 4096 = Inr (block_addr s b ?i)"
    "disjoint_ranges (block_addr s b ?i) 4096 pb n"
    using ok i by (simp_all add: read_ok_def)
  have int32: "int32 (int n - int ?r + int q) = Inr (int n - int ?r + int q)"
    using off L r q by (simp add: int32_def)
  note un = read_round_def [of b offset buf "int n" "int ?r"]
  show ?thesis
  proof (cases "n - ?r + q < 4096")
    case True
    have "vmemcpy (buf + of_nat ?r) (block_addr s b ?i + of_nat q) (n - ?r) (s\<lparr>mem := wr (mem s) pb xs\<rparr>) =
        Inr (s\<lparr>mem := wr (mem s) pb (xs @ map (file_byte s b) [4096 * ?i + q..<4096 * ?i + q + (n - ?r)])\<rparr>)"
      using True r by (intro vmemcpy_block [OF blk]) auto
    moreover have "4096 * ?i + q + (n - ?r) = unat offset + n" "4096 * ?i + q = k"
      using q(2) r by (simp_all add: k_def)
    moreover have "nat (int n - int ?r) = n - ?r" "int n - int ?r + int q < 4096" using True r by simp_all
    ultimately show ?thesis
      using True r i2 num int32 unfolding un w by (simp add: di block_addr_def Let_def)
  next
    case False
    have "vmemcpy (buf + of_nat ?r) (block_addr s b ?i + of_nat 0) (4096 - q) (s\<lparr>mem := wr (mem s) pb xs\<rparr>) =
        Inr (s\<lparr>mem := wr (mem s) pb (xs @ map (file_byte s b) [4096 * ?i + 0..<4096 * ?i + 0 + (4096 - q)])\<rparr>)"
      using False r q(1) by (intro vmemcpy_block [OF blk]) auto
    moreover have "4096 * ?i = k - q" using q(2) by simp
    moreover have "nat (4096 - int q) = 4096 - q" "int ?r + (4096 - int q) = int (?r + (4096 - q))"
      using q(1) by simp_all
    moreover have "\<not> int n - int ?r + int q < 4096" "\<not> 4096 - int q > int n - int ?r"
      using False r by simp_all
    ultimately show ?thesis
      using False r i2 num int32 unfolding un w by (simp add: di block_addr_def Let_def del: of_nat_add)
  qed
qed

lemma read_data_round:
  assumes ok: "read_ok s b L buf pb n" and off: "unat offset + n \<le> L" and r: "length xs \<le> n"
  defines "k \<equiv> unat offset + length xs" and "q \<equiv> (unat offset + length xs) mod 4096"
  shows "read_data_loop b offset buf (int n) (int (length xs)) (s\<lparr>mem := wr (mem s) pb xs\<rparr>) =
    (if n - length xs + q < 4096
     then Inr (int n, s\<lparr>mem := wr (mem s) pb (xs @ map (file_byte s b) [k..<unat offset + n])\<rparr>)
     else read_data_loop b offset buf (int n) (int (length xs + (4096 - q)))
            (s\<lparr>mem := wr (mem s) pb (xs @ map (file_byte s b) [k - q..<k - q + (4096 - q)])\<rparr>))"
  using r read_round_eq [OF ok off r] unfolding k_def q_def
  by (subst read_data_loop_rounds) (simp del: of_nat_add)

lemma read_data_aligned:
  assumes ok: "read_ok s b L buf pb n" and off: "unat offset + n \<le> L"
  shows "length xs \<le> n \<Longrightarrow> (unat offset + length xs) mod 4096 = 0 \<Longrightarrow>
    read_data_loop b offset buf (int n) (int (length xs)) (s\<lparr>mem := wr (mem s) pb xs\<rparr>) =
      Inr (int n, s\<lparr>mem := wr (mem s) pb (xs @ map (file_byte s b) [unat offset + length xs..<unat offset + n])\<rparr>)"
proof (induction "n - length xs" arbitrary: xs rule: less_induct)
  case less
  note round = read_data_round [OF ok off less.prems(1)]
  show ?case
  proof (cases "n - length xs < 4096")
    case True
    with round less.prems show ?thesis by simp
  next
    case False
    let ?k = "unat offset + length xs"
    let ?ys = "xs @ map (file_byte s b) [?k..<?k + 4096]"
    have "read_data_loop b offset buf (int n) (int (length xs)) (s\<lparr>mem := wr (mem s) pb xs\<rparr>) =
        read_data_loop b offset buf (int n) (int (length ?ys)) (s\<lparr>mem := wr (mem s) pb ?ys\<rparr>)"
      using round False less.prems by simp
    also have "\<dots> = Inr (int n, s\<lparr>mem := wr (mem s) pb (?ys @ map (file_byte s b) [unat offset + length ?ys..<unat offset + n])\<rparr>)"
    proof (rule less.hyps)
      have "(unat offset + length ?ys) mod 4096 = (?k + 4096) mod 4096" by (simp add: add.assoc)
      also have "\<dots> = ?k mod 4096" by simp
      finally show "(unat offset + length ?ys) mod 4096 = 0" using less.prems by simp
    qed (use False in auto)
    also have "?ys @ map (file_byte s b) [unat offset + length ?ys..<unat offset + n] =
        xs @ map (file_byte s b) [?k..<unat offset + n]"
      using False upt_add_eq_append [of ?k "?k + 4096" "unat offset + n - (?k + 4096)"]
      by (simp add: add.assoc flip: map_append)
    finally show ?thesis .
  qed
qed

text \<open>The file positions the bytes of the buffer really come from.\<close>

definition source_positions :: "nat \<Rightarrow> nat \<Rightarrow> nat list" where
  "source_positions off n =
     (let q = off mod 4096
      in if q + n < 4096 then [off..<off + n]
         else [off - q..<off - q + (4096 - q)] @ [off + (4096 - q)..<off + n])"

lemma read_data_loop_exact:
  assumes ok: "read_ok s b L buf pb n" and off: "unat offset + n \<le> L"
  shows "read_data_loop b offset buf (int n) 0 s =
    Inr (int n, s\<lparr>mem := wr (mem s) pb (map (file_byte s b) (source_positions (unat offset) n))\<rparr>)"
proof -
  let ?q = "unat offset mod 4096"
  note round = read_data_round [OF ok off, of "[]", simplified]
  show ?thesis
  proof (cases "n + ?q < 4096")
    case True
    with round show ?thesis by (simp add: source_positions_def add.commute)
  next
    case False
    let ?ys = "map (file_byte s b) [unat offset - ?q..<unat offset - ?q + (4096 - ?q)]"
    have q: "?q < 4096" by simp
    have "read_data_loop b offset buf (int n) 0 s =
        read_data_loop b offset buf (int n) (int (length ?ys)) (s\<lparr>mem := wr (mem s) pb ?ys\<rparr>)"
      using round False q by (simp add: of_nat_diff)
    also have "\<dots> = Inr (int n, s\<lparr>mem := wr (mem s) pb (?ys @ map (file_byte s b) [unat offset + length ?ys..<unat offset + n])\<rparr>)"
    proof (rule read_data_aligned [OF ok off])
      have "unat offset + (4096 - ?q) = 4096 * (unat offset div 4096) + 4096"
        using q mult_div_mod_eq [of 4096 "unat offset"] by linarith
      then show "(unat offset + length ?ys) mod 4096 = 0" by simp
    qed (use False q in simp)
    finally show ?thesis using False by (simp add: source_positions_def Let_def)
  qed
qed

lemma source_positions_ok:
  "off mod 4096 = 0 \<or> off mod 4096 + n < 4096 \<Longrightarrow> source_positions off n = [off..<off + n]"
  using upt_add_eq_append [of off "off + 4096" "n - 4096"]
  by (auto simp: source_positions_def Let_def add.assoc)

lemma read_left_length:
  assumes "unat offset \<le> unat (ino_length b)" and "unat len + unat offset < 4294967296" and "n = min (unat len) (unat (ino_length b) - unat offset)"
    and "n < 2147483648"
  shows "sint (if len + offset > ino_length b then ino_length b - offset else len) = int n"
proof -
  have "unat (len + offset) = unat len + unat offset"
    using assms(2) by (simp add: unat_word_ariths)
  then have "unat (if len + offset > ino_length b then ino_length b - offset else len) = n"
    using assms(1,3) by (auto simp: word_less_nat_alt unat_sub word_le_nat_alt)
  then show ?thesis using assms(4) by (simp only: sint_small)
qed

lemma read_data_exact:
  assumes "vload s (inode_addr s + inode * 4096) 4096 = Inr b" and "len \<noteq> 0" and "buf \<noteq> 0"
    and "unat offset \<le> L" and "unat len + unat offset < 4294967296"
    and L_def: "L = unat (ino_length b)" and n_def: "n = min (unat len) (L - unat offset)"
    and ok: "read_ok s b L buf pb n"
  shows "read_data inode offset buf len s =
    Inr (int n, s\<lparr>mem := wr (mem s) pb (map (file_byte s b) (source_positions (unat offset) n))\<rparr>)"
proof -
  have L: "L < 4190208" using ok by (simp add: read_ok_def)
  have "n < 2147483648" using L unfolding n_def L_def by simp
  then have left: "sint (if len + offset > ino_length b then ino_length b - offset else len) = int n"
    using assms(4,5) unfolding L_def n_def by (intro read_left_length) simp_all
  have "\<not> offset > ino_length b" using assms(4) by (simp add: L_def word_less_nat_alt)
  then have "read_data inode offset buf len s = read_data_loop b offset buf (int n) 0 s"
    using assms(1-3) left by (simp add: read_data_def Let_def)
  moreover have "unat offset + n \<le> L" using assms(4) by (simp add: n_def L_def)
  ultimately show ?thesis using read_data_loop_exact [OF ok] by simp
qed

section \<open>Reads that fail\<close>

text \<open>A read of nothing, to the null pointer or from behind the end of the file returns -1 and touches nothing.\<close>

lemma read_data_refuses:
  assumes "vload s (inode_addr s + inode * 4096) 4096 = Inr b" and "len = 0 \<or> buf = 0 \<or> offset > ino_length b"
  shows "read_data inode offset buf len s = Inr (-1, s)"
  using assms by (auto simp: read_data_def)

text \<open>
  Files with a block number that is out of range: the blocks before block \<open>j\<close> are sound and the buffer has room for them, block \<open>j\<close> is
  not a block of the image. A read that gets there has stored the blocks before and returns -1.
\<close>

definition bad_from :: "'a fs_scheme \<Rightarrow> u8 list \<Rightarrow> nat \<Rightarrow> u32 \<Rightarrow> u32 \<Rightarrow> bool" where
  "bad_from s b j buf pb \<longleftrightarrow> j < 1023 \<and> phys True s buf (4096 * j) = Inr pb \<and>
     (\<forall>i < j. 0 \<le> sint (ino_block b i) \<and> sint (ino_block b i) < sint (bb_data_count (boot_block s)) \<and>
        phys False s (block_addr s b i) 4096 = Inr (block_addr s b i) \<and> disjoint_ranges (block_addr s b i) 4096 pb (4096 * j)) \<and>
     (sint (ino_block b j) < 0 \<or> sint (bb_data_count (boot_block s)) \<le> sint (ino_block b j))"

lemma read_data_loop_bad:
  assumes bad: "bad_from s b j buf pb" and n: "4096 * j \<le> n" "n < 2147483648"
  shows "k \<le> j \<Longrightarrow> length xs = 4096 * k \<Longrightarrow> read_data_loop b 0 buf (int n) (int (length xs)) (s\<lparr>mem := wr (mem s) pb xs\<rparr>) =
    Inr (-1, s\<lparr>mem := wr (mem s) pb (xs @ map (file_byte s b) [4096 * k..<4096 * j])\<rparr>)"
proof (induction "j - k" arbitrary: k xs)
  case 0
  then have k: "k = j" by simp
  have j: "j < 1023" and num: "sint (ino_block b j) < 0 \<or> sint (bb_data_count (boot_block s)) \<le> sint (ino_block b j)"
    using bad by (simp_all add: bad_from_def)
  have "unat ((of_nat (4096 * j) :: u32) div 4096) = j" using u32_div_mod_4096(1) [of "4096 * j"] j by simp
  then show ?case
    using 0(3) n num j unfolding k read_data_loop.simps [of b 0 buf "int n" "int (length xs)"] by (auto simp: Let_def)
next
  case (Suc d)
  then have k: "k < j" by simp
  have j: "j < 1023" and num: "0 \<le> sint (ino_block b k)" "sint (ino_block b k) < sint (bb_data_count (boot_block s))"
    and blk: "phys True s buf (4096 * j) = Inr pb" "phys False s (block_addr s b k) 4096 = Inr (block_addr s b k)"
      "disjoint_ranges (block_addr s b k) 4096 pb (4096 * j)"
    using bad k by (auto simp: bad_from_def)
  have m: "4096 * j < 4294967296" using j by simp
  have di: "unat ((of_nat (length xs) :: u32) div 4096) = k" "uint ((of_nat (length xs) :: u32) mod 4096) = 0"
    using u32_div_mod_4096 [of "4096 * k"] k m Suc.prems(2) by simp_all
  let ?ys = "xs @ map (file_byte s b) [4096 * k..<4096 * k + 4096]"
  have "vmemcpy (buf + of_nat (length xs)) (block_addr s b k + of_nat 0) 4096 (s\<lparr>mem := wr (mem s) pb xs\<rparr>) =
      Inr (s\<lparr>mem := wr (mem s) pb (xs @ map (file_byte s b) [4096 * k + 0..<4096 * k + 0 + 4096])\<rparr>)"
    using k Suc.prems(2) by (intro vmemcpy_block [OF blk(1) m blk(2,3)]) auto
  moreover have "int32 (int n - int (length xs) + 0) = Inr (int n - int (length xs))" "\<not> int n - int (length xs) < 4096"
    "\<not> 4096 > int n - int (length xs)" "k < 1023"
    using n k j Suc.prems(2) by (simp_all add: int32_def)
  ultimately have "read_data_loop b 0 buf (int n) (int (length xs)) (s\<lparr>mem := wr (mem s) pb xs\<rparr>) =
      read_data_loop b 0 buf (int n) (int (length ?ys)) (s\<lparr>mem := wr (mem s) pb ?ys\<rparr>)"
    using num unfolding read_data_loop.simps [of b 0 buf "int n" "int (length xs)"] by (simp add: di block_addr_def Let_def)
  also have "\<dots> = Inr (-1, s\<lparr>mem := wr (mem s) pb (?ys @ map (file_byte s b) [4096 * Suc k..<4096 * j])\<rparr>)"
    using Suc.hyps(2) k Suc.prems(2) by (intro Suc.hyps(1)) auto
  also have "?ys @ map (file_byte s b) [4096 * Suc k..<4096 * j] = xs @ map (file_byte s b) [4096 * k..<4096 * j]"
    using k upt_add_eq_append [of "4096 * k" "4096 * k + 4096" "4096 * j - (4096 * k + 4096)"] by (simp add: add.commute flip: map_append)
  finally show ?case .
qed

lemma read_data_bad_block:
  assumes "vload s (inode_addr s + inode * 4096) 4096 = Inr b" and "len \<noteq> 0" and "buf \<noteq> 0"
    and "n = min (unat len) (unat (ino_length b))" and "4096 * j \<le> n" and "n < 2147483648" and "bad_from s b j buf pb"
  shows "read_data inode 0 buf len s = Inr (-1, s\<lparr>mem := wr (mem s) pb (map (file_byte s b) [0..<4096 * j])\<rparr>)"
proof -
  have "unat (if len > ino_length b then ino_length b else len) = n"
    using assms(4) by (auto simp: word_less_nat_alt)
  then have "sint (if len > ino_length b then ino_length b else len) = int n" using assms(6) by (simp only: sint_small)
  then have "read_data inode 0 buf len s = read_data_loop b 0 buf (int n) 0 s"
    using assms(1-3) by (auto simp: read_data_def Let_def split: if_splits)
  then show ?thesis using read_data_loop_bad [OF assms(7,5,6), of 0 "[]"] by simp
qed

section \<open>An image for the witnesses\<close>

text \<open>One directory entry, one file of 5000 bytes in two blocks, filled with \<^verbatim>\<open>A\<close> and \<^verbatim>\<open>B\<close>.\<close>

definition image_mem :: mem where
  "image_mem a =
     (if a = 0x501000 then 0x88 else if a = 0x501001 then 0x13 else if a = 0x501008 then 1
      else if 0x502000 \<le> a \<and> a < 0x503000 then 65
      else if 0x503000 \<le> a \<and> a < 0x504000 then 66 else 0)"

definition image_boot_block :: "u8 list" where
  "image_boot_block = [1, 0, 0, 0, 1, 0, 0, 0, 2, 0, 0, 0] @ replicate 52 0 @
     (bytes ''shell'' @ replicate 27 0 @ [2, 0, 0, 0] @ replicate 28 0) @ replicate 3968 0"

definition reset_fs :: fs where
  "reset_fs = \<lparr>mem = image_mem, io_log = [], device = \<lambda>_ _. 0,
     sym = \<lambda>f. if f = Sym_page_table then 0x402000 else if f = Sym_vid_page_table then 0x403000 else 0x401000,
     iflag = True, master_mask = 0xff, slave_mask = 0xff, addr_reg = 0, screen_x = 0, screen_y = 0, idt = [],
     page_directory = (replicate 1024 2)[0 := 0x402003, 1 := 0x400083],
     page_table = (replicate 1024 2)[0xB8 := 0xB8003], vid_page_table = replicate 1024 0,
     cr0 = 0x80000001, cr3 = 0x401000, cr4 = 0x10, next_interrupt = 0,
     dentry_global = replicate 64 0, boot_block = image_boot_block, inode_addr = 0x501000,
     boot_block_addr = 0x500000, data_block_addr = 0x502000, dir_count = 0\<rparr>"

lemma reset_fs_mapped: "kernel_mapped reset_fs"
  using kernel_mapped_setup [OF reset_tables_ok]
  by (rule kernel_mapped_cong [rotated 4]) (simp_all only: kernel_tables, simp_all add: reset_fs_def)

lemma reset_fs_fields [simp]:
  "mem reset_fs = image_mem" "boot_block reset_fs = image_boot_block" "inode_addr reset_fs = 0x501000"
  "data_block_addr reset_fs = 0x502000" "dir_count reset_fs = 0"
  by (simp_all add: reset_fs_def)

lemma image_boot_block_length [simp]: "length image_boot_block = 4096"
  by (simp add: image_boot_block_def bytes_def)

lemma image_counts [simp]: "bb_data_count image_boot_block = 2" "bb_dir_count image_boot_block = 1"
  by (simp_all add: bb_data_count_def bb_dir_count_def image_boot_block_def le32_def)

definition image_inode :: "u8 list" where
  "image_inode = rd image_mem 0x501000 4096"

lemma image_inode_load: "vload reset_fs 0x501000 4096 = Inr image_inode"
  by (simp add: vload_def phys_kernel [OF reset_fs_mapped] image_inode_def)

lemma image_inode_fields:
  "ino_length image_inode = 5000" "ino_block image_inode 0 = 0" "ino_block image_inode 1 = 1"
  by (simp_all add: ino_length_def ino_block_def image_inode_def take_rd drop_rd le32_def image_mem_def)

lemma image_read_ok:
  assumes "n \<le> 5000"
  shows "read_ok reset_fs image_inode 5000 0x600000 0x600000 n"
  unfolding read_ok_def
proof (intro conjI allI impI)
  show "phys True reset_fs 0x600000 n = Inr 0x600000"
    using assms by (intro phys_kernel [OF reset_fs_mapped]) simp_all
  fix i assume "i \<le> 5000 div (4096 :: nat)"
  then have "i = 0 \<or> i = 1" by auto
  then show "0 \<le> sint (ino_block image_inode i)"
    "sint (ino_block image_inode i) < sint (bb_data_count (boot_block reset_fs))"
    "phys False reset_fs (block_addr reset_fs image_inode i) 4096 = Inr (block_addr reset_fs image_inode i)"
    "disjoint_ranges (block_addr reset_fs image_inode i) 4096 0x600000 n"
    using image_inode_fields assms
    by (auto simp: block_addr_def phys_kernel [OF reset_fs_mapped] intro!: disjoint_ranges_apart)
qed (use assms in simp_all)

section \<open>Properties\<close>



text \<open>
  Property C33: from a position inside a block, a read that reaches the end of that block returns the right count but the
  wrong bytes: what it puts first into the buffer is the start of the block, not the bytes from the
  position on; only the bytes from the next block on are the right ones.
\<close>

theorem read_data_skewed:
  assumes "vload s (inode_addr s + inode * 4096) 4096 = Inr b" and "len \<noteq> 0" and "buf \<noteq> 0"
    and "unat offset \<le> L" and "unat len + unat offset < 4294967296"
    and "L = unat (ino_length b)" and "n = min (unat len) (L - unat offset)" and "read_ok s b L buf pb n"
    and "q = unat offset mod 4096" and "4096 \<le> q + n"
  shows "read_data inode offset buf len s =
    Inr (int n, s\<lparr>mem := wr (mem s) pb (map (file_byte s b)
      ([unat offset - q..<unat offset - q + (4096 - q)] @ [unat offset + (4096 - q)..<unat offset + n]))\<rparr>)"
  using read_data_exact [OF assms(1-8)] assms(9,10) by (simp add: source_positions_def Let_def)

theorem read_data_skewed_witness:
  "read_data 0 4000 0x600000 1000 reset_fs = Inr (int 1000, reset_fs\<lparr>mem := wr (mem reset_fs) 0x600000
     (map (file_byte reset_fs image_inode)
       ([unat (4000 :: u32) - 4000..<unat (4000 :: u32) - 4000 + (4096 - 4000)] @
        [unat (4000 :: u32) + (4096 - 4000)..<unat (4000 :: u32) + 1000]))\<rparr>)"
  by (rule read_data_skewed [where L = 5000])
    (use image_inode_load image_inode_fields image_read_ok [of 1000] in simp_all)

text \<open>
  Property C32: looking a name up returns the first of the 63 directory entries whose name, cut at 32
  characters, is the name given, cut likewise, and -1 when there is none; the lookup never runs off an array.
\<close>

theorem dentry_lookup:
  assumes "length (boot_block s) = 4096" and "\<not> is_null fname" and "vstrlen s fname = Inr k" and "0 < k"
  shows "read_dentry_by_name fname s =
    Inr (case find (\<lambda>i. entry_name (boot_block s) i = arg_name s fname) [0..<63] of
           None \<Rightarrow> (-1, None) | Some i \<Rightarrow> (0, Some (direntries (boot_block s) i)))"
  using assms by (rule read_dentry_by_name_eq)

theorem dentry_lookup_witness:
  "read_dentry_by_name (lit ''shell'') reset_fs = Inr (0, Some (direntries image_boot_block 0))"
proof -
  have len: "vstrlen reset_fs (lit ''shell'') = Inr 5"
    using strlen_Obj [of "bytes ''shell''" "vview reset_fs" "[]"]
    by (simp add: vstrlen_def vmapped_def lit_def bytes_def)
  have "arg_name reset_fs (lit ''shell'') = bytes ''shell''"
    by (simp add: arg_name_def cut_def char_of_arg_def lit_def bytes_def upt_rec)
  moreover have "entry_name image_boot_block 0 = bytes ''shell''"
    by (simp add: entry_name_def de_filename_def direntries_def image_boot_block_def bytes_def)
  ultimately show ?thesis
    using dentry_lookup [OF _ _ len] by (simp add: is_null_def lit_def upt_conv_Cons)
qed

text \<open>
  Property C31: reading the directory from its start lists it: the reads return the entries' names in order, each with its
  length and padded with null bytes to 32 characters, and the read after the last entry returns 0 and starts over. The
  requested count plays no role: every read stores 32 bytes.
\<close>

theorem dir_reads_list_directory:
  assumes "length (boot_block s) = 4096" and "unat (bb_dir_count (boot_block s)) = N" and "N < 63"
    and "\<forall>i \<le> N. 0 \<in> set (direntries (boot_block s) i)" and "dir_count s = 0" and "phys True s buf 32 = Inr pb"
  shows "\<exists>s'. dir_reads (Suc N) buf s =
    Inr (map (\<lambda>i. (int (length (entry_name (boot_block s) i)), padded_name (boot_block s) i)) [0..<N] @
         [(0, padded_name (boot_block s) N)], s') \<and> dir_count s' = 0"
  using dir_reads_from [OF assms(2,3,1,4) refl, of 0 buf pb] assms(5,6) by simp

theorem dir_reads_list_directory_witness:
  "\<exists>s' last. dir_reads 2 0x600000 reset_fs =
     Inr ([(5, bytes ''shell'' @ replicate 27 0), (0, last)], s')"
proof -
  have e0: "entry_name image_boot_block 0 = bytes ''shell''"
    by (simp add: entry_name_def de_filename_def direntries_def image_boot_block_def bytes_def)
  have "i \<le> 1 \<Longrightarrow> 0 \<in> set (direntries image_boot_block i)" for i
    by (cases i) (simp_all add: direntries_def image_boot_block_def bytes_def)
  moreover have "phys True reset_fs 0x600000 32 = Inr 0x600000"
    by (rule phys_kernel [OF reset_fs_mapped]) simp_all
  ultimately show ?thesis
    using dir_reads_list_directory [of reset_fs 1 "0x600000" "0x600000"] e0
    by (auto simp: padded_name_def bytes_def numeral_2_eq_2)
qed

end
