(* ===== verification/Terminal.thy ===== *)
theory Terminal
  imports Filesystem
begin

text \<open>
  The three virtual terminals: \<^verbatim>\<open>term_t\<close> of \<^verbatim>\<open>dev_term.h\<close>, the array of terminals and the flags of \<^verbatim>\<open>dev_kbd.c\<close>,
  and \<^verbatim>\<open>save_term\<close>, \<^verbatim>\<open>switch_term\<close>, \<^verbatim>\<open>term_open\<close>, \<^verbatim>\<open>term_close\<close> of \<^verbatim>\<open>dev_term.c\<close>. (\<^verbatim>\<open>term_read\<close> and
  \<^verbatim>\<open>term_write\<close> are in the theory \<open>Keyboard\<close>.) The text page at \<open>0xB8000\<close> is mapped to itself, so the loops over it
  access \<open>mem\<close> directly.
\<close>

section \<open>Definitions\<close>

abbreviation (input) KBD_BUF_SIZE :: nat where "KBD_BUF_SIZE \<equiv> 128"
abbreviation (input) VID_MEM_SIZE :: nat where "VID_MEM_SIZE \<equiv> 4096"

record term_t =
  kbd_line_cnt :: u8
  kbd_line_buf :: "u8 list"
  kbd_out_buf :: "u8 list"
  kbd_ready :: u8
  vid_buf :: "u8 list"
  activated :: u8
  cursor_x :: int
  cursor_y :: int
  term_id :: int
  term_in_use_flag :: int
  term_pcb :: u32
  num_program :: int

record kbd = fs +
  shift_flag :: u8
  caps_flag :: u8
  ctrl_flag :: u8
  alt_flag :: u8
  term_flag :: u8
  term_arr :: "term_t list"

definition term_open :: "cptr \<Rightarrow> int" where
  "term_open filename = 0"

definition term_close :: "int \<Rightarrow> int" where
  "term_close fd = 0"

text \<open>The copy loops stop after the first null byte.\<close>

function save_loop :: "mem \<Rightarrow> u8 list \<Rightarrow> nat \<Rightarrow> u8 list" where
  "save_loop m buf i =
     (if i < VID_MEM_SIZE
      then let buf = buf[i := m (VMEM + of_nat i)] in if buf ! i = 0 then buf else save_loop m buf (Suc i)
      else buf)"
  by pat_completeness auto
termination
  by (relation "measure (\<lambda>(m, buf, i). 4096 - i)") auto

declare save_loop.simps [simp del]

definition save_term :: "term_t \<Rightarrow> 'a kbd_scheme \<Rightarrow> term_t" where
  "save_term curr_term s =
     (let t = curr_term\<lparr>cursor_x := get_screen_x s\<rparr>;
          t = t\<lparr>cursor_y := get_screen_y s\<rparr>;
          t = t\<lparr>vid_buf := replicate VID_MEM_SIZE 0\<rparr>
      in t\<lparr>vid_buf := save_loop (mem s) (vid_buf t) 0\<rparr>)"

function restore_loop :: "u8 list \<Rightarrow> nat \<Rightarrow> mem \<Rightarrow> mem" where
  "restore_loop buf i m =
     (if i < VID_MEM_SIZE
      then let m = m(VMEM + of_nat i := buf ! i) in if buf ! i = 0 then m else restore_loop buf (Suc i) m
      else m)"
  by pat_completeness auto
termination
  by (relation "measure (\<lambda>(buf, i, m). 4096 - i)") auto

declare restore_loop.simps [simp del]

definition switch_term :: "term_t \<Rightarrow> 'a kbd_scheme \<Rightarrow> (term_t \<times> 'a kbd_scheme) res" where
  "switch_term next_term s =
     rbind (clear_screen s) (\<lambda>s.
       let t = (if activated next_term = 0 then next_term\<lparr>activated := 1\<rparr> else next_term);
           s = set_screen_xy (cursor_x t) (cursor_y t) s;
           s = set_cursor_loc (word_of_int (cursor_x t + cursor_y t * 80)) s
       in Inr (t, s\<lparr>mem := restore_loop (vid_buf t) 0 (mem s)\<rparr>))"

section \<open>The copy loops\<close>

text \<open>What the loops copy: everything up to the first null byte, and that byte.\<close>

lemma save_loop_eq:
  assumes "length buf = 4096"
  shows "i \<le> 4096 \<Longrightarrow> save_loop m buf i =
    take i buf @ (let xs = takeWhile (\<lambda>c. c \<noteq> 0) (rd m (VMEM + of_nat i) (4096 - i));
                      ys = drop (i + length xs) buf
                  in xs @ (if ys = [] then [] else 0 # tl ys))"
  using assms
proof (induction m buf i rule: save_loop.induct)
  case (1 m buf i)
  show ?case
  proof (cases "i < 4096")
    case False
    with 1 show ?thesis by (simp add: save_loop.simps)
  next
    case True
    let ?v = "m (VMEM + of_nat i)"
    have rd: "rd m (VMEM + of_nat i) (4096 - i) = ?v # rd m (VMEM + of_nat (Suc i)) (4096 - Suc i)"
    proof -
      have "4096 - i = Suc (4096 - Suc i)" using True by simp
      then show ?thesis using rd_Suc [of m "VMEM + of_nat i" "4096 - Suc i"] by (simp add: algebra_simps)
    qed
    have nth: "buf[i := ?v] ! i = ?v" using True 1 by simp
    show ?thesis
    proof (cases "?v = 0")
      case True
      then show ?thesis
        using \<open>i < 4096\<close> "1.prems" nth rd
        by (simp add: save_loop.simps [of m buf i] upd_conv_take_nth_drop Let_def tl_drop [symmetric] drop_Suc)
    next
      case False
      have "save_loop m buf i = save_loop m (buf[i := ?v]) (Suc i)"
        using True False nth by (simp add: save_loop.simps [of m buf i])
      also have "\<dots> = take (Suc i) (buf[i := ?v]) @ (let xs = takeWhile (\<lambda>c. c \<noteq> 0) (rd m (VMEM + of_nat (Suc i)) (4096 - Suc i));
                      ys = drop (Suc i + length xs) (buf[i := ?v])
                  in xs @ (if ys = [] then [] else 0 # tl ys))"
        using True False nth "1.prems" by (intro "1.IH") auto
      finally show ?thesis
        using True False "1.prems" rd by (simp add: take_Suc_conv_app_nth Let_def)
    qed
  qed
qed

lemma saved_vid_buf:
  "vid_buf (save_term t s) =
     (let xs = takeWhile (\<lambda>c. c \<noteq> 0) (rd (mem s) VMEM 4096) in xs @ replicate (4096 - length xs) 0)"
proof -
  let ?xs = "takeWhile (\<lambda>c. c \<noteq> 0) (rd (mem s) VMEM 4096)"
  have len: "length ?xs \<le> 4096" using length_takeWhile_le [of _ "rd (mem s) VMEM 4096"] by simp
  have "vid_buf (save_term t s) = save_loop (mem s) (replicate 4096 0) 0" by (simp add: save_term_def Let_def)
  also have "\<dots> = ?xs @ (let ys = replicate (4096 - length ?xs) 0 in if ys = [] then [] else 0 # tl ys)"
    by (subst save_loop_eq) (simp_all add: Let_def)
  also have "(let ys = replicate (4096 - length ?xs) (0 :: u8) in if ys = [] then [] else 0 # tl ys) =
      replicate (4096 - length ?xs) 0"
    by (cases "4096 - length ?xs") (simp_all add: Let_def)
  finally show ?thesis by (simp add: Let_def)
qed

lemma restore_loop_eq:
  assumes "length buf = 4096"
  shows "i \<le> 4096 \<Longrightarrow> restore_loop buf i m =
    wr m (VMEM + of_nat i) (let xs = takeWhile (\<lambda>c. c \<noteq> 0) (drop i buf)
                            in if i + length xs < 4096 then xs @ [0] else xs)"
  using assms
proof (induction buf i m rule: restore_loop.induct)
  case (1 buf i m)
  show ?case
  proof (cases "i < 4096")
    case False
    then have "drop i buf = []" using "1.prems"(2) by simp
    with False show ?thesis by (simp add: restore_loop.simps Let_def)
  next
    case True
    then have d: "drop i buf = buf ! i # drop (Suc i) buf" using "1.prems" by (simp add: Cons_nth_drop_Suc)
    show ?thesis
    proof (cases "buf ! i = 0")
      case True
      then show ?thesis using \<open>i < 4096\<close> d by (simp add: restore_loop.simps [of buf i] wr_single)
    next
      case False
      let ?xs = "takeWhile (\<lambda>c. c \<noteq> 0) (drop (Suc i) buf)"
      have short: "length ?xs \<le> 4096" using length_takeWhile_le [of _ "drop (Suc i) buf"] "1.prems"
        by (metis diff_le_self le_trans length_drop)
      have "restore_loop buf i m = restore_loop buf (Suc i) (m(VMEM + of_nat i := buf ! i))"
        using True False by (simp add: restore_loop.simps [of buf i])
      also have "\<dots> = wr (m(VMEM + of_nat i := buf ! i)) (VMEM + of_nat (Suc i))
          (let xs = ?xs in if Suc i + length xs < 4096 then xs @ [0] else xs)"
        using True False "1.prems" by (intro "1.IH") auto
      finally show ?thesis
        using True False d short wr_Cons [of "?xs @ [0]" m "VMEM + of_nat i" "buf ! i"]
          wr_Cons [of ?xs m "VMEM + of_nat i" "buf ! i"]
        by (auto simp: Let_def algebra_simps)
    qed
  qed
qed

section \<open>Saving and restoring\<close>

lemma takeWhile_pad: "length xs \<le> n \<Longrightarrow> 0 \<notin> set xs \<Longrightarrow>
  takeWhile (\<lambda>c. c \<noteq> 0) (xs @ replicate (n - length xs) 0) = xs"
  by (subst takeWhile_append2) (auto simp: takeWhile_replicate)

lemma restored_memory:
  assumes "\<forall>k < 4000. m (VMEM + of_nat k) \<noteq> 0" and "xs = takeWhile (\<lambda>c. c \<noteq> 0) (rd m VMEM 4096)" and "k < 4000"
  shows "restore_loop (xs @ replicate (4096 - length xs) 0) 0 m' (VMEM + of_nat k) = m (VMEM + of_nat k)"
proof -
  let ?ys = "if length xs < 4096 then xs @ [0] else xs"
  have len: "length xs \<le> 4096" unfolding assms(2) using length_takeWhile_le [of _ "rd m VMEM 4096"] by simp
  have nz: "0 \<notin> set xs" unfolding assms(2) by (auto dest: set_takeWhileD)
  have k: "k < length xs"
  proof (rule ccontr)
    assume "\<not> k < length xs"
    then have "length xs < 4000" using assms(3) by simp
    then have "rd m VMEM 4096 ! length xs = 0"
      unfolding assms(2) using nth_length_takeWhile [of "\<lambda>c. c \<noteq> 0" "rd m VMEM 4096"] by simp
    with \<open>length xs < 4000\<close> assms(1) show False by simp
  qed
  have "restore_loop (xs @ replicate (4096 - length xs) 0) 0 m' = wr m' VMEM ?ys"
    using len by (subst restore_loop_eq) (simp_all add: takeWhile_pad [OF len nz] Let_def)
  moreover have "wr m' VMEM ?ys (VMEM + of_nat k) = ?ys ! k" using k len by (intro wr_inside) auto
  moreover have "?ys ! k = xs ! k" using k by (simp add: nth_append)
  moreover have "xs ! k = m (VMEM + of_nat k)"
    using k len unfolding assms(2) by (subst takeWhile_nth) simp_all
  ultimately show ?thesis by simp
qed

lemma u16_loc: "0 \<le> l \<Longrightarrow> l < 2000 \<Longrightarrow> int (unat (word_of_int l :: u16)) = l"
  by (simp add: of_nat_nat take_bit_int_eq_self_iff unsigned_of_int)

lemma screen_rows_cong:
  "(\<And>k. k < 4000 \<Longrightarrow> m (VIDEO + of_nat k) = m' (VIDEO + of_nat k)) \<Longrightarrow> screen_rows m = screen_rows m'"
  unfolding screen_rows_def char_at_def cell_addr_nat
proof (intro map_cong refl)
  fix r c assume *: "\<And>k. k < 4000 \<Longrightarrow> m (VIDEO + of_nat k) = m' (VIDEO + of_nat k)"
    and "r \<in> set [0..<25]" "c \<in> set [0..<80]"
  then have "2 * (80 * r + c) < 4000" by auto
  then show "m (VIDEO + of_nat (2 * (80 * r + c))) = m' (VIDEO + of_nat (2 * (80 * r + c)))" by (rule *)
qed

section \<open>Properties\<close>


definition reset_term :: term_t where
  "reset_term = \<lparr>kbd_line_cnt = 0, kbd_line_buf = replicate 128 0, kbd_out_buf = replicate 128 0, kbd_ready = 0,
     vid_buf = replicate 4096 0, activated = 0, cursor_x = 0, cursor_y = 0, term_id = 0, term_in_use_flag = 0, term_pcb = 0, num_program = 0\<rparr>"

definition reset_kbd :: kbd where
  "reset_kbd = fs.extend (reset_fs\<lparr>mem := \<lambda>_. 32\<rparr>)
     \<lparr>shift_flag = 0, caps_flag = 0, ctrl_flag = 0, alt_flag = 0, term_flag = 0, term_arr = replicate 3 reset_term\<rparr>"

lemma reset_kbd_fields:
  "mem reset_kbd = (\<lambda>_. 32)" "screen_x reset_kbd = 0" "screen_y reset_kbd = 0" "term_flag reset_kbd = 0"
  "term_arr reset_kbd = replicate 3 reset_term" "boot_block reset_kbd = image_boot_block"
  by (simp_all add: reset_kbd_def fs.defs reset_fs_def)


end
