(* ===== verification/Keyboard.thy ===== *)
theory Keyboard
  imports Terminal
begin

text \<open>
  The keyboard driver, \<^verbatim>\<open>dev_kbd.c\<close>, and the terminal's \<^verbatim>\<open>term_read\<close> and \<^verbatim>\<open>term_write\<close> of \<^verbatim>\<open>dev_term.c\<close>: scancode
  decoding with the modifier keys and terminal switching, the line discipline (\<^verbatim>\<open>insert_op\<close>, \<^verbatim>\<open>remove_op\<close>), the interrupt
  handler, and reading a line. (\<^verbatim>\<open>kbd_init\<close> starts the first shell and is in the theory \<open>Syscalls\<close>.)

  The specification of the line discipline is a pair of lists, the line being typed and the line ready to be
  read; \<open>line_abs\<close> abstracts the buffers of a terminal to it, under the invariant \<open>term_ok\<close>.
\<close>

section \<open>Scancode tables\<close>

definition key_tail :: "u8 list" where
  "key_tail = [0, 32, 0, 0, 0, 0, 1, 1, 1, 1, 1, 1, 1, 1, 1, 1, 1, 1, 45, 1, 1, 1, 43,
     1, 1, 1, 1, 1, 1, 1, 1, 1, 1, 1] @ replicate 38 0"

definition lower_char_table :: "u8 list" where
  "lower_char_table = [0, 27] @ bytes ''1234567890-='' @ [8, 9] @ bytes ''qwertyuiop[]'' @ [10, 0] @
     bytes ''asdfghjkl;'' @ [39, 96, 0, 92] @ bytes ''zxcvbnm,./'' @ [0, 42] @ key_tail"

definition upper_char_table :: "u8 list" where
  "upper_char_table = [0, 27] @ bytes ''1234567890-='' @ [8, 9] @ bytes ''QWERTYUIOP[]'' @ [10, 0] @
     bytes ''ASDFGHJKL;'' @ [39, 96, 0, 92] @ bytes ''ZXCVBNM,./'' @ [0, 42] @ key_tail"

definition lowshift_char_table :: "u8 list" where
  "lowshift_char_table = [0, 27] @ bytes ''!@#$%^&*()_+'' @ [8, 9] @ bytes ''qwertyuiop{}'' @ [10, 0] @
     bytes ''asdfghjkl:'' @ [34, 126, 0, 124] @ bytes ''zxcvbnm<>?'' @ [0, 42] @ key_tail"

definition upshift_char_table :: "u8 list" where
  "upshift_char_table = [0, 27] @ bytes ''!@#$%^&*()_+'' @ [8, 9] @ bytes ''QWERTYUIOP{}'' @ [10, 0] @
     bytes ''ASDFGHJKL:'' @ [34, 126, 0, 124] @ bytes ''ZXCVBNM<>?'' @ [0, 42] @ key_tail"

section \<open>Operations\<close>

definition cur_term :: "'a kbd_scheme \<Rightarrow> term_t" where
  "cur_term s = term_arr s ! unat (term_flag s)"

definition upd_term :: "(term_t \<Rightarrow> term_t) \<Rightarrow> 'a kbd_scheme \<Rightarrow> 'a kbd_scheme" where
  "upd_term f s = s\<lparr>term_arr := (term_arr s)[unat (term_flag s) := f (cur_term s)]\<rparr>"

definition is_kbd_ready :: "'a kbd_scheme \<Rightarrow> u8" where
  "is_kbd_ready s = kbd_ready (cur_term s)"

definition unset_kbd_ready :: "'a kbd_scheme \<Rightarrow> 'a kbd_scheme" where
  "unset_kbd_ready s = upd_term (\<lambda>t. t\<lparr>kbd_ready := 0\<rparr>) s"

definition get_kbd_buf :: "'a kbd_scheme \<Rightarrow> u8 list" where
  "get_kbd_buf s = kbd_out_buf (cur_term s)"

definition get_term_pcb :: "u8 \<Rightarrow> 'a kbd_scheme \<Rightarrow> u32 res" where
  "get_term_pcb next_term s =
     (if unat next_term < length (term_arr s) then Inr (term_pcb (term_arr s ! unat next_term)) else Inl OutOfBounds)"

definition remove_op :: "'a kbd_scheme \<Rightarrow> 'a kbd_scheme res" where
  "remove_op s =
     (let s = upd_term (\<lambda>t. t\<lparr>kbd_ready := 0\<rparr>) s
      in if kbd_line_cnt (cur_term s) > 0
         then let s = upd_term (\<lambda>t. t\<lparr>kbd_line_cnt := kbd_line_cnt t - 1\<rparr>) s;
                  t = cur_term s
              in rbind (bset (kbd_line_buf t) (unat (kbd_line_cnt t)) 10) (\<lambda>b.
                   let s = upd_term (\<lambda>t. t\<lparr>kbd_line_buf := b\<rparr>) s;
                       s = erase_char s
                   in Inr (set_cursor_loc (word_of_int (get_screen_loc s)) s))
         else Inr s)"

definition insert_op :: "u8 \<Rightarrow> 'a kbd_scheme \<Rightarrow> 'a kbd_scheme res" where
  "insert_op c s =
     (let t = cur_term s
      in if 127 \<le> kbd_line_cnt t \<and> c \<noteq> 10
         then rbind (bset (kbd_line_buf t) 127 10) (\<lambda>b. Inr (upd_term (\<lambda>t. t\<lparr>kbd_line_buf := b\<rparr>) s))
         else if c = 9 \<or> c = 0 then Inr s
         else if c = 10
         then rbind (bset (kbd_line_buf t) (unat (kbd_line_cnt t)) c) (\<lambda>b.
                let s = upd_term (\<lambda>t. t\<lparr>kbd_line_buf := b, kbd_line_cnt := kbd_line_cnt t + 1\<rparr>) s;
                    s = upd_term (\<lambda>t. t\<lparr>kbd_out_buf := kbd_line_buf t\<rparr>) s;
                    s = upd_term (\<lambda>t. t\<lparr>kbd_ready := 1\<rparr>) s;
                    s = upd_term (\<lambda>t. t\<lparr>kbd_line_buf := replicate KBD_BUF_SIZE 0\<rparr>) s;
                    s = upd_term (\<lambda>t. t\<lparr>kbd_line_cnt := 0\<rparr>) s;
                    s = putc c s
                in Inr (set_cursor_loc (word_of_int (get_screen_loc s)) s))
         else rbind (bset (kbd_line_buf t) (unat (kbd_line_cnt t)) c) (\<lambda>b.
                let s = upd_term (\<lambda>t. t\<lparr>kbd_ready := 0, kbd_line_buf := b, kbd_line_cnt := kbd_line_cnt t + 1\<rparr>) s;
                    s = putc c s
                in Inr (set_cursor_loc (word_of_int (get_screen_loc s)) s)))"

text \<open>The terminal switch of \<^verbatim>\<open>scancode_decoder\<close> to terminal \<open>n\<close>.\<close>

definition change_term :: "u8 \<Rightarrow> 'a kbd_scheme \<Rightarrow> 'a kbd_scheme res" where
  "change_term n s =
     (let s = upd_term (\<lambda>t. save_term t s) s;
          old_flag = term_flag s;
          s = s\<lparr>term_flag := n\<rparr>
      in rbind (switch_term (cur_term s) s) (\<lambda>(t, s).
           let s = upd_term (\<lambda>_. t) s
           in Inr (map_term (term_flag s) old_flag (le32 (take 4 (vid_buf (term_arr s ! unat old_flag)))) s)))"

definition set_modifiers :: "u8 \<Rightarrow> 'a kbd_scheme \<Rightarrow> 'a kbd_scheme" where
  "set_modifiers idx s =
     (let s = (if idx = 0x1D then s\<lparr>ctrl_flag := 1\<rparr> else if idx = 0x9D then s\<lparr>ctrl_flag := 0\<rparr> else s);
          s = (if idx = 0x38 then s\<lparr>alt_flag := 1\<rparr> else if idx = 0xB8 then s\<lparr>alt_flag := 0\<rparr> else s);
          s = (if idx = 0x2A \<or> idx = 0x36 then s\<lparr>shift_flag := 1\<rparr>
               else if idx = 0xAA \<or> idx = 0xB6 then s\<lparr>shift_flag := 0\<rparr> else s)
      in if idx = 0x3A \<and> caps_flag s = 0 then s\<lparr>caps_flag := 1\<rparr>
         else if idx = 0x3A \<and> caps_flag s = 1 then s\<lparr>caps_flag := 0\<rparr> else s)"

definition decode_char :: "u8 \<Rightarrow> 'a kbd_scheme \<Rightarrow> u8" where
  "decode_char idx s =
     (if idx < 128
      then if shift_flag s = 0 \<and> caps_flag s = 0 then lower_char_table ! unat idx
           else if shift_flag s = 1 \<and> caps_flag s = 0 then upshift_char_table ! unat idx
           else if shift_flag s = 0 \<and> caps_flag s = 1 then upper_char_table ! unat idx
           else lowshift_char_table ! unat idx
      else 0)"

definition scancode_decoder :: "u8 \<Rightarrow> 'a kbd_scheme \<Rightarrow> (u8 \<times> 'a kbd_scheme) res" where
  "scancode_decoder sc s =
     (let s = set_modifiers sc s
      in rbind (if term_flag s \<noteq> 0 \<and> alt_flag s = 1 \<and> sc = 0x3B then change_term 0 s
                else if term_flag s \<noteq> 1 \<and> alt_flag s = 1 \<and> sc = 0x3C then change_term 1 s
                else if term_flag s \<noteq> 2 \<and> alt_flag s = 1 \<and> sc = 0x3D then change_term 2 s
                else Inr s) (\<lambda>s. Inr (decode_char sc s, s)))"

definition kbd_intr_handler :: "'a kbd_scheme \<Rightarrow> 'a kbd_scheme res" where
  "kbd_intr_handler s =
     (let s = cli s;
          (scancode, s) = inb 0x60 s
      in rbind (scancode_decoder scancode s) (\<lambda>(c, s).
         rbind (if ctrl_flag s = 1
                then if c = 76 \<or> c = 108
                     then rbind (clear_screen s) (\<lambda>s. Inr (set_cursor_loc 0 s))
                     else Inr s
                else rbind (if c = 8 then remove_op s
                            else if c \<noteq> 0 \<and> c \<noteq> 1 then insert_op c s
                            else if c = 1
                            then rbind (puts (lit (''Key Code Not Supported'' @ newline @ ''391OS> '')) s) (\<lambda>(_, s). Inr s)
                            else Inr s)
                       (\<lambda>s. Inr (set_cursor_loc (word_of_int (get_screen_loc s)) s))) (\<lambda>s.
         let s = send_eoi 1 s in Inr (sti s))))"

text \<open>
  \<^verbatim>\<open>term_read\<close>: \<open>interrupts\<close> are the interrupts that arrive while it waits. The copy loop runs to the newline,
  whatever \<^verbatim>\<open>nbytes\<close> says.
\<close>

function term_read_loop :: "u8 list \<Rightarrow> u32 \<Rightarrow> nat \<Rightarrow> 'a kbd_scheme \<Rightarrow> (nat \<times> 'a kbd_scheme) res" where
  "term_read_loop term_local buf i s =
     (if length term_local \<le> i then Inl OutOfBounds
      else if term_local ! i \<noteq> 10
      then rbind (vwrite (buf + of_nat i) (term_local ! i) s) (\<lambda>s. term_read_loop term_local buf (Suc i) s)
      else Inr (i, s))"
  by pat_completeness auto
termination
  by (relation "measure (\<lambda>(term_local, buf, i, s). length term_local - i)") auto

declare term_read_loop.simps [simp del]

definition term_read :: "('a kbd_scheme \<Rightarrow> 'a kbd_scheme res) list \<Rightarrow> int \<Rightarrow> u32 \<Rightarrow> int
    \<Rightarrow> 'a kbd_scheme \<Rightarrow> (int \<times> 'a kbd_scheme) res" where
  "term_read interrupts fd buf nbytes s =
     (if buf = 0 \<or> nbytes < 0 then Inr (-1, s)
      else rbind (spin_until (\<lambda>s. is_kbd_ready s \<noteq> 0) interrupts s) (\<lambda>s.
        let s = unset_kbd_ready s;
            term_local = get_kbd_buf s
        in rbind (vmemset buf 0 KBD_BUF_SIZE s) (\<lambda>s.
           rbind (term_read_loop term_local buf 0 s) (\<lambda>(i, s). Inr (int i, s)))))"

function term_write_loop :: "u32 \<Rightarrow> int \<Rightarrow> nat \<Rightarrow> 'a kbd_scheme \<Rightarrow> (int \<times> 'a kbd_scheme) res" where
  "term_write_loop buf nbytes i s =
     rbind (vread s (buf + of_nat i)) (\<lambda>c.
       if c = 0 then Inr (int i, s)
       else let s = putc c s; i = Suc i
            in if int i < nbytes then term_write_loop buf nbytes i s else Inr (int i, s))"
  by pat_completeness auto
termination
  by (relation "measure (\<lambda>(buf, nbytes, i, s). nat (nbytes - int i))") auto

declare term_write_loop.simps [simp del]

definition term_write :: "int \<Rightarrow> u32 \<Rightarrow> int \<Rightarrow> 'a kbd_scheme \<Rightarrow> (int \<times> 'a kbd_scheme) res" where
  "term_write fd buf nbytes s = (if buf = 0 \<or> nbytes < 0 then Inr (-1, s) else term_write_loop buf nbytes 0 s)"

section \<open>What the console leaves alone\<close>

text \<open>The fields of the components above the console, and the page tables, as one value.\<close>

definition kbd_part :: "'a kbd_scheme \<Rightarrow> term_t list \<times> u8 \<times> u8 \<times> u8 \<times> u8 \<times> u8" where
  "kbd_part s = (term_arr s, term_flag s, shift_flag s, caps_flag s, ctrl_flag s, alt_flag s)"

definition tables :: "'a kbd_scheme \<Rightarrow> u32 list \<times> u32 list \<times> u32 list \<times> (symbol \<Rightarrow> u32)" where
  "tables s = (page_directory s, page_table s, vid_page_table s, sym s)"

lemma console_frame [simp]:
  "kbd_part (putc c s) = kbd_part s" "tables (putc c s) = tables s"
  "kbd_part (erase_char s) = kbd_part s" "tables (erase_char s) = tables s"
  "kbd_part (set_cursor_loc l s) = kbd_part s" "tables (set_cursor_loc l s) = tables s"
  "kbd_part (set_screen_xy x y s) = kbd_part s" "tables (set_screen_xy x y s) = tables s"
  "kbd_part (send_eoi i s) = kbd_part s" "tables (send_eoi i s) = tables s"
  "kbd_part (cli s) = kbd_part s" "tables (cli s) = tables s"
  "kbd_part (sti s) = kbd_part s" "tables (sti s) = tables s"
  "kbd_part (snd (inb p s)) = kbd_part s" "tables (snd (inb p s)) = tables s"
  "kbd_part (s\<lparr>mem := m\<rparr>) = kbd_part s" "tables (s\<lparr>mem := m\<rparr>) = tables s"
  by (simp_all add: kbd_part_def tables_def putc_def erase_char_def set_cursor_loc_def set_screen_xy_def
      scroll_def send_eoi_def io_defs Let_def)

lemma console_fold [simp]: "kbd_part (fold putc cs s) = kbd_part s" "tables (fold putc cs s) = tables s"
  by (induction cs arbitrary: s) simp_all

lemma clear_screen_frame: "clear_screen s = Inr s' \<Longrightarrow> kbd_part s' = kbd_part s \<and> tables s' = tables s"
  by (auto simp: clear_screen_eq) (simp_all add: kbd_part_def tables_def clear_def)

lemma kbd_part_terms:
  "kbd_part s = kbd_part t \<Longrightarrow> term_arr s = term_arr t \<and> term_flag s = term_flag t \<and> cur_term s = cur_term t \<and>
     ctrl_flag s = ctrl_flag t \<and> alt_flag s = alt_flag t"
  by (simp add: kbd_part_def cur_term_def)

lemma tables_upd [simp]: "tables (upd_term f s) = tables s" "tables (s\<lparr>term_flag := n\<rparr>) = tables s"
  by (simp_all add: tables_def upd_term_def)

lemma tables_phys: "tables s = tables t \<Longrightarrow> phys write s va n = phys write t va n"
  by (rule phys_cong) (simp_all add: tables_def)

section \<open>The invariant\<close>

definition term_ok :: "term_t \<Rightarrow> bool" where
  "term_ok t \<longleftrightarrow> length (kbd_line_buf t) = 128 \<and> length (kbd_out_buf t) = 128 \<and> length (vid_buf t) = 4096 \<and>
     unat (kbd_line_cnt t) \<le> 127 \<and> 10 \<notin> set (take (unat (kbd_line_cnt t)) (kbd_line_buf t)) \<and>
     (kbd_ready t \<noteq> 0 \<longrightarrow> 10 \<in> set (kbd_out_buf t)) \<and>
     0 \<le> cursor_x t \<and> cursor_x t < 80 \<and> 0 \<le> cursor_y t \<and> cursor_y t < 25"

definition kbd_inv :: "'a kbd_scheme \<Rightarrow> bool" where
  "kbd_inv s \<longleftrightarrow> length (term_arr s) = 3 \<and> unat (term_flag s) < 3 \<and> (\<forall>t \<in> set (term_arr s). term_ok t) \<and> screen_inv s"

lemma kbd_inv_cur: "kbd_inv s \<Longrightarrow> term_ok (cur_term s)"
  by (simp add: kbd_inv_def cur_term_def)

lemma cur_upd [simp]: "kbd_inv s \<Longrightarrow> cur_term (upd_term f s) = f (cur_term s)"
  by (simp add: kbd_inv_def cur_term_def upd_term_def)

lemma upd_term_flag [simp]: "term_flag (upd_term f s) = term_flag s"
  by (simp add: upd_term_def)

lemma upd_screen [simp]: "screen_inv (upd_term f s) = screen_inv s"
  by (simp add: upd_term_def screen_inv_def)

lemma kbd_inv_upd: "kbd_inv s \<Longrightarrow> term_ok (f (cur_term s)) \<Longrightarrow> kbd_inv (upd_term f s)"
  by (auto simp: kbd_inv_def upd_term_def screen_inv_def dest!: set_update_subset_insert [THEN subsetD])

lemma upd_upd: "kbd_inv s \<Longrightarrow> upd_term f (upd_term g s) = upd_term (\<lambda>t. f (g t)) s"
  by (simp add: kbd_inv_def upd_term_def cur_term_def)

lemma upd_term_cong: "f (cur_term s) = g (cur_term s) \<Longrightarrow> upd_term f s = upd_term g s"
  by (simp add: upd_term_def)

lemma kbd_inv_part: "kbd_inv s \<Longrightarrow> kbd_part s' = kbd_part s \<Longrightarrow> screen_inv s' \<Longrightarrow> kbd_inv s'"
  by (simp add: kbd_inv_def kbd_part_def)

lemma screen_inv_cursor [simp]: "screen_inv (set_cursor_loc l s) = screen_inv s"
  by (simp add: screen_inv_def)

section \<open>The line discipline\<close>

definition line_insert :: "u8 \<Rightarrow> u8 list \<times> u8 list option \<Rightarrow> u8 list \<times> u8 list option" where
  "line_insert c = (\<lambda>(line, out).
     if c = 10 then ([], Some line)
     else if 127 \<le> length line \<or> c = 9 \<or> c = 0 then (line, out) else (line @ [c], None))"

definition line_remove :: "u8 list \<times> u8 list option \<Rightarrow> u8 list \<times> u8 list option" where
  "line_remove = (\<lambda>(line, out). (butlast line, None))"

definition line_abs :: "term_t \<Rightarrow> u8 list \<times> u8 list option" where
  "line_abs t = (take (unat (kbd_line_cnt t)) (kbd_line_buf t),
     if kbd_ready t = 0 then None else Some (takeWhile (\<lambda>c. c \<noteq> 10) (kbd_out_buf t)))"

text \<open>The operations on one terminal.\<close>

definition term_insert :: "u8 \<Rightarrow> term_t \<Rightarrow> term_t" where
  "term_insert c t =
     (if 127 \<le> kbd_line_cnt t \<and> c \<noteq> 10 then t\<lparr>kbd_line_buf := (kbd_line_buf t)[127 := 10]\<rparr>
      else if c = 9 \<or> c = 0 then t
      else let b = (kbd_line_buf t)[unat (kbd_line_cnt t) := c]
           in if c = 10
              then t\<lparr>kbd_out_buf := b, kbd_ready := 1, kbd_line_buf := replicate 128 0, kbd_line_cnt := 0\<rparr>
              else t\<lparr>kbd_ready := 0, kbd_line_buf := b, kbd_line_cnt := kbd_line_cnt t + 1\<rparr>)"

lemma take_upd_at: "i < length xs \<Longrightarrow> take (Suc i) (xs[i := c]) = take i xs @ [c]"
  by (simp add: take_Suc_conv_app_nth)

lemma unat_cnt_suc: "\<not> 127 \<le> (w :: u8) \<Longrightarrow> unat (w + 1) = Suc (unat w)"
  by (simp add: unat_word_ariths word_le_nat_alt)

lemma term_insert_ok: "term_ok t \<Longrightarrow> term_ok (term_insert c t)"
  by (auto simp: term_ok_def term_insert_def Let_def unat_cnt_suc take_upd_at word_le_nat_alt set_update_memI)

lemma takeWhile_stop: "x \<notin> set xs \<Longrightarrow> takeWhile (\<lambda>c. c \<noteq> x) (xs @ x # ys) = xs"
  by (induction xs) auto

lemma term_insert_abs: "term_ok t \<Longrightarrow> line_abs (term_insert c t) = line_insert c (line_abs t)"
proof -
  assume ok: "term_ok t"
  let ?n = "unat (kbd_line_cnt t)"
  have n: "?n \<le> 127" "length (kbd_line_buf t) = 128" "10 \<notin> set (take ?n (kbd_line_buf t))" using ok by (auto simp: term_ok_def)
  have "takeWhile (\<lambda>c. c \<noteq> 10) ((kbd_line_buf t)[?n := 10]) = take ?n (kbd_line_buf t)"
    using n by (simp add: upd_conv_take_nth_drop takeWhile_stop)
  with n show ?thesis
    by (auto simp: term_insert_def line_abs_def line_insert_def Let_def unat_cnt_suc take_upd_at word_le_nat_alt min_def)
qed

lemma putc_cursor_kbd: "kbd_inv s \<Longrightarrow> kbd_inv (set_cursor_loc l (putc c s))"
  by (rule kbd_inv_part) (simp_all add: kbd_inv_def screen_inv_putc)

lemma insert_op_eq:
  assumes "kbd_inv s"
  shows "\<exists>s'. insert_op c s = Inr s' \<and> cur_term s' = term_insert c (cur_term s) \<and> kbd_inv s' \<and> tables s' = tables s \<and>
    term_flag s' = term_flag s \<and>
    screen_abs s' = (if 127 \<le> kbd_line_cnt (cur_term s) \<and> c \<noteq> 10 \<or> c = 9 \<or> c = 0 then screen_abs s else vt_putc c (screen_abs s))"
proof -
  let ?t = "cur_term s" and ?u = "upd_term (term_insert c) s"
  have ok: "term_ok ?t" using assms by (rule kbd_inv_cur)
  then have len: "length (kbd_line_buf ?t) = 128" "unat (kbd_line_cnt ?t) < 128" by (simp_all add: term_ok_def)
  have inv: "kbd_inv ?u" using assms term_insert_ok [OF ok] by (rule kbd_inv_upd)
  have "insert_op c s = Inr (if 127 \<le> kbd_line_cnt ?t \<and> c \<noteq> 10 then ?u else if c = 9 \<or> c = 0 then s
      else let v = putc c ?u in set_cursor_loc (word_of_int (get_screen_loc v)) v)"
    using len by (auto simp: insert_op_def upd_upd assms kbd_inv_upd Let_def term_insert_def
        intro!: upd_term_cong arg_cong [of _ _ "\<lambda>u. set_cursor_loc (word_of_int (get_screen_loc (putc _ u))) (putc _ u)"])
  moreover have "kbd_part (set_cursor_loc l (putc c ?u)) = kbd_part ?u" for l by simp
  moreover have "screen_abs ?u = screen_abs s" "screen_abs (set_cursor_loc l (putc c ?u)) = vt_putc c (screen_abs ?u)" for l
    using inv con.put_refines [of ?u c] screen_abs_cong [of "set_cursor_loc l (putc c ?u)" "putc c ?u"]
    by (simp_all add: kbd_inv_def screen_abs_def upd_term_def)
  ultimately show ?thesis
    using assms inv putc_cursor_kbd [OF inv] kbd_part_terms [of "set_cursor_loc _ (putc c ?u)" ?u]
    by (auto simp: Let_def term_insert_def)
qed

definition term_remove :: "term_t \<Rightarrow> term_t" where
  "term_remove t =
     (if kbd_line_cnt t > 0
      then t\<lparr>kbd_ready := 0, kbd_line_cnt := kbd_line_cnt t - 1,
             kbd_line_buf := (kbd_line_buf t)[unat (kbd_line_cnt t - 1) := 10]\<rparr>
      else t\<lparr>kbd_ready := 0\<rparr>)"

lemma unat_cnt_pred: "(w :: u8) > 0 \<Longrightarrow> unat (w - 1) = unat w - 1"
  by (rule unat_minus_one) auto

lemma term_remove_ok: "term_ok t \<Longrightarrow> term_ok (term_remove t)"
  using set_take_subset_set_take [OF diff_le_self, of "unat (kbd_line_cnt t)" 1 "kbd_line_buf t"]
  by (auto simp: term_ok_def term_remove_def unat_cnt_pred)

lemma term_remove_abs:
  assumes "term_ok t"
  shows "line_abs (term_remove t) = line_remove (line_abs t)"
proof -
  let ?n = "unat (kbd_line_cnt t)"
  have "?n \<le> length (kbd_line_buf t)" using assms by (simp add: term_ok_def)
  then have "butlast (take ?n (kbd_line_buf t)) = take (?n - 1) (kbd_line_buf t)"
    by (rule butlast_take)
  then show ?thesis
    by (auto simp: term_remove_def line_abs_def line_remove_def unat_cnt_pred word_gt_0 unat_eq_0)
qed

lemma erase_cursor_kbd: "kbd_inv s \<Longrightarrow> kbd_inv (set_cursor_loc l (erase_char s))"
  by (rule kbd_inv_part) (simp_all add: kbd_inv_def screen_inv_erase)

lemma remove_op_eq:
  assumes "kbd_inv s"
  shows "\<exists>s'. remove_op s = Inr s' \<and> cur_term s' = term_remove (cur_term s) \<and> kbd_inv s' \<and> tables s' = tables s \<and>
    term_flag s' = term_flag s"
proof -
  let ?t = "cur_term s" and ?u = "upd_term term_remove s"
  have ok: "term_ok ?t" using assms by (rule kbd_inv_cur)
  then have len: "unat (kbd_line_cnt ?t - 1) < length (kbd_line_buf ?t)" if "kbd_line_cnt ?t > 0"
    using that by (auto simp: term_ok_def unat_cnt_pred)
  have inv: "kbd_inv ?u" using assms term_remove_ok [OF ok] by (rule kbd_inv_upd)
  have inv0: "kbd_inv (upd_term (\<lambda>t. t\<lparr>kbd_ready := 0\<rparr>) s)"
    using assms ok by (intro kbd_inv_upd) (simp_all add: term_ok_def)
  have inv1: "length (term_arr s) = 3" "unat (term_flag s) < 3" using assms by (simp_all add: kbd_inv_def)
  have cur: "cur_term (upd_term f s) = f ?t" "upd_term f (upd_term g s) = upd_term (\<lambda>t. f (g t)) s" for f g
    using inv1 by (simp_all add: cur_term_def upd_term_def)
  have "remove_op s = Inr (if kbd_line_cnt ?t > 0
      then let v = erase_char ?u in set_cursor_loc (word_of_int (get_screen_loc v)) v else ?u)"
    using len by (auto simp: remove_op_def cur Let_def term_remove_def
        intro!: upd_term_cong arg_cong [of _ _ "\<lambda>u. set_cursor_loc (word_of_int (get_screen_loc (erase_char u))) (erase_char u)"])
  moreover have "kbd_part (set_cursor_loc l (erase_char ?u)) = kbd_part ?u" for l by simp
  ultimately show ?thesis
    using assms inv erase_cursor_kbd [OF inv] kbd_part_terms [of "set_cursor_loc _ (erase_char ?u)" ?u]
    by (auto simp: Let_def)
qed

section \<open>The interface of the line discipline\<close>

text \<open>Keys typed one after the other.\<close>

fun type_all :: "(u8 \<Rightarrow> 's \<Rightarrow> 's res) \<Rightarrow> u8 list \<Rightarrow> 's \<Rightarrow> 's res" where
  "type_all ins [] s = Inr s"
| "type_all ins (c # cs) s = rbind (ins c s) (type_all ins cs)"

locale line_editor =
  fixes ins :: "u8 \<Rightarrow> 's \<Rightarrow> 's res" and rem :: "'s \<Rightarrow> 's res"
    and abs :: "'s \<Rightarrow> u8 list \<times> u8 list option" and inv :: "'s \<Rightarrow> bool"
  assumes ins_step: "inv s \<Longrightarrow> \<exists>s'. ins c s = Inr s' \<and> inv s' \<and> abs s' = line_insert c (abs s)"
    and rem_step: "inv s \<Longrightarrow> \<exists>s'. rem s = Inr s' \<and> inv s' \<and> abs s' = line_remove (abs s)"
begin

lemma type_refines: "inv s \<Longrightarrow> \<exists>s'. type_all ins cs s = Inr s' \<and> inv s' \<and> abs s' = fold line_insert cs (abs s)"
proof (induction cs arbitrary: s)
  case (Cons c cs)
  obtain t where t: "ins c s = Inr t" "inv t" "abs t = line_insert c (abs s)" using ins_step [OF Cons.prems] by blast
  with Cons.IH [of t] show ?case by auto
qed simp

text \<open>Erasing right after an accepted character leaves the line as it was.\<close>

lemma insert_remove:
  assumes "inv s" and "length (fst (abs s)) < 127" and "c \<notin> {10, 9, 0}"
  shows "\<exists>s'. rbind (ins c s) rem = Inr s' \<and> inv s' \<and> abs s' = (fst (abs s), None)"
proof -
  obtain t where t: "ins c s = Inr t" "inv t" "abs t = line_insert c (abs s)" using ins_step [OF assms(1)] by blast
  obtain u where "rem t = Inr u" "inv u" "abs u = line_remove (abs t)" using rem_step [OF t(2)] by blast
  with t assms show ?thesis by (cases "abs s") (auto simp: line_insert_def line_remove_def)
qed

end

interpretation led: line_editor insert_op remove_op "\<lambda>s. line_abs (cur_term s)" kbd_inv
proof
  fix s :: "'a kbd_scheme" and c assume inv: "kbd_inv s"
  show "\<exists>s'. insert_op c s = Inr s' \<and> kbd_inv s' \<and> line_abs (cur_term s') = line_insert c (line_abs (cur_term s))"
    using insert_op_eq [OF inv] term_insert_abs [OF kbd_inv_cur [OF inv]] by metis
  show "\<exists>s'. remove_op s = Inr s' \<and> kbd_inv s' \<and> line_abs (cur_term s') = line_remove (line_abs (cur_term s))"
    using remove_op_eq [OF inv] term_remove_abs [OF kbd_inv_cur [OF inv]] by metis
qed

section \<open>The interrupt handler\<close>

lemma save_term_ok: "term_ok t \<Longrightarrow> screen_inv s \<Longrightarrow> term_ok (save_term t s)"
  using saved_vid_buf [of t s] length_takeWhile_le [of "\<lambda>c. c \<noteq> 0" "rd (mem s) VMEM 4096"]
  by (simp add: term_ok_def screen_inv_def Let_def)
    (simp add: save_term_def Let_def get_screen_x_def get_screen_y_def)

lemma switch_term_eq:
  assumes "term_ok t"
  shows "\<exists>t' s'. switch_term t s = Inr (t', s') \<and> term_ok t' \<and> kbd_part s' = kbd_part s \<and> tables s' = tables s \<and> screen_inv s'"
proof -
  let ?t = "if activated t = 0 then t\<lparr>activated := 1\<rparr> else t"
  obtain s1 where s1: "clear_screen s = Inr s1" by (simp add: clear_screen_eq)
  let ?s2 = "set_cursor_loc (word_of_int (cursor_x ?t + cursor_y ?t * 80)) (set_screen_xy (cursor_x ?t) (cursor_y ?t) s1)"
  have "switch_term t s = Inr (?t, ?s2\<lparr>mem := restore_loop (vid_buf ?t) 0 (mem ?s2)\<rparr>)"
    by (simp add: switch_term_def s1 Let_def)
  moreover have "term_ok ?t" using assms by (simp add: term_ok_def)
  moreover have "screen_inv (?s2\<lparr>mem := restore_loop (vid_buf ?t) 0 (mem ?s2)\<rparr>)"
    using assms by (simp add: screen_inv_def term_ok_def set_screen_xy_def)
  ultimately show ?thesis using clear_screen_frame [OF s1] by auto
qed

lemma kbd_inv_flag: "kbd_inv s \<Longrightarrow> unat n < 3 \<Longrightarrow> kbd_inv (s\<lparr>term_flag := n\<rparr>)"
  by (simp add: kbd_inv_def screen_inv_def)

lemma change_term_eq:
  assumes "kbd_inv s" and "unat n < 3"
  shows "\<exists>s'. change_term n s = Inr s' \<and> kbd_inv s' \<and> term_flag s' = n"
proof -
  let ?u = "upd_term (\<lambda>t. save_term t s) s"
  have "term_ok (save_term (cur_term s) s)"
    using kbd_inv_cur [OF assms(1)] assms(1) by (intro save_term_ok) (simp_all add: kbd_inv_def)
  then have "kbd_inv ?u" using assms(1) by (intro kbd_inv_upd)
  then have inv: "kbd_inv (?u\<lparr>term_flag := n\<rparr>)" using assms(2) by (rule kbd_inv_flag)
  obtain t' s1 where s1: "switch_term (cur_term (?u\<lparr>term_flag := n\<rparr>)) (?u\<lparr>term_flag := n\<rparr>) = Inr (t', s1)"
    "term_ok t'" "kbd_part s1 = kbd_part (?u\<lparr>term_flag := n\<rparr>)" "screen_inv s1"
    using switch_term_eq [OF kbd_inv_cur [OF inv]] by blast
  have inv1: "kbd_inv s1" using inv s1(3,4) by (rule kbd_inv_part)
  then have inv2: "kbd_inv (upd_term (\<lambda>_. t') s1)" using s1(2) by (rule kbd_inv_upd)
  have fl: "term_flag s1 = n" using kbd_part_terms [OF s1(3)] by simp
  have map: "kbd_inv (map_term a b w v) = kbd_inv v" "term_flag (map_term a b w v) = term_flag v"
    for a b w and v :: "'a kbd_scheme"
    by (simp_all add: map_term_def load_cr3_def Let_def kbd_inv_def screen_inv_def)
  show ?thesis
    unfolding change_term_def Let_def s1(1) using inv2 fl by (simp add: map s1(1))
qed

lemma kbd_inv_modifiers [simp]:
  "kbd_inv (set_modifiers c s) = kbd_inv s" "term_flag (set_modifiers c s) = term_flag s"
  by (simp_all add: set_modifiers_def kbd_inv_def screen_inv_def Let_def)

lemma scancode_decoder_eq:
  assumes "kbd_inv s"
  shows "\<exists>c s'. scancode_decoder sc s = Inr (c, s') \<and> kbd_inv s'"
proof -
  have "kbd_inv (set_modifiers sc s)" using assms by simp
  from change_term_eq [OF this, of 0] change_term_eq [OF this, of 1] change_term_eq [OF this, of 2] assms
  show ?thesis by (auto simp: scancode_decoder_def Let_def)
qed

lemma kbd_inv_io [simp]:
  "kbd_inv (cli s) = kbd_inv s" "kbd_inv (sti s) = kbd_inv s" "kbd_inv (send_eoi i s) = kbd_inv s"
  "kbd_inv (snd (inb p s)) = kbd_inv s" "kbd_inv (set_cursor_loc l s) = kbd_inv s"
  by (simp_all add: kbd_inv_def screen_inv_def send_eoi_def set_cursor_loc_def io_defs Let_def)

lemma clear_screen_kbd:
  assumes "kbd_inv s"
  shows "\<exists>s'. clear_screen s = Inr s' \<and> kbd_inv s'"
proof -
  obtain s' where s': "clear_screen s = Inr s'" by (simp add: clear_screen_eq)
  with kbd_inv_part [OF assms] clear_screen_frame [OF s'] screen_inv_clear_screen [OF s'] show ?thesis by blast
qed

lemma puts_lit_kbd:
  assumes "kbd_inv s" and "0 \<notin> set (bytes str)" and "length str < 2147483648"
  shows "\<exists>s'. puts (lit str) s = Inr (length str, s') \<and> kbd_inv s'"
proof -
  have "screen_inv (fold putc (bytes str) s)" using assms(1) by (intro con.put_all_inv) (simp add: kbd_inv_def)
  then have "kbd_inv (fold putc (bytes str) s)" using assms(1) by (intro kbd_inv_part [OF assms(1)]) simp_all
  then show ?thesis using assms puts_Obj [of "bytes str" "[]" s] by (simp add: lit_def bytes_def)
qed

lemma kbd_intr_handler_eq:
  assumes "kbd_inv s"
  shows "\<exists>s'. kbd_intr_handler s = Inr s' \<and> kbd_inv s' \<and> iflag s'"
proof -
  let ?s = "snd (inb 0x60 (cli s))"
  obtain c s1 where s1: "scancode_decoder (fst (inb 0x60 (cli s))) ?s = Inr (c, s1)" "kbd_inv s1"
    using scancode_decoder_eq [of ?s "fst (inb 0x60 (cli s))"] assms by auto
  define k where "k = (if ctrl_flag s1 = 1
                then if c = 76 \<or> c = 108
                     then rbind (clear_screen s1) (\<lambda>s. Inr (set_cursor_loc 0 s))
                     else Inr s1
                else rbind (if c = 8 then remove_op s1
                            else if c \<noteq> 0 \<and> c \<noteq> 1 then insert_op c s1
                            else if c = 1
                            then rbind (puts (lit (''Key Code Not Supported'' @ newline @ ''391OS> '')) s1) (\<lambda>(_, s). Inr s)
                            else Inr s1)
                       (\<lambda>s. Inr (set_cursor_loc (word_of_int (get_screen_loc s)) s)))"
  have "\<exists>s'. k = Inr s' \<and> kbd_inv s'"
    unfolding k_def using clear_screen_kbd [OF s1(2)] remove_op_eq [OF s1(2)] insert_op_eq [OF s1(2), of c]
      puts_lit_kbd [OF s1(2), of "''Key Code Not Supported'' @ newline @ ''391OS> ''"] s1(2)
    by (auto simp: bytes_def)
  moreover have "kbd_intr_handler s = rbind k (\<lambda>s. Inr (sti (send_eoi 1 s)))"
    using s1(1) by (simp add: kbd_intr_handler_def Let_def k_def split_beta)
  ultimately show ?thesis by auto
qed

section \<open>Reading a line\<close>

lemma term_read_loop_copies:
  assumes "length line + length rest < 4294967295" and "10 \<notin> set line"
    and "\<forall>i < length line. mmu False True s (buf + of_nat i) = Inr (pb + of_nat i)"
  shows "i \<le> length line \<Longrightarrow> term_read_loop (line @ 10 # rest) buf i (s\<lparr>mem := wr m pb (take i line)\<rparr>) =
    Inr (length line, s\<lparr>mem := wr m pb line\<rparr>)"
proof (induction "length line - i" arbitrary: i)
  case 0
  then show ?case by (simp add: term_read_loop.simps nth_append)
next
  case (Suc k)
  then have i: "i < length line" by simp
  then have c: "line ! i \<noteq> 10" using assms(2) by (metis nth_mem)
  have w: "(wr m pb (take i line))(pb + of_nat i := line ! i) = wr m pb (take (Suc i) line)"
    using wr_upd_end [of "take i line" m pb "line ! i"] i assms(1) by (simp add: take_Suc_conv_app_nth)
  have "term_read_loop (line @ 10 # rest) buf i (s\<lparr>mem := wr m pb (take i line)\<rparr>) =
      term_read_loop (line @ 10 # rest) buf (Suc i) (s\<lparr>mem := wr m pb (take (Suc i) line)\<rparr>)"
    using i c assms(3) w by (simp add: term_read_loop.simps [of _ buf i] vwrite_def nth_append)
  also have "\<dots> = Inr (length line, s\<lparr>mem := wr m pb line\<rparr>)" using Suc i by (intro Suc.hyps(1)) auto
  finally show ?case .
qed

lemma takeWhile_split: "x \<in> set xs \<Longrightarrow> \<exists>ys. xs = takeWhile (\<lambda>c. c \<noteq> x) xs @ x # ys"
  by (induction xs) auto

lemma phys_unset [simp]: "phys write (upd_term f s) va n = phys write s va n"
  by (rule tables_phys) simp

text \<open>A read when a line is ready.\<close>

lemma term_read_ready:
  assumes inv: "kbd_inv s" and line: "line_abs (cur_term s) = (l, Some line)"
    and buf: "buf \<noteq> 0" "0 \<le> nbytes" "phys True s buf 128 = Inr pb"
  shows "\<exists>s'. term_read hs fd buf nbytes s = Inr (int (length line), s') \<and> length line \<le> 127 \<and>
    mem s' = wr (mem s) pb (line @ replicate (128 - length line) 0) \<and>
    line_abs (cur_term s') = (l, None) \<and> kbd_inv s' \<and> tables s' = tables s \<and> screen_x s' = screen_x s \<and> screen_y s' = screen_y s"
proof -
  let ?t = "cur_term s" and ?u = "unset_kbd_ready s"
  have ok: "term_ok ?t" using inv by (rule kbd_inv_cur)
  have ready: "kbd_ready ?t \<noteq> 0" and tw: "line = takeWhile (\<lambda>c. c \<noteq> 10) (kbd_out_buf ?t)"
    and l: "l = take (unat (kbd_line_cnt ?t)) (kbd_line_buf ?t)"
    using line by (auto simp: line_abs_def split: if_splits)
  have len: "length (kbd_out_buf ?t) = 128" using ok by (simp add: term_ok_def)
  obtain rest where out: "kbd_out_buf ?t = line @ 10 # rest"
    using takeWhile_split [of 10 "kbd_out_buf ?t"] ok ready unfolding tw by (auto simp: term_ok_def)
  have ll: "length line \<le> 127" and lr: "length line + length rest < 4294967295" using len out by simp_all
  have nl: "10 \<notin> set line" unfolding tw by (auto dest: set_takeWhileD)
  have u: "?u = upd_term (\<lambda>t. t\<lparr>kbd_ready := 0\<rparr>) s" by (simp add: unset_kbd_ready_def)
  have invu: "kbd_inv ?u" unfolding u using inv ok by (intro kbd_inv_upd) (simp_all add: term_ok_def)
  have gk: "get_kbd_buf ?u = line @ 10 # rest" using inv out by (simp add: get_kbd_buf_def u)
  have memu: "mem ?u = mem s" by (simp add: u upd_term_def)
  let ?m = "wr (mem s) pb (replicate 128 0)"
  have ms: "vmemset buf 0 128 ?u = Inr (?u\<lparr>mem := ?m\<rparr>)"
    using buf(3) memu by (simp add: vmemset_def u memset_wr)
  have mm: "\<forall>i < length line. mmu False True (?u) (buf + of_nat i) = Inr (pb + of_nat i)"
    using phys_eq [of 128 True ?u buf pb] buf(3) ll by (simp add: u)
  have loop: "term_read_loop (line @ 10 # rest) buf 0 (?u\<lparr>mem := ?m\<rparr>) = Inr (length line, ?u\<lparr>mem := wr ?m pb line\<rparr>)"
    using term_read_loop_copies [OF lr nl mm, of 0 ?m] by simp
  have z: "wr ?m pb line = wr (mem s) pb (line @ replicate (128 - length line) 0)"
    using ll by (intro wr_zeros_prefix) simp
  have "term_read hs fd buf nbytes s = Inr (int (length line), ?u\<lparr>mem := wr ?m pb line\<rparr>)"
    using buf(1,2) ready by (simp add: term_read_def spin_until_ready is_kbd_ready_def Let_def gk ms loop)
  moreover have "kbd_inv (?u\<lparr>mem := wr ?m pb line\<rparr>)" using invu by (simp add: kbd_inv_def screen_inv_def)
  moreover have "cur_term (?u\<lparr>mem := wr ?m pb line\<rparr>) = ?t\<lparr>kbd_ready := 0\<rparr>" 
    using inv by (simp add: u cur_term_def upd_term_def kbd_inv_def)
  moreover have "tables (?u\<lparr>mem := wr ?m pb line\<rparr>) = tables s" "screen_x (?u\<lparr>mem := wr ?m pb line\<rparr>) = screen_x s"
    "screen_y (?u\<lparr>mem := wr ?m pb line\<rparr>) = screen_y s"
    by (simp_all add: u upd_term_def tables_def)
  ultimately show ?thesis using ll z l by (simp add: line_abs_def)
qed

text \<open>Characters a line takes.\<close>

definition plain_chars :: "u8 list \<Rightarrow> bool" where
  "plain_chars cs \<longleftrightarrow> set cs \<inter> {10, 9, 0} = {}"

lemma fold_line_insert:
  "plain_chars cs \<Longrightarrow> length line + length cs \<le> 127 \<Longrightarrow>
     fold line_insert cs (line, None) = (line @ cs, None)"
  by (induction cs arbitrary: line) (auto simp: line_insert_def plain_chars_def)

text \<open>Typing a line while a program waits in \<^verbatim>\<open>term_read\<close>: each key is one interrupt.\<close>

lemma spin_typing:
  assumes "plain_chars cs" and "length line + length cs \<le> 127"
  shows "kbd_inv s \<Longrightarrow> line_abs (cur_term s) = (line, None) \<Longrightarrow> length line + length cs \<le> 127 \<Longrightarrow>
    \<exists>s'. spin_until (\<lambda>s. is_kbd_ready s \<noteq> 0) (map insert_op (cs @ [10])) s = Inr s' \<and> kbd_inv s' \<and>
      line_abs (cur_term s') = ([], Some (line @ cs)) \<and> tables s' = tables s \<and>
      screen_abs s' = fold vt_putc (cs @ [10]) (screen_abs s)"
  using assms(1)
proof (induction cs arbitrary: s line)
  case Nil
  obtain s' where s': "insert_op 10 s = Inr s'" "kbd_inv s'" "line_abs (cur_term s') = ([], Some line)" "tables s' = tables s"
    "screen_abs s' = vt_putc 10 (screen_abs s)"
    using insert_op_eq [OF Nil.prems(1), of 10] term_insert_abs [OF kbd_inv_cur [OF Nil.prems(1)], of 10] Nil.prems(2)
    by (auto simp: line_insert_def)
  have "is_kbd_ready s' \<noteq> 0" using s'(3) by (auto simp: line_abs_def is_kbd_ready_def split: if_splits)
  moreover have "is_kbd_ready s = 0" using Nil.prems(2) by (auto simp: line_abs_def is_kbd_ready_def split: if_splits)
  ultimately show ?case using s' by simp
next
  case (Cons c cs)
  have room: "\<not> 127 \<le> kbd_line_cnt (cur_term s)"
    using Cons.prems(2,3) kbd_inv_cur [OF Cons.prems(1)] by (auto simp: line_abs_def term_ok_def word_le_nat_alt split: if_splits)
  obtain s1 where s1: "insert_op c s = Inr s1" "kbd_inv s1" "line_abs (cur_term s1) = (line @ [c], None)" "tables s1 = tables s"
    "screen_abs s1 = vt_putc c (screen_abs s)"
    using insert_op_eq [OF Cons.prems(1), of c] term_insert_abs [OF kbd_inv_cur [OF Cons.prems(1)], of c] Cons.prems(2-4) room
    by (auto simp: line_insert_def plain_chars_def)
  have "\<exists>s'. spin_until (\<lambda>s. is_kbd_ready s \<noteq> 0) (map insert_op (cs @ [10])) s1 = Inr s' \<and> kbd_inv s' \<and>
      line_abs (cur_term s') = ([], Some ((line @ [c]) @ cs)) \<and> tables s' = tables s1 \<and>
      screen_abs s' = fold vt_putc (cs @ [10]) (screen_abs s1)"
    using Cons.prems s1 by (intro Cons.IH) (auto simp: plain_chars_def)
  moreover have "is_kbd_ready s = 0" using Cons.prems(2) by (auto simp: line_abs_def is_kbd_ready_def split: if_splits)
  ultimately show ?case using s1(1,4,5) by simp
qed

lemma screen_rows_wr:
  assumes "off_screen a (length xs)" and "length xs \<le> 4294967296"
  shows "screen_rows (wr m a xs) = screen_rows m"
proof (rule screen_rows_cong)
  have "disjoint_ranges 0xB8000 4000 a (length xs)" using assms unfolding off_screen_def by (rule disjoint_ranges_sym) simp
  then show "wr m a xs (VIDEO + of_nat k) = m (VIDEO + of_nat k)" if "k < 4000" for k
    using that by (simp add: disjoint_ranges_def wr_outside)
qed

text \<open>A typed line is echoed on the screen and read.\<close>

lemma term_read_typed:
  assumes "kbd_inv s" and "line_abs (cur_term s) = ([], None)" and "plain_chars cs" and "length cs \<le> 127"
    and "buf \<noteq> 0" and "0 \<le> nbytes" and "phys True s buf 128 = Inr pb"
  shows "\<exists>s'. term_read (map insert_op (cs @ [10])) fd buf nbytes s = Inr (int (length cs), s') \<and>
    rd (mem s') pb 128 = cs @ replicate (128 - length cs) 0 \<and> line_abs (cur_term s') = ([], None) \<and> kbd_inv s' \<and>
    tables s' = tables s \<and> (off_screen pb 128 \<longrightarrow> screen_abs s' = fold vt_putc (cs @ [10]) (screen_abs s))"
proof -
  let ?hs = "map insert_op (cs @ [10])" and ?line = "cs @ replicate (128 - length cs) 0"
  have len: "length ?line = 128" using assms(4) by simp
  obtain s1 where s1: "spin_until (\<lambda>s. is_kbd_ready s \<noteq> 0) ?hs s = Inr s1" "kbd_inv s1"
    "line_abs (cur_term s1) = ([], Some cs)" "tables s1 = tables s" "screen_abs s1 = fold vt_putc (cs @ [10]) (screen_abs s)"
    using spin_typing [OF assms(3), of "[]" s] assms(1,2,4) by auto
  have "phys True s1 buf 128 = Inr pb" using assms(7) tables_phys [OF s1(4)] by simp
  from term_read_ready [OF s1(2,3) assms(5,6) this, of "[]" fd] obtain s' where
    s': "term_read [] fd buf nbytes s1 = Inr (int (length cs), s')" "mem s' = wr (mem s1) pb ?line"
    "line_abs (cur_term s') = ([], None)" "kbd_inv s'" "tables s' = tables s1" "screen_x s' = screen_x s1" "screen_y s' = screen_y s1"
    by blast
  have "spin_until (\<lambda>s. is_kbd_ready s \<noteq> 0) [] s1 = Inr s1"
    using spin_until_sound [OF s1(1)] by simp
  then have "term_read ?hs fd buf nbytes s = term_read [] fd buf nbytes s1"
    using assms(5,6) by (simp only: term_read_def s1(1) rbind_Inr) simp
  moreover have "rd (mem s') pb 128 = ?line"
    using rd_wr_same [of ?line "mem s1" pb] len unfolding s'(2) by simp
  moreover have "screen_abs s' = screen_abs s1" if "off_screen pb 128"
    using screen_rows_wr [of pb ?line "mem s1"] that len s'(2,6,7) by (simp add: screen_abs_def)
  ultimately show ?thesis using s' s1(4,5) by auto
qed

section \<open>Properties\<close>

text \<open>
  Property C18: the keyboard interrupt handler always completes, whatever scancode the keyboard delivers, and keeps
  the invariant of the terminals: line counts stay below the buffer size, buffers keep their size, a terminal that is
  ready holds a whole line, the terminal number is valid and every cursor is on the screen.
\<close>

theorem kbd_handler_invariant:
  assumes "kbd_inv s"
  shows "\<exists>s'. kbd_intr_handler s = Inr s' \<and> kbd_inv s' \<and> iflag s'"
  using kbd_intr_handler_eq [OF assms] .

lemma reset_term_ok: "term_ok reset_term"
  by (simp add: term_ok_def reset_term_def)

lemma reset_kbd_inv: "kbd_inv reset_kbd"
  using reset_term_ok by (auto simp: kbd_inv_def reset_kbd_fields screen_inv_def)

theorem kbd_handler_invariant_witness:
  "\<exists>s'. kbd_intr_handler reset_kbd = Inr s' \<and> kbd_inv s' \<and> iflag s'"
  using kbd_handler_invariant [OF reset_kbd_inv] .

text \<open>
  Property C9: the line discipline refines its specification: a key other than newline is appended while there is room
  (127 characters), tab and null are ignored, newline hands the whole line over and starts an empty one, backspace
  takes the last character away.
\<close>

theorem line_discipline_refines:
  assumes "kbd_inv s"
  shows "(\<exists>s'. insert_op c s = Inr s' \<and> kbd_inv s' \<and> line_abs (cur_term s') = line_insert c (line_abs (cur_term s))) \<and>
    (\<exists>s'. remove_op s = Inr s' \<and> kbd_inv s' \<and> line_abs (cur_term s') = line_remove (line_abs (cur_term s)))"
  using led.ins_step [OF assms] led.rem_step [OF assms] by blast

theorem line_discipline_refines_witness:
  "\<exists>s'. insert_op 97 reset_kbd = Inr s' \<and> line_abs (cur_term s') = ([97], None)"
proof -
  have "line_abs (cur_term reset_kbd) = ([], None)"
    by (simp add: line_abs_def cur_term_def reset_kbd_fields reset_term_def)
  with line_discipline_refines [OF reset_kbd_inv, of 97] show ?thesis by (auto simp: line_insert_def)
qed



end
