(* ===== verification/Process.thy ===== *)
theory Process
  imports Keyboard
begin

text \<open>
  Processes and file descriptors: the structures of \<^verbatim>\<open>syscalls.h\<close>, the static variables and \<^verbatim>\<open>get_pcb\<close> of
  \<^verbatim>\<open>syscalls.c\<close>, and the system calls on file descriptors (\<^verbatim>\<open>open\<close>, \<^verbatim>\<open>close\<close>, \<^verbatim>\<open>read\<close>, \<^verbatim>\<open>write\<close>) with the
  operations of the file types that use them (\<^verbatim>\<open>fs_file_read\<close>, \<^verbatim>\<open>fs_file_close\<close>, \<^verbatim>\<open>fs_dir_close\<close>, \<^verbatim>\<open>rtc_close\<close>), and
  \<^verbatim>\<open>getargs\<close>, \<^verbatim>\<open>vidmap\<close>, \<^verbatim>\<open>sigreturn\<close>, \<^verbatim>\<open>set_handler\<close>, \<^verbatim>\<open>default_\<close>.

  Process control blocks live at the bottom of the 8 KB kernel stacks; they are a heap of records indexed by
  address, and \<^verbatim>\<open>get_pcb\<close> computes the address from the stack pointer. \<open>esp\<close> and \<open>ebp\<close> are the registers while kernel
  code runs; how far each call moves \<open>esp\<close> within the stack is the compiler's choice and of no effect, so calls leave
  it alone. \<open>probe_off\<close>, another of those choices, is where in its frame \<^verbatim>\<open>execute\<close> has the array \<^verbatim>\<open>exe_probe_buf\<close>, the one
  local array whose address it passes on. Jump tables are the constructors of \<open>fops\<close>;
  calling through the null table is a page fault.
\<close>

section \<open>State\<close>

abbreviation (input) MAX_FD :: int where "MAX_FD \<equiv> 7"
abbreviation (input) FD_START_FILE :: nat where "FD_START_FILE \<equiv> 2"
abbreviation (input) FD_MAX_FILE :: nat where "FD_MAX_FILE \<equiv> 8"
abbreviation (input) KSTACK_BASE :: int where "KSTACK_BASE \<equiv> 0x7FE000"
abbreviation (input) KSTACK_SIZE :: int where "KSTACK_SIZE \<equiv> 0x2000"
abbreviation (input) PCB_ADDR_MASK :: u32 where "PCB_ADDR_MASK \<equiv> 0xFFFFE000"

datatype fops = Null_table | File_table | Dir_table | Rtc_table | Stdin_table | Stdout_table

record file_des_t =
  fop_table :: fops
  inode_type :: u32
  offset :: u32
  in_use_flag :: int

record pcb_t =
  file_array :: "file_des_t list"
  status :: u32
  arg :: "u8 list"
  pid :: u32
  parent_process_ptr :: u32
  child_process_ptr :: u32
  process_addr :: u32
  pcb_esp :: u32
  pcb_ebp :: u32
  pcb_cr3 :: u32
  program_counter :: int

record proc = kbd +
  active_proc :: int
  process_counter :: u8
  pcbs :: "u32 \<Rightarrow> pcb_t"
  esp :: u32
  ebp :: u32
  tss_esp0 :: u32
  tss_ss0 :: u16
  probe_off :: u32

definition get_pcb :: "'a proc_scheme \<Rightarrow> u32" where
  "get_pcb s = esp s AND PCB_ADDR_MASK"

text \<open>The macro \<^verbatim>\<open>KSTACK_TO_PCB\<close>, and the top of the kernel stack of a process, as \<^verbatim>\<open>tss.esp0\<close> is set.\<close>

definition KSTACK_TO_PCB :: "int \<Rightarrow> u32" where
  "KSTACK_TO_PCB x = word_of_int (KSTACK_BASE - (x + 1) * KSTACK_SIZE)"

definition kstack_top :: "int \<Rightarrow> u32" where
  "kstack_top x = word_of_int (KSTACK_BASE - KSTACK_SIZE * x - 4)"

definition cur_pcb :: "'a proc_scheme \<Rightarrow> pcb_t" where
  "cur_pcb s = pcbs s (get_pcb s)"

definition upd_pcb :: "(pcb_t \<Rightarrow> pcb_t) \<Rightarrow> 'a proc_scheme \<Rightarrow> 'a proc_scheme" where
  "upd_pcb f s = s\<lparr>pcbs := (pcbs s)(get_pcb s := f (cur_pcb s))\<rparr>"

definition upd_fd :: "nat \<Rightarrow> (file_des_t \<Rightarrow> file_des_t) \<Rightarrow> 'a proc_scheme \<Rightarrow> 'a proc_scheme" where
  "upd_fd i f s = upd_pcb (\<lambda>p. p\<lparr>file_array := (file_array p)[i := f (file_array p ! i)]\<rparr>) s"

section \<open>System calls on file descriptors\<close>

definition default_op :: int where
  "default_op = -1"

definition sigreturn :: int where
  "sigreturn = -1"

definition set_handler :: "int \<Rightarrow> u32 \<Rightarrow> int" where
  "set_handler signum handler_address = -1"

definition sys_close :: "int \<Rightarrow> 'a proc_scheme \<Rightarrow> int \<times> 'a proc_scheme" where
  "sys_close fd s =
     (if fd < 2 \<or> fd > MAX_FD then (-1, s)
      else if in_use_flag (file_array (cur_pcb s) ! nat fd) \<noteq> 1 then (-1, s)
      else let s = upd_fd (nat fd) (\<lambda>d. d\<lparr>in_use_flag := 0\<rparr>) s;
               s = upd_fd (nat fd) (\<lambda>d. d\<lparr>inode_type := 0\<rparr>) s;
               s = upd_fd (nat fd) (\<lambda>d. d\<lparr>fop_table := Null_table\<rparr>) s;
               s = upd_fd (nat fd) (\<lambda>d. d\<lparr>offset := 0\<rparr>) s;
               s = upd_pcb (\<lambda>p. p\<lparr>program_counter := program_counter p - 1\<rparr>) s
           in (0, s))"

definition fs_file_close :: "int \<Rightarrow> 'a proc_scheme \<Rightarrow> int \<times> 'a proc_scheme" where
  "fs_file_close fd s = sys_close fd s"

definition fs_dir_close :: "int \<Rightarrow> 'a proc_scheme \<Rightarrow> int \<times> 'a proc_scheme" where
  "fs_dir_close fd s = sys_close fd s"

definition rtc_close :: "int \<Rightarrow> 'a proc_scheme \<Rightarrow> int \<times> 'a proc_scheme" where
  "rtc_close fd s = sys_close fd s"

text \<open>The loop that looks for an unused descriptor; 0 when all are in use.\<close>

definition free_fd :: "file_des_t list \<Rightarrow> nat" where
  "free_fd fa = (case find (\<lambda>i. in_use_flag (fa ! i) = 0) [FD_START_FILE..<FD_MAX_FILE] of None \<Rightarrow> 0 | Some i \<Rightarrow> i)"

definition set_fd :: "fops \<Rightarrow> u32 \<Rightarrow> file_des_t \<Rightarrow> file_des_t" where
  "set_fd t ino d = d\<lparr>fop_table := t, inode_type := ino, offset := 0, in_use_flag := 1\<rparr>"

text \<open>The part of \<^verbatim>\<open>open\<close> after the lookup: a descriptor for the entry found.\<close>

definition open_dentry :: "u8 list \<Rightarrow> 'a proc_scheme \<Rightarrow> int \<times> 'a proc_scheme" where
  "open_dentry loc_dentry s =
     (let fd = free_fd (file_array (cur_pcb s))
      in if fd = 0 then (-1, s)
         else let s = upd_pcb (\<lambda>p. p\<lparr>program_counter := program_counter p + 1\<rparr>) s;
                  type = de_filetype loc_dentry;
                  s = (if type = 0 then upd_fd fd (set_fd Rtc_table 0) s
                       else if type = 1 then upd_fd fd (set_fd Dir_table 0) s
                       else if type = 2 then upd_fd fd (set_fd File_table (de_inode loc_dentry)) s
                       else s)
              in (int fd, s))"

definition sys_open :: "cptr \<Rightarrow> 'a proc_scheme \<Rightarrow> (int \<times> 'a proc_scheme) res" where
  "sys_open filename s =
     (if is_null filename then Inr (-1, s)
      else rbind (vstrlen s filename) (\<lambda>n.
        if n = 0 then Inr (-1, s)
        else rbind (read_dentry_by_name filename s) (\<lambda>(r, d).
          case d of
            None \<Rightarrow> Inr (-1, s)
          | Some loc_dentry \<Rightarrow> if r = -1 then Inr (-1, s) else Inr (open_dentry loc_dentry s))))"

definition fs_file_read :: "int \<Rightarrow> u32 \<Rightarrow> int \<Rightarrow> 'a proc_scheme \<Rightarrow> (int \<times> 'a proc_scheme) res" where
  "fs_file_read fd buf nbytes s =
     (let d = file_array (cur_pcb s) ! nat fd
      in rbind (read_data (inode_type d) (offset d) buf (word_of_int nbytes) s) (\<lambda>(next_offset, s).
           Inr (next_offset, upd_fd (nat fd) (\<lambda>d. d\<lparr>offset := offset d + word_of_int next_offset\<rparr>) s)))"

definition sys_read :: "('a proc_scheme \<Rightarrow> 'a proc_scheme res) list \<Rightarrow> int \<Rightarrow> u32 \<Rightarrow> int
    \<Rightarrow> 'a proc_scheme \<Rightarrow> (int \<times> 'a proc_scheme) res" where
  "sys_read interrupts fd buf nbytes s =
     (if nbytes < 0 \<or> fd < 0 \<or> fd > MAX_FD \<or> fd = 1 \<or> buf = 0 then Inr (-1, s)
      else let d = file_array (cur_pcb s) ! nat fd
           in if in_use_flag d = 0 then Inr (-1, s)
              else (case fop_table d of
                      File_table \<Rightarrow> fs_file_read fd buf nbytes s
                    | Dir_table \<Rightarrow> fs_dir_read fd buf nbytes s
                    | Rtc_table \<Rightarrow> rtc_read interrupts fd buf nbytes s
                    | Stdin_table \<Rightarrow> term_read interrupts fd buf nbytes s
                    | Stdout_table \<Rightarrow> Inr (default_op, s)
                    | Null_table \<Rightarrow> Inl PageFault))"

definition sys_write :: "int \<Rightarrow> u32 \<Rightarrow> int \<Rightarrow> 'a proc_scheme \<Rightarrow> (int \<times> 'a proc_scheme) res" where
  "sys_write fd buf nbytes s =
     (if nbytes < 0 \<or> fd < 1 \<or> fd > MAX_FD then Inr (-1, s)
      else let d = file_array (cur_pcb s) ! nat fd
           in if in_use_flag d = 0 then Inr (-1, s)
              else (case fop_table d of
                      File_table \<Rightarrow> Inr (fs_file_write fd buf nbytes, s)
                    | Dir_table \<Rightarrow> Inr (fs_dir_write fd buf nbytes, s)
                    | Rtc_table \<Rightarrow> rtc_write fd buf nbytes s
                    | Stdin_table \<Rightarrow> Inr (default_op, s)
                    | Stdout_table \<Rightarrow> term_write fd buf nbytes s
                    | Null_table \<Rightarrow> Inl PageFault))"

definition getargs :: "u32 \<Rightarrow> int \<Rightarrow> 'a proc_scheme \<Rightarrow> (int \<times> 'a proc_scheme) res" where
  "getargs buf nbytes s =
     (if buf = 0 \<or> nbytes < 0 then Inr (-1, s)
      else if get_pcb s = 0 then Inr (-1, s)
      else rbind (strlen (vview s) (Obj (arg (cur_pcb s)))) (\<lambda>len.
        if nbytes < int len + 1 \<or> len = 0 then Inr (-1, s)
        else rbind (vmemset buf 0 1024 s) (\<lambda>s.
             rbind (vstore buf (take len (arg (cur_pcb s))) s) (\<lambda>s. Inr (0, s)))))"

definition vidmap :: "u32 \<Rightarrow> 'a proc_scheme \<Rightarrow> (int \<times> 'a proc_scheme) res" where
  "vidmap screen_start s =
     (if screen_start = 0 \<or> sint screen_start < 0x8000000 \<or> sint screen_start > 0x8400000 then Inr (-1, s)
      else let (v, s) = vidmap_helper s
           in rbind (vstore screen_start (bytes32 v) s) (\<lambda>s. Inr (0, s)))"

section \<open>The descriptor table\<close>

text \<open>
  The specification of the descriptor table of a process: a partial map from descriptors to open files (kind,
  inode, position). \<open>pcb_ok\<close> is its invariant: eight entries, the two standard streams always open, each of the others
  either open with the table of a kind of file or cleared.
\<close>

type_synonym open_file = "fops \<times> u32 \<times> u32"

definition fds :: "pcb_t \<Rightarrow> nat \<rightharpoonup> open_file" where
  "fds p i = (if i < 8 \<and> in_use_flag (file_array p ! i) \<noteq> 0
              then let d = file_array p ! i in Some (fop_table d, inode_type d, offset d) else None)"

definition fd_ok :: "nat \<Rightarrow> file_des_t \<Rightarrow> bool" where
  "fd_ok i d \<longleftrightarrow>
     (if i = 0 then fop_table d = Stdin_table \<and> in_use_flag d = 1
      else if i = 1 then fop_table d = Stdout_table \<and> in_use_flag d = 1
      else in_use_flag d = 1 \<and> fop_table d \<in> {File_table, Dir_table, Rtc_table} \<or>
           in_use_flag d = 0 \<and> fop_table d = Null_table \<and> inode_type d = 0 \<and> offset d = 0)"

definition pcb_ok :: "pcb_t \<Rightarrow> bool" where
  "pcb_ok p \<longleftrightarrow> length (file_array p) = 8 \<and> (\<forall>i < 8. fd_ok i (file_array p ! i)) \<and>
     length (arg p) = 1024 \<and> 0 \<in> set (arg p)"

definition spec_open :: "open_file \<Rightarrow> (nat \<rightharpoonup> open_file) \<Rightarrow> int \<times> (nat \<rightharpoonup> open_file)" where
  "spec_open f m = (case find (\<lambda>i. m i = None) [2..<8] of None \<Rightarrow> (-1, m) | Some i \<Rightarrow> (int i, m(i \<mapsto> f)))"

definition spec_close :: "int \<Rightarrow> (nat \<rightharpoonup> open_file) \<Rightarrow> int \<times> (nat \<rightharpoonup> open_file)" where
  "spec_close fd m = (if 2 \<le> fd \<and> fd \<le> 7 \<and> m (nat fd) \<noteq> None then (0, m(nat fd := None)) else (-1, m))"

definition entry_file :: "u8 list \<Rightarrow> open_file" where
  "entry_file d = (if de_filetype d = 0 then (Rtc_table, 0, 0) else if de_filetype d = 1 then (Dir_table, 0, 0)
     else (File_table, de_inode d, 0))"

lemma get_pcb_upd [simp]: "get_pcb (upd_pcb f s) = get_pcb s" "get_pcb (upd_fd i g s) = get_pcb s"
  by (simp_all add: get_pcb_def upd_fd_def upd_pcb_def)

lemma cur_pcb_upd [simp]: "cur_pcb (upd_pcb f s) = f (cur_pcb s)"
  by (simp add: cur_pcb_def upd_pcb_def get_pcb_def)

lemma upd_pcb_upd_pcb [simp]: "upd_pcb f (upd_pcb g s) = upd_pcb (\<lambda>p. f (g p)) s"
  by (simp add: upd_pcb_def cur_pcb_def get_pcb_def)

lemma upd_pcb_cong: "f (cur_pcb s) = g (cur_pcb s) \<Longrightarrow> upd_pcb f s = upd_pcb g s"
  by (simp add: upd_pcb_def)

lemma cleared_fd:
  "d\<lparr>in_use_flag := 0, inode_type := 0, fop_table := Null_table, offset := 0\<rparr> =
     \<lparr>fop_table = Null_table, inode_type = 0, offset = 0, in_use_flag = 0\<rparr>"
  by simp

lemma fd_ok_flag: "fd_ok i d \<Longrightarrow> in_use_flag d = 0 \<or> in_use_flag d = 1"
  by (auto simp: fd_ok_def split: if_splits)

lemma pcb_ok_fd: "pcb_ok p \<Longrightarrow> i < 8 \<Longrightarrow> fd_ok i (file_array p ! i)"
  by (simp add: pcb_ok_def)

text \<open>Replacing one descriptor of a table.\<close>

lemma pcb_ok_set:
  assumes "pcb_ok p" and "i < 8" and "fd_ok i d"
  shows "pcb_ok (p\<lparr>file_array := (file_array p)[i := d]\<rparr>)"
  using assms by (auto simp: pcb_ok_def nth_list_update)

lemma fds_set:
  assumes "length (file_array p) = 8" and "i < 8"
  shows "fds (p\<lparr>file_array := (file_array p)[i := d]\<rparr>) =
    (fds p)(i := if in_use_flag d = 0 then None else Some (fop_table d, inode_type d, offset d))"
  using assms by (auto simp: fds_def nth_list_update Let_def fun_eq_iff)

lemma pcb_ok_counter [simp]: "pcb_ok (p\<lparr>program_counter := c\<rparr>) = pcb_ok p" "fds (p\<lparr>program_counter := c\<rparr>) = fds p"
  by (simp_all add: pcb_ok_def fds_def fun_eq_iff)

lemma free_fd_find:
  assumes "pcb_ok p"
  shows "free_fd (file_array p) = (case find (\<lambda>i. fds p i = None) [2..<8] of None \<Rightarrow> 0 | Some i \<Rightarrow> i)"
proof -
  have "find (\<lambda>i. in_use_flag (file_array p ! i) = 0) [2..<8] = find (\<lambda>i. fds p i = None) [2..<8]"
    by (rule find_cong) (auto simp: fds_def Let_def)
  then show ?thesis by (simp add: free_fd_def)
qed

lemma find_fd_range: "find P [2..<8] = Some i \<Longrightarrow> 2 \<le> i \<and> i < 8 \<and> P i"
  by (metis atLeastLessThan_iff find_Some_iff nth_mem set_upt)

lemma open_dentry_refines:
  assumes ok: "pcb_ok (cur_pcb s)" and ty: "de_filetype d \<le> 2"
  shows "\<exists>f. open_dentry d s = (fst (spec_open (entry_file d) (fds (cur_pcb s))), upd_pcb f s) \<and>
    pcb_ok (f (cur_pcb s)) \<and> fds (f (cur_pcb s)) = snd (spec_open (entry_file d) (fds (cur_pcb s)))"
proof (cases "find (\<lambda>i. fds (cur_pcb s) i = None) [2..<8]")
  case None
  have "upd_pcb (\<lambda>p. p) s = s" by (simp add: upd_pcb_def cur_pcb_def)
  with None ok show ?thesis
    by (intro exI [of _ "\<lambda>p. p"]) (simp add: open_dentry_def free_fd_find spec_open_def Let_def)
next
  case (Some i)
  then have i: "2 \<le> i" "i < 8" using find_fd_range by blast+
  let ?p = "cur_pcb s" and ?t = "fst (entry_file d)" and ?n = "fst (snd (entry_file d))"
  define g where "g = (\<lambda>p :: pcb_t. p\<lparr>program_counter := program_counter p + 1\<rparr>)"
  define f where "f = (\<lambda>p. let p = g p in p\<lparr>file_array := (file_array p)[i := set_fd ?t ?n (file_array p ! i)]\<rparr>)"
  have "unat (de_filetype d) \<le> 2" using ty by (simp add: word_le_nat_alt)
  then have "unat (de_filetype d) = 0 \<or> unat (de_filetype d) = 1 \<or> unat (de_filetype d) = 2" by auto
  then have "de_filetype d = 0 \<or> de_filetype d = 1 \<or> de_filetype d = 2" by (simp add: word_unat_eq_iff)
  then have "open_dentry d s = (int i, upd_pcb f s)"
    using Some ok i
    by (auto simp: open_dentry_def free_fd_find Let_def upd_fd_def entry_file_def f_def g_def intro!: upd_pcb_cong)
  moreover have gp: "pcb_ok (g ?p)" "fds (g ?p) = fds ?p" using ok by (simp_all add: g_def)
  moreover have "fd_ok i (set_fd ?t ?n (file_array (g ?p) ! i))"
    using i by (simp add: fd_ok_def set_fd_def entry_file_def)
  then have "pcb_ok (f ?p)" unfolding f_def Let_def using gp i by (intro pcb_ok_set)
  moreover have "fds (f ?p) = (fds ?p)(i \<mapsto> entry_file d)"
    unfolding f_def Let_def using gp i by (subst fds_set) (simp_all add: pcb_ok_def set_fd_def entry_file_def)
  ultimately show ?thesis using Some by (auto simp: spec_open_def)
qed

lemma sys_close_refines:
  assumes ok: "pcb_ok (cur_pcb s)"
  shows "\<exists>f. sys_close fd s = (fst (spec_close fd (fds (cur_pcb s))), upd_pcb f s) \<and>
    pcb_ok (f (cur_pcb s)) \<and> fds (f (cur_pcb s)) = snd (spec_close fd (fds (cur_pcb s))) \<and>
    (\<forall>p. pcb_esp (f p) = pcb_esp p \<and> pcb_ebp (f p) = pcb_ebp p)"
proof (cases "2 \<le> fd \<and> fd \<le> 7 \<and> fds (cur_pcb s) (nat fd) \<noteq> None")
  case False
  have "sys_close fd s = (-1, s)"
    using False by (auto simp: sys_close_def fds_def Let_def split: if_splits)
  moreover have "upd_pcb (\<lambda>p. p) s = s" by (simp add: upd_pcb_def cur_pcb_def)
  ultimately show ?thesis using False ok by (intro exI [of _ "\<lambda>p. p"]) (auto simp: spec_close_def)
next
  case True
  let ?p = "cur_pcb s" and ?i = "nat fd"
  let ?d = "\<lparr>fop_table = Null_table, inode_type = 0, offset = 0, in_use_flag = 0\<rparr>"
  define f where "f = (\<lambda>p :: pcb_t. p\<lparr>file_array := (file_array p)[?i := ?d], program_counter := program_counter p - 1\<rparr>)"
  have i: "?i < 8" "2 \<le> ?i" using True by auto
  have len: "length (file_array ?p) = 8" using ok by (simp add: pcb_ok_def)
  have "in_use_flag (file_array ?p ! ?i) = 1"
    using True pcb_ok_fd [OF ok i(1)] fd_ok_flag by (auto simp: fds_def Let_def split: if_splits)
  then have "sys_close fd s = (0, upd_pcb f s)"
    using True i len by (auto simp: sys_close_def upd_fd_def Let_def f_def cleared_fd intro!: upd_pcb_cong)
  moreover have "pcb_ok (?p\<lparr>file_array := (file_array ?p)[?i := ?d]\<rparr>)"
    using ok i by (intro pcb_ok_set) (simp_all add: fd_ok_def)
  then have "pcb_ok (f ?p)" by (simp add: f_def)
  moreover have "fds (f ?p) = (fds ?p)(?i := None)"
    using fds_set [OF len i(1), of ?d] by (simp add: f_def)
  moreover have "\<forall>p. pcb_esp (f p) = pcb_esp p \<and> pcb_ebp (f p) = pcb_ebp p" by (simp add: f_def)
  ultimately show ?thesis using True by (auto simp: spec_close_def)
qed

lemma sys_close_unopened: "fds (cur_pcb s) (nat fd) = None \<Longrightarrow> sys_close fd s = (-1, s)"
  by (auto simp: sys_close_def fds_def Let_def split: if_splits)

section \<open>The interface of the descriptor table\<close>

fun alloc_all :: "('f \<Rightarrow> 's \<Rightarrow> int \<times> 's) \<Rightarrow> 'f list \<Rightarrow> 's \<Rightarrow> int list \<times> 's" where
  "alloc_all alloc [] s = ([], s)"
| "alloc_all alloc (f # fs) s = (let (r, s) = alloc f s; (rs, s) = alloc_all alloc fs s in (r # rs, s))"

lemma find_from: "find (\<lambda>i. k + 2 \<le> i) [2..<8] = (if k < 6 then Some (k + 2) else None)"
proof -
  have "k = 0 \<or> k = 1 \<or> k = 2 \<or> k = 3 \<or> k = 4 \<or> k = 5 \<or> 6 \<le> k" by arith
  then show ?thesis by (auto simp: upt_rec)
qed

locale descriptor_table =
  fixes alloc :: "'f \<Rightarrow> 's \<Rightarrow> int \<times> 's" and release :: "int \<Rightarrow> 's \<Rightarrow> int \<times> 's"
    and file_of :: "'f \<Rightarrow> open_file" and view :: "'s \<Rightarrow> nat \<rightharpoonup> open_file"
    and inv :: "'s \<Rightarrow> bool" and valid :: "'f \<Rightarrow> bool"
  assumes alloc_law: "inv s \<Longrightarrow> valid f \<Longrightarrow>
      inv (snd (alloc f s)) \<and> (fst (alloc f s), view (snd (alloc f s))) = spec_open (file_of f) (view s)"
    and release_law: "inv s \<Longrightarrow>
      inv (snd (release fd s)) \<and> (fst (release fd s), view (snd (release fd s))) = spec_close fd (view s)"
begin

lemma alloc_fresh:
  assumes "inv s" and "valid f" and "alloc f s = (r, s')" and "r \<noteq> -1"
  shows "2 \<le> r \<and> r \<le> 7 \<and> view s (nat r) = None \<and> view s' = (view s)(nat r \<mapsto> file_of f)"
  using alloc_law [OF assms(1,2)] assms(3,4) by (auto simp: spec_open_def simp del: upt_rec_numeral split: option.splits dest: find_fd_range)

lemma alloc_release:
  assumes "inv s" and "valid f" and "alloc f s = (r, s')" and "r \<noteq> -1"
  shows "fst (release r s') = 0 \<and> view (snd (release r s')) = view s \<and> inv (snd (release r s'))"
proof -
  have inv': "inv s'" using alloc_law [OF assms(1,2)] assms(3) by simp
  have "(fst (release r s'), view (snd (release r s'))) = (0, view s)"
    using release_law [OF inv', of r] alloc_fresh [OF assms] by (auto simp: spec_close_def)
  then show ?thesis using release_law [OF inv', of r] by simp
qed

lemma alloc_sequence:
  assumes "\<forall>f \<in> set fs. valid f"
  shows "inv s \<Longrightarrow> (\<forall>i. 2 \<le> i \<and> i < 8 \<longrightarrow> (view s i = None \<longleftrightarrow> k + 2 \<le> i)) \<Longrightarrow>
    fst (alloc_all alloc fs s) = map (\<lambda>j. if k + j < 6 then int (k + j + 2) else -1) [0..<length fs]"
  using assms
proof (induction fs arbitrary: s k)
  case (Cons f fs)
  obtain r s1 where a: "alloc f s = (r, s1)" by (cases "alloc f s")
  have inv1: "inv s1" and sp: "(r, view s1) = spec_open (file_of f) (view s)"
    using alloc_law [OF Cons.prems(1), of f] Cons.prems(3) a by auto
  have "find (\<lambda>i. view s i = None) [2..<8] = find (\<lambda>i. k + 2 \<le> i) [2..<8]"
    using Cons.prems(2) by (intro find_cong) auto
  note free = this [unfolded find_from]
  have r: "r = (if k < 6 then int (k + 2) else -1)"
    and v: "view s1 = (if k < 6 then (view s)(k + 2 \<mapsto> file_of f) else view s)"
    using sp unfolding spec_open_def free by (auto split: if_splits)
  have "fst (alloc_all alloc fs s1) = map (\<lambda>j. if Suc k + j < 6 then int (Suc k + j + 2) else -1) [0..<length fs]"
    using Cons.prems(2,3) inv1 v by (intro Cons.IH) auto
  then show ?case using a r
    by (auto simp: Let_def split_beta upt_conv_Cons map_Suc_upt [symmetric] simp del: upt_Suc)
qed simp

end

interpretation fdt: descriptor_table open_dentry sys_close entry_file "\<lambda>s. fds (cur_pcb s)" "\<lambda>s. pcb_ok (cur_pcb s)" "\<lambda>d. de_filetype d \<le> 2"
proof
  fix s :: "'a proc_scheme" and d :: "u8 list" and fd :: int
  assume ok: "pcb_ok (cur_pcb s)"
  show "pcb_ok (cur_pcb (snd (open_dentry d s))) \<and>
      (fst (open_dentry d s), fds (cur_pcb (snd (open_dentry d s)))) = spec_open (entry_file d) (fds (cur_pcb s))"
    if "de_filetype d \<le> 2"
    using open_dentry_refines [OF ok that] by auto
  show "pcb_ok (cur_pcb (snd (sys_close fd s))) \<and>
      (fst (sys_close fd s), fds (cur_pcb (snd (sys_close fd s)))) = spec_close fd (fds (cur_pcb s))"
    using sys_close_refines [OF ok, of fd] by auto
qed

section \<open>Opening by name\<close>

lemma sys_open_eq:
  assumes "length (boot_block s) = 4096" and "\<not> is_null fname" and "vstrlen s fname = Inr k" and "0 < k"
  shows "sys_open fname s =
    Inr (case find (\<lambda>i. entry_name (boot_block s) i = arg_name s fname) [0..<63] of
           None \<Rightarrow> (-1, s) | Some i \<Rightarrow> open_dentry (direntries (boot_block s) i) s)"
  using assms read_dentry_by_name_eq [OF assms] by (auto simp: sys_open_def split: option.splits)

lemma upd_pcb_frame [simp]:
  "mem (upd_pcb f s) = mem s" "boot_block (upd_pcb f s) = boot_block s" "inode_addr (upd_pcb f s) = inode_addr s"
  "data_block_addr (upd_pcb f s) = data_block_addr s" "tables (upd_pcb f s) = tables s" "kbd_part (upd_pcb f s) = kbd_part s"
  "esp (upd_pcb f s) = esp s"
  by (simp_all add: upd_pcb_def tables_def kbd_part_def)

lemma phys_upd_pcb [simp]: "phys write (upd_pcb f s) va n = phys write s va n"
  by (rule tables_phys) simp

lemma cur_pcb_mem [simp]: "cur_pcb (s\<lparr>mem := m\<rparr>) = cur_pcb s" "get_pcb (s\<lparr>mem := m\<rparr>) = get_pcb s"
  by (simp_all add: cur_pcb_def get_pcb_def)

section \<open>Reading a file through its descriptor\<close>

lemma sys_read_file:
  assumes ok: "pcb_ok (cur_pcb s)" and fd: "2 \<le> fd" "fd \<le> 7"
    and f: "fds (cur_pcb s) (nat fd) = Some (File_table, ino, off)"
    and args: "buf \<noteq> 0" "0 \<le> nbytes" and rd: "read_data ino off buf (word_of_int nbytes) s = Inr (int n, s\<lparr>mem := m\<rparr>)"
  shows "\<exists>g. sys_read hs fd buf nbytes s = Inr (int n, upd_pcb g (s\<lparr>mem := m\<rparr>)) \<and> pcb_ok (g (cur_pcb s)) \<and>
    fds (g (cur_pcb s)) = (fds (cur_pcb s))(nat fd \<mapsto> (File_table, ino, off + of_nat n))"
proof -
  let ?p = "cur_pcb s" and ?i = "nat fd"
  let ?d = "file_array ?p ! ?i"
  have i: "?i < 8" and len: "length (file_array ?p) = 8" using fd ok by (auto simp: pcb_ok_def)
  have d: "in_use_flag ?d = 1" "fop_table ?d = File_table" "inode_type ?d = ino" "offset ?d = off"
    using f pcb_ok_fd [OF ok i] fd_ok_flag by (auto simp: fds_def Let_def split: if_splits)
  define e where "e = ?d\<lparr>offset := off + of_nat n\<rparr>"
  define g where "g = (\<lambda>p :: pcb_t. p\<lparr>file_array := (file_array p)[?i := e]\<rparr>)"
  have "sys_read hs fd buf nbytes s = Inr (int n, upd_pcb g (s\<lparr>mem := m\<rparr>))"
    using fd args d rd
    by (auto simp: sys_read_def fs_file_read_def Let_def upd_fd_def g_def e_def intro!: upd_pcb_cong)
  moreover have "pcb_ok (g ?p)"
    unfolding g_def using ok i pcb_ok_fd [OF ok i] d fd by (intro pcb_ok_set) (auto simp: e_def fd_ok_def)
  moreover have "fds (g ?p) = (fds ?p)(?i \<mapsto> (File_table, ino, off + of_nat n))"
    unfolding g_def using len i d by (subst fds_set) (simp_all add: e_def)
  ultimately show ?thesis by blast
qed

text \<open>A program that reads a file in pieces of the given sizes into one buffer, and what each read delivers.\<close>

fun file_reads :: "int list \<Rightarrow> int \<Rightarrow> u32 \<Rightarrow> 'a proc_scheme \<Rightarrow> (u8 list list \<times> 'a proc_scheme) res" where
  "file_reads [] fd buf s = Inr ([], s)"
| "file_reads (n # ns) fd buf s =
     rbind (sys_read [] fd buf n s) (\<lambda>(r, s).
     rbind (vload s buf (nat r)) (\<lambda>bs.
     rbind (file_reads ns fd buf s) (\<lambda>(bss, s). Inr (bs # bss, s))))"

text \<open>
  A sound file of one block, its inode, and a buffer of \<open>c\<close> bytes apart from both.
\<close>

definition small_file :: "'a fs_scheme \<Rightarrow> u32 \<Rightarrow> u8 list \<Rightarrow> nat \<Rightarrow> u32 \<Rightarrow> u32 \<Rightarrow> nat \<Rightarrow> bool" where
  "small_file s ino b L buf pb c \<longleftrightarrow>
     (\<exists>pi. phys False s (inode_addr s + ino * 4096) 4096 = Inr pi \<and> rd (mem s) pi 4096 = b \<and> disjoint_ranges pi 4096 pb c) \<and>
     L = unat (ino_length b) \<and> L < 4096 \<and> buf \<noteq> 0 \<and> 0 < c \<and> c < 2147483648 \<and> phys True s buf c = Inr pb \<and>
     0 \<le> sint (ino_block b 0) \<and> sint (ino_block b 0) < sint (bb_data_count (boot_block s)) \<and>
     phys False s (block_addr s b 0) 4096 = Inr (block_addr s b 0) \<and> disjoint_ranges (block_addr s b 0) 4096 pb c"

lemma small_file_read:
  assumes sf: "small_file s ino b L buf pb c" and off: "unat off \<le> L" and n: "0 < n" "n \<le> int c"
    and k: "k = min (nat n) (L - unat off)"
  shows "read_data ino off buf (word_of_int n) s =
    Inr (int k, s\<lparr>mem := wr (mem s) pb (map (file_byte s b) [unat off..<unat off + k])\<rparr>)"
proof -
  have c: "c < 2147483648" "L < 4096" "L = unat (ino_length b)" "phys True s buf c = Inr pb" using sf by (simp_all add: small_file_def)
  have len: "unat (word_of_int n :: u32) = nat n"
    using n c(1) unat_of_nat_u32 [of "nat n"] by simp
  have "vload s (inode_addr s + ino * 4096) 4096 = Inr b" using sf by (auto simp: small_file_def vload_def)
  moreover have "(word_of_int n :: u32) \<noteq> 0" using len n by (auto simp: unat_eq_0)
  moreover have "unat off + k < 4096" using off c(2) k by simp
  moreover have "read_ok s b L buf (if k = 0 then buf else pb) k"
    unfolding read_ok_def
  proof (intro conjI allI impI)
    show "phys True s buf k = Inr (if k = 0 then buf else pb)"
      using phys_sub [OF c(4), of 0 k] n k by auto
    fix i assume "i \<le> L div 4096"
    then have "i = 0" using c(2) by simp
    then show "0 \<le> sint (ino_block b i)" "sint (ino_block b i) < sint (bb_data_count (boot_block s))"
      "phys False s (block_addr s b i) 4096 = Inr (block_addr s b i)"
      using sf by (simp_all add: small_file_def)
    show "disjoint_ranges (block_addr s b i) 4096 (if k = 0 then buf else pb) k"
    proof (cases "k = 0")
      case True
      then show ?thesis by (simp add: disjoint_ranges_def in_range_def)
    next
      case False
      then show ?thesis using sf \<open>i = 0\<close> k n
        by (auto simp: small_file_def intro: disjoint_ranges_mono [of _ 4096 _ c])
    qed
  qed (use c k in auto)
  moreover have "unat (word_of_int n :: u32) + unat off < 4294967296" using len n c off by simp
  ultimately have "read_data ino off buf (word_of_int n) s =
      Inr (int k, s\<lparr>mem := wr (mem s) (if k = 0 then buf else pb) (map (file_byte s b) (source_positions (unat off) k))\<rparr>)"
    using off c(3) k len sf by (intro read_data_exact [where L = L]) (simp_all add: small_file_def)
  moreover have "source_positions (unat off) k = [unat off..<unat off + k]"
    using off c(2) k by (intro source_positions_ok) auto
  ultimately show ?thesis by (cases "k = 0") simp_all
qed

lemma small_file_step:
  assumes sf: "small_file s ino b L buf pb c" and len: "length xs \<le> c"
  shows "small_file (upd_pcb g (s\<lparr>mem := wr (mem s) pb xs\<rparr>)) ino b L buf pb c"
    and "k < 4096 \<Longrightarrow> file_byte (upd_pcb g (s\<lparr>mem := wr (mem s) pb xs\<rparr>)) b k = file_byte s b k"
proof -
  have keep: "wr (mem s) pb xs (a + of_nat k) = mem s (a + of_nat k)" if "disjoint_ranges a 4096 pb c" "k < 4096" for a k
    using that len by (intro wr_outside) (auto simp: disjoint_ranges_def in_range_def)
  then have "rd (wr (mem s) pb xs) a 4096 = rd (mem s) a 4096" if "disjoint_ranges a 4096 pb c" for a
    using that by (intro rd_cong)
  then show "small_file (upd_pcb g (s\<lparr>mem := wr (mem s) pb xs\<rparr>)) ino b L buf pb c"
    using sf by (auto simp: small_file_def block_addr_def)
  show "file_byte (upd_pcb g (s\<lparr>mem := wr (mem s) pb xs\<rparr>)) b k = file_byte s b k" if "k < 4096"
    using sf keep that by (simp add: small_file_def file_byte_def block_addr_def)
qed

lemma file_reads_deliver:
  assumes fd: "2 \<le> fd" "fd \<le> 7" and ns: "\<forall>n \<in> set ns. 0 < n \<and> n \<le> int c"
  shows "pcb_ok (cur_pcb s) \<Longrightarrow> fds (cur_pcb s) (nat fd) = Some (File_table, ino, off) \<Longrightarrow>
    small_file s ino b L buf pb c \<Longrightarrow> unat off \<le> L \<Longrightarrow>
    \<exists>bss s'. file_reads ns fd buf s = Inr (bss, s') \<and> length bss = length ns \<and>
      concat bss = map (file_byte s b) [unat off..<min L (unat off + nat (sum_list ns))] \<and> pcb_ok (cur_pcb s')"
  using ns
proof (induction ns arbitrary: s off)
  case Nil
  then show ?case by (simp add: min_absorb2)
next
  case (Cons n ns)
  note sf = Cons.prems(3)
  define k where "k = min (nat n) (L - unat off)"
  have n: "0 < n" "n \<le> int c" and L: "L < 4096" and c: "buf \<noteq> 0" "phys True s buf c = Inr pb"
    using Cons.prems(5) sf by (simp_all add: small_file_def)
  let ?xs = "map (file_byte s b) [unat off..<unat off + k]"
  let ?m = "wr (mem s) pb ?xs"
  have kc: "length ?xs \<le> c" "k < 4294967296" using n L by (auto simp: k_def)
  obtain g where g: "sys_read [] fd buf n s = Inr (int k, upd_pcb g (s\<lparr>mem := ?m\<rparr>))" "pcb_ok (g (cur_pcb s))"
    "fds (g (cur_pcb s)) = (fds (cur_pcb s))(nat fd \<mapsto> (File_table, ino, off + of_nat k))"
    using sys_read_file [OF Cons.prems(1) fd Cons.prems(2) c(1) _ small_file_read [OF sf Cons.prems(4) n k_def]] n(1) by force
  let ?s = "upd_pcb g (s\<lparr>mem := ?m\<rparr>)"
  have off': "unat (off + of_nat k) = unat off + k"
    using Cons.prems(4) L by (intro u32_less_add_eq) (simp add: k_def)
  have ld: "vload ?s buf (nat (int k)) = Inr ?xs"
  proof (cases "k = 0")
    case False
    then have "phys False s buf k = Inr pb"
      using phys_sub [OF c(2), of 0 k] n by (simp add: phys_kernel_write k_def)
    then show ?thesis using rd_wr_same [of ?xs "mem s" pb] kc by (simp add: vload_def)
  qed (simp add: vload_def)
  have off_le: "unat (off + of_nat k) \<le> L" using off' Cons.prems(4) by (simp add: k_def)
  obtain bss s' where ih: "file_reads ns fd buf ?s = Inr (bss, s')" "length bss = length ns" "pcb_ok (cur_pcb s')"
    "concat bss = map (file_byte ?s b) [unat (off + of_nat k)..<min L (unat (off + of_nat k) + nat (sum_list ns))]"
    using Cons.IH [OF _ _ small_file_step(1) [OF sf kc(1)] off_le, of g] g(2,3) Cons.prems(5) by auto
  let ?e = "min L (unat off + nat (sum_list (n # ns)))"
  have "0 \<le> sum_list ns" using Cons.prems(5) by (intro sum_list_nonneg) auto
  then have e: "min L (unat off + k + nat (sum_list ns)) = ?e"
    using n(1) Cons.prems(4) by (auto simp: k_def min_def nat_add_distrib)
  have "concat bss = map (file_byte s b) [unat off + k..<?e]"
    using small_file_step(2) [OF sf kc(1)] L unfolding ih(4) off' e by (intro map_cong) auto
  moreover have "[unat off..<?e] = [unat off..<unat off + k] @ [unat off + k..<?e]"
  proof -
    have "unat off + k \<le> ?e" using e by (metis Cons.prems(4) le_add1 min.boundedI off' off_le)
    then show ?thesis using upt_add_eq_append [of "unat off" "unat off + k" "?e - (unat off + k)"] by simp
  qed
  ultimately show ?case using g(1) ld ih(1-3) by simp
qed

section \<open>Kernel stacks\<close>

lemma align_8k:
  assumes "q < 524288" and "r < 8192"
  shows "(of_nat (q * 8192 + r) :: u32) AND 0xFFFFE000 = of_nat (q * 8192)"
proof -
  let ?x = "of_nat (q * 8192 + r) :: u32"
  have m: "(0xFFFFE000 :: u32) = NOT (mask 13)" by (simp add: mask_eq_exp_minus_1)
  have "y AND NOT (mask 13) = push_bit 13 (drop_bit 13 y)" for y :: u32
    by (rule bit_eqI) (auto simp: bit_simps)
  then have "?x AND 0xFFFFE000 = push_bit 13 (drop_bit 13 ?x)" unfolding m by (simp only:)
  then have "?x AND 0xFFFFE000 = ?x - take_bit 13 ?x" using bits_ident [of 13 ?x] by (metis add_diff_cancel_right')
  also have "take_bit 13 ?x = of_nat (take_bit 13 (q * 8192 + r))" by (rule take_bit_of_nat)
  also have "take_bit 13 (q * 8192 + r) = r" using assms by (simp add: take_bit_nat_def)
  finally show ?thesis by simp
qed

lemma uint_kstack:
  assumes "0 \<le> p" and "p < 1000"
  shows "uint (KSTACK_TO_PCB p) = 0x7FE000 - (p + 1) * 0x2000" "uint (kstack_top p) = 0x7FE000 - 0x2000 * p - 4"
proof -
  have u: "uint (word_of_int x :: u32) = x" if "0 \<le> x" "x < 4294967296" for x
    using that by (simp add: uint_word_of_int take_bit_int_eq_self)
  show "uint (KSTACK_TO_PCB p) = 0x7FE000 - (p + 1) * 0x2000"
    using assms unfolding KSTACK_TO_PCB_def by (intro u) auto
  show "uint (kstack_top p) = 0x7FE000 - 0x2000 * p - 4"
    using assms unfolding kstack_top_def by (intro u) auto
qed

lemma KSTACK_TO_PCB_neq_0: "0 \<le> p \<Longrightarrow> p < 1000 \<Longrightarrow> KSTACK_TO_PCB p \<noteq> 0"
  using uint_kstack(1) [of p] by auto

lemma stack_block:
  assumes "0 \<le> p" and "p < 1000" and "d \<le> 0x1FFC"
  shows "(kstack_top p - of_nat d) AND PCB_ADDR_MASK = KSTACK_TO_PCB p"
proof -
  obtain n where n: "p = int n" "n < 1000" using assms by (metis nonneg_int_cases of_nat_less_numeral_iff)
  have "int ((1022 - n) * 8192 + (0x1FFC - d)) = KSTACK_BASE - KSTACK_SIZE * p - 4 - int d"
    using n assms(3) by (simp add: of_nat_diff)
  then have "kstack_top p - of_nat d = of_nat ((1022 - n) * 8192 + (0x1FFC - d))"
    unfolding kstack_top_def by (metis of_int_diff of_int_of_nat_eq)
  moreover have "int ((1022 - n) * 8192) = KSTACK_BASE - (p + 1) * KSTACK_SIZE" using n by (simp add: of_nat_diff)
  then have "of_nat ((1022 - n) * 8192) = KSTACK_TO_PCB p"
    unfolding KSTACK_TO_PCB_def by (metis of_int_of_nat_eq)
  moreover have "(of_nat ((1022 - n) * 8192 + (0x1FFC - d)) :: u32) AND 0xFFFFE000 = of_nat ((1022 - n) * 8192)"
    by (rule align_8k) auto
  ultimately show ?thesis by simp
qed

section \<open>Arguments\<close>

lemma wr_zeros_1024: "length xs \<le> 1024 \<Longrightarrow> rd (wr (wr m a (replicate 1024 0)) a xs) a 1024 = xs @ replicate (1024 - length xs) 0"
  using rd_wr_same [of "xs @ replicate (1024 - length xs) 0" m a] by (simp add: wr_zeros_prefix)

lemma getargs_eq:
  assumes arg: "arg (cur_pcb s) = xs @ 0 # ys" "0 \<notin> set xs" "length (arg (cur_pcb s)) = 1024"
    and pcb: "get_pcb s \<noteq> 0" and buf: "buf \<noteq> 0" "0 \<le> nbytes" "phys True s buf 1024 = Inr pb"
  shows "getargs buf nbytes s =
    (if xs = [] \<or> nbytes < int (length xs) + 1 then Inr (-1, s)
     else Inr (0, s\<lparr>mem := wr (wr (mem s) pb (replicate 1024 0)) pb xs\<rparr>))"
proof -
  have len: "length xs < 1024" using arg(1,3) by simp
  have sl: "strlen (vview s) (Obj (arg (cur_pcb s))) = Inr (length xs)"
    unfolding arg(1) using arg(2) len by (intro strlen_Obj) simp_all
  have ms: "vmemset buf 0 1024 s = Inr (s\<lparr>mem := wr (mem s) pb (replicate 1024 0)\<rparr>)"
    using buf(3) by (simp add: vmemset_def memset_wr)
  show ?thesis
  proof (cases "xs = [] \<or> nbytes < int (length xs) + 1")
    case True
    then show ?thesis using buf(1,2) pcb sl by (auto simp: getargs_def)
  next
    case False
    then have "phys True s buf (length xs) = Inr pb" using phys_sub [OF buf(3), of 0 "length xs"] len by auto
    then have "vstore buf xs (s\<lparr>mem := wr (mem s) pb (replicate 1024 0)\<rparr>) =
        Inr (s\<lparr>mem := wr (wr (mem s) pb (replicate 1024 0)) pb xs\<rparr>)"
      by (simp add: vstore_def)
    then show ?thesis using False buf(1,2) pcb sl ms arg(1) by (auto simp: getargs_def)
  qed
qed

section \<open>A process for the witnesses\<close>

definition closed_fd :: file_des_t where
  "closed_fd = \<lparr>fop_table = Null_table, inode_type = 0, offset = 0, in_use_flag = 0\<rparr>"

definition std_fd :: "fops \<Rightarrow> file_des_t" where
  "std_fd t = \<lparr>fop_table = t, inode_type = 0, offset = 0, in_use_flag = 1\<rparr>"

definition reset_pcb :: pcb_t where
  "reset_pcb = \<lparr>file_array = [std_fd Stdin_table, std_fd Stdout_table] @ replicate 6 closed_fd, status = 1,
     arg = replicate 1024 0, pid = 0, parent_process_ptr = 0, child_process_ptr = 0, process_addr = 0,
     pcb_esp = 0, pcb_ebp = 0, pcb_cr3 = 0, program_counter = 0\<rparr>"

definition reset_proc :: "mem \<Rightarrow> pcb_t \<Rightarrow> proc" where
  "reset_proc m p = kbd.extend (reset_kbd\<lparr>mem := m\<rparr>)
     \<lparr>active_proc = 0, process_counter = 1, pcbs = \<lambda>_. p, esp = kstack_top 0 - 48, ebp = kstack_top 0,
      tss_esp0 = kstack_top 0, tss_ss0 = 0x18, probe_off = -64\<rparr>"

lemma reset_proc_fields [simp]:
  "mem (reset_proc m p) = m" "boot_block (reset_proc m p) = image_boot_block" "cur_pcb (reset_proc m p) = p"
  "inode_addr (reset_proc m p) = 0x501000" "data_block_addr (reset_proc m p) = 0x502000"
  by (simp_all add: reset_proc_def kbd.defs reset_kbd_def fs.defs reset_fs_def cur_pcb_def)

lemma reset_proc_mapped: "kernel_mapped (reset_proc m p)"
  using reset_fs_mapped by (rule kernel_mapped_cong [rotated 4])
    (simp_all add: reset_proc_def kbd.defs reset_kbd_def fs.defs)

lemma closed_fds:
  assumes "file_array p = [std_fd Stdin_table, std_fd Stdout_table] @ replicate 6 closed_fd"
  shows "\<forall>i < 8. fd_ok i (file_array p ! i)" "fds p = [0 \<mapsto> (Stdin_table, 0, 0), 1 \<mapsto> (Stdout_table, 0, 0)]"
proof -
  have i: "i < 8 \<Longrightarrow> i = 0 \<or> i = 1 \<or> (file_array p ! i = closed_fd \<and> 2 \<le> i)" for i
    unfolding assms by (cases i; cases "i - 1") (auto simp: nth_append numeral_2_eq_2)
  then show "\<forall>i < 8. fd_ok i (file_array p ! i)"
    using assms by (auto simp: fd_ok_def std_fd_def closed_fd_def)
  show "fds p = [0 \<mapsto> (Stdin_table, 0, 0), 1 \<mapsto> (Stdout_table, 0, 0)]"
  proof
    fix j show "fds p j = [0 \<mapsto> (Stdin_table, 0, 0), 1 \<mapsto> (Stdout_table, 0, 0)] j"
      using i [of j] assms by (auto simp: fds_def std_fd_def closed_fd_def Let_def)
  qed
qed

lemma reset_pcb_ok: "pcb_ok reset_pcb" "fds reset_pcb = [0 \<mapsto> (Stdin_table, 0, 0), 1 \<mapsto> (Stdout_table, 0, 0)]"
  using closed_fds [of reset_pcb] by (simp_all add: pcb_ok_def reset_pcb_def)

section \<open>Properties\<close>

text \<open>
  Property C11: the descriptor table of a process refines a partial map from descriptors to open files. \<^verbatim>\<open>open\<close> looks the name up
  and, when there is such an entry, binds the lowest free descriptor to its kind, inode and position 0; it
  returns -1 and leaves the table alone when the name is unknown or no descriptor is free. \<^verbatim>\<open>close\<close> unbinds the
  descriptor, and refuses the standard streams and what is not open. Both keep the invariant of the table and
  touch no other process.
\<close>

theorem descriptor_table_refines:
  assumes "pcb_ok (cur_pcb s)" and "length (boot_block s) = 4096" and "\<not> is_null fname"
    and "vstrlen s fname = Inr k" and "0 < k" and "\<forall>i < 63. de_filetype (direntries (boot_block s) i) \<le> 2"
    and "q = (case find (\<lambda>i. entry_name (boot_block s) i = arg_name s fname) [0..<63] of None \<Rightarrow> (-1, fds (cur_pcb s))
              | Some i \<Rightarrow> spec_open (entry_file (direntries (boot_block s) i)) (fds (cur_pcb s)))"
  shows "(\<exists>s'. sys_open fname s = Inr (fst q, s') \<and> fds (cur_pcb s') = snd q \<and> pcb_ok (cur_pcb s') \<and>
       (\<forall>a. a \<noteq> get_pcb s \<longrightarrow> pcbs s' a = pcbs s a)) \<and>
    (\<exists>s'. sys_close fd s = (fst (spec_close fd (fds (cur_pcb s))), s') \<and>
       fds (cur_pcb s') = snd (spec_close fd (fds (cur_pcb s))) \<and> pcb_ok (cur_pcb s') \<and>
       (\<forall>a. a \<noteq> get_pcb s \<longrightarrow> pcbs s' a = pcbs s a))" (is "?open \<and> ?close")
proof
  have other: "a \<noteq> get_pcb s \<Longrightarrow> pcbs (upd_pcb f s) a = pcbs s a" for a f by (simp add: upd_pcb_def)
  show ?close using sys_close_refines [OF assms(1), of fd] other by auto
  show ?open
  proof (cases "find (\<lambda>i. entry_name (boot_block s) i = arg_name s fname) [0..<63]")
    case None
    then show ?thesis using sys_open_eq [OF assms(2-5)] assms(1,7) by simp
  next
    case (Some i)
    then have "i < 63" by (metis atLeastLessThan_iff find_Some_iff nth_mem set_upt)
    then have "de_filetype (direntries (boot_block s) i) \<le> 2" using assms(6) by simp
    from open_dentry_refines [OF assms(1) this] show ?thesis
      using sys_open_eq [OF assms(2-5)] assms(7) Some other by auto
  qed
qed

lemma is_null_lit [simp]: "\<not> is_null (lit str)"
  by (simp add: is_null_def lit_def)

lemma shell_arg:
  "vstrlen s (lit ''shell'') = Inr 5" "arg_name s (lit ''shell'') = bytes ''shell''"
  "entry_name image_boot_block 0 = bytes ''shell''"
proof -
  show "vstrlen s (lit ''shell'') = Inr 5"
    using strlen_Obj [of "bytes ''shell''" "vview s" "[]"]
    by (simp add: vstrlen_def vmapped_def lit_def bytes_def)
  show "arg_name s (lit ''shell'') = bytes ''shell''"
    by (simp add: arg_name_def cut_def char_of_arg_def lit_def bytes_def upt_rec)
  show "entry_name image_boot_block 0 = bytes ''shell''"
    by (simp add: entry_name_def de_filename_def direntries_def image_boot_block_def bytes_def)
qed

lemma image_filetypes: "i < 63 \<Longrightarrow> de_filetype (direntries image_boot_block i) \<le> 2"
proof (cases i)
  case 0
  then show ?thesis by (simp add: de_filetype_def direntries_def image_boot_block_def bytes_def le32_def)
next
  case (Suc j)
  moreover assume "i < 63"
  moreover have "image_boot_block = take 128 image_boot_block @ replicate 3968 0"
    by (simp add: image_boot_block_def bytes_def)
  then have "drop (64 + 64 * Suc j) image_boot_block = drop (64 + 64 * Suc j) (take 128 image_boot_block @ replicate 3968 0)"
    by simp
  then have "drop (64 + 64 * Suc j) image_boot_block = replicate (3968 - 64 * j) 0" by simp
  ultimately show ?thesis by (simp add: de_filetype_def direntries_def le32_def min_def)
qed

theorem descriptor_table_refines_witness:
  "\<exists>s'. sys_open (lit ''shell'') (reset_proc image_mem reset_pcb) = Inr (2, s') \<and>
     fds (cur_pcb s') = [0 \<mapsto> (Stdin_table, 0, 0), 1 \<mapsto> (Stdout_table, 0, 0), 2 \<mapsto> (File_table, 0, 0)]"
proof -
  let ?s = "reset_proc image_mem reset_pcb"
  have e: "entry_file (direntries image_boot_block 0) = (File_table, 0, 0)"
    by (simp add: entry_file_def de_filetype_def de_inode_def direntries_def image_boot_block_def bytes_def le32_def)
  have "find (\<lambda>i. entry_name image_boot_block i = arg_name ?s (lit ''shell'')) [0..<63] = Some 0"
    by (simp add: shell_arg upt_conv_Cons)
  then show ?thesis
    using descriptor_table_refines [of ?s "lit ''shell''" 5, OF _ _ _ _ _ _ refl, of 2]
    by (auto simp: reset_pcb_ok shell_arg image_filetypes e spec_open_def)
qed

text \<open>
  A process with no file open gets the descriptors 2 to 7 in this order, and -1 for every file
  after the sixth: a process never holds more than eight descriptors.
\<close>

lemma descriptors_in_order:
  assumes "pcb_ok (cur_pcb s)" and "\<forall>i. 2 \<le> i \<and> i < 8 \<longrightarrow> fds (cur_pcb s) i = None"
    and "\<forall>d \<in> set ds. de_filetype d \<le> 2"
  shows "fst (alloc_all open_dentry ds s) = map (\<lambda>j. if j < 6 then int j + 2 else -1) [0..<length ds]"
  using fdt.alloc_sequence [of ds s 0] assms by simp

lemma descriptors_in_order_witness:
  "fst (alloc_all open_dentry (replicate 7 (direntries image_boot_block 0)) (reset_proc image_mem reset_pcb)) =
     [2, 3, 4, 5, 6, 7, -1]"
  using descriptors_in_order [of "reset_proc image_mem reset_pcb" "replicate 7 (direntries image_boot_block 0)"]
  by (simp add: reset_pcb_ok image_filetypes upt_rec)

text \<open>
  Closing the descriptor an \<^verbatim>\<open>open\<close> returned succeeds and gives back the descriptor table there was
  before; a second \<^verbatim>\<open>close\<close> of it fails.
\<close>

lemma open_close_roundtrip:
  assumes "pcb_ok (cur_pcb s)" and "de_filetype d \<le> 2" and "open_dentry d s = (fd, s1)" and "fd \<noteq> -1"
    and "sys_close fd s1 = (r, s2)"
  shows "r = 0 \<and> fds (cur_pcb s2) = fds (cur_pcb s) \<and> pcb_ok (cur_pcb s2) \<and> sys_close fd s2 = (-1, s2)"
proof -
  have "r = 0 \<and> fds (cur_pcb s2) = fds (cur_pcb s) \<and> pcb_ok (cur_pcb s2)"
    using fdt.alloc_release [OF assms(1-4)] assms(5) by simp
  moreover have "fds (cur_pcb s) (nat fd) = None" using fdt.alloc_fresh [OF assms(1-4)] by simp
  ultimately show ?thesis by (simp add: sys_close_unopened)
qed

lemma open_close_roundtrip_witness:
  "\<exists>s1 s2. open_dentry (direntries image_boot_block 0) (reset_proc image_mem reset_pcb) = (2, s1) \<and>
     sys_close 2 s1 = (0, s2) \<and> fds (cur_pcb s2) = fds reset_pcb \<and> sys_close 2 s2 = (-1, s2)"
proof -
  let ?s = "reset_proc image_mem reset_pcb"
  obtain s1 where s1: "open_dentry (direntries image_boot_block 0) ?s = (2, s1)"
    using open_dentry_refines [of ?s "direntries image_boot_block 0"]
    by (auto simp: reset_pcb_ok image_filetypes spec_open_def)
  obtain r s2 where "sys_close 2 s1 = (r, s2)" by (cases "sys_close 2 s1")
  with open_close_roundtrip [OF _ _ s1 _ this] s1 show ?thesis
    by (auto simp: reset_pcb_ok image_filetypes)
qed


text \<open>A file of 100 bytes.\<close>

definition small_mem :: mem where
  "small_mem = image_mem(0x501000 := 100, 0x501001 := 0)"

definition open_pcb :: pcb_t where
  "open_pcb = reset_pcb\<lparr>file_array := (file_array reset_pcb)[2 := std_fd File_table]\<rparr>"

lemma open_pcb_ok: "pcb_ok open_pcb" "fds open_pcb 2 = Some (File_table, 0, 0)"
proof -
  show "pcb_ok open_pcb" unfolding open_pcb_def
    using reset_pcb_ok(1) by (intro pcb_ok_set) (simp_all add: fd_ok_def std_fd_def)
  have "fds open_pcb = (fds reset_pcb)(2 := Some (File_table, 0, 0))"
    unfolding open_pcb_def by (subst fds_set) (simp_all add: reset_pcb_def std_fd_def)
  then show "fds open_pcb 2 = Some (File_table, 0, 0)" by simp
qed

lemma small_mem_file: "small_file (reset_proc small_mem p) 0 (rd small_mem 0x501000 4096) 100 0x600000 0x600000 64"
proof -
  let ?b = "rd small_mem 0x501000 4096"
  have b: "ino_length ?b = 100" "ino_block ?b 0 = 0"
    by (simp_all add: ino_length_def ino_block_def take_rd drop_rd le32_def small_mem_def image_mem_def)
  have "phys False (reset_proc small_mem p) 0x501000 4096 = Inr 0x501000"
    "phys False (reset_proc small_mem p) 0x502000 4096 = Inr 0x502000"
    "phys True (reset_proc small_mem p) 0x600000 64 = Inr 0x600000"
    by (rule phys_kernel [OF reset_proc_mapped]; simp)+
  moreover have "disjoint_ranges 0x501000 4096 0x600000 64" "disjoint_ranges 0x502000 4096 0x600000 64"
    by (rule disjoint_ranges_apart; simp)+
  ultimately show ?thesis using b by (simp add: small_file_def block_addr_def)
qed


text \<open>
  Property C37: wherever the stack pointer is in the kernel stack of a process, \<^verbatim>\<open>get_pcb\<close> finds the process control block
  \<^verbatim>\<open>execute\<close> created for it, at the bottom of that stack; the blocks of two processes are 8 KB or more apart, and
  those of up to 511 processes lie inside the kernel's 4 MB page.
\<close>

theorem kernel_stack_of_process:
  assumes "0 \<le> p" and "p \<le> 510" and "d \<le> 0x1FFC" and "esp s = kstack_top p - of_nat d"
  shows "get_pcb s = KSTACK_TO_PCB p \<and> uint (KSTACK_TO_PCB p) + 0x1FFC = uint (kstack_top p) \<and>
    0x400000 \<le> uint (KSTACK_TO_PCB p) \<and> uint (kstack_top p) + 4 \<le> 0x7FE000 \<and>
    (\<forall>q. 0 \<le> q \<and> q < p \<longrightarrow> uint (kstack_top p) + 4 \<le> uint (KSTACK_TO_PCB q))"
proof -
  have top: "uint (kstack_top p) = 0x7FE000 - 0x2000 * p - 4" using assms by (intro uint_kstack) auto
  have pcb: "uint (KSTACK_TO_PCB q) = 0x7FE000 - (q + 1) * 0x2000" if "0 \<le> q" "q < 1000" for q
    using that by (rule uint_kstack)
  show ?thesis using stack_block [OF assms(1) _ assms(3)] assms pcb [of p] top
    by (auto simp: get_pcb_def pcb)
qed

theorem kernel_stack_of_process_witness:
  "get_pcb (reset_proc image_mem reset_pcb) = KSTACK_TO_PCB 0"
  using kernel_stack_of_process [of 0 48 "reset_proc image_mem reset_pcb"]
  by (simp add: reset_proc_def kbd.defs)



end
