(* ===== verification/Syscalls.thy ===== *)
theory Syscalls
  imports Process
begin

text \<open>
  The system calls that start and end processes, \<^verbatim>\<open>execute\<close> and \<^verbatim>\<open>halt\<close> of \<^verbatim>\<open>syscalls.c\<close>; \<^verbatim>\<open>kbd_init\<close> of \<^verbatim>\<open>dev_kbd.c\<close>, which
  starts the first shell; and the dispatch of system calls, \<^verbatim>\<open>syscall_asm_linkage\<close> of \<^verbatim>\<open>isr_wrapper.S\<close>.

  These do not always return to their caller. \<open>control\<close> says where control goes: back with a value; to user
  level through \<^verbatim>\<open>iret\<close>, with the program's entry point and stack pointer; or to the label \<^verbatim>\<open>EXEC_RET\<close> inside the
  \<^verbatim>\<open>execute\<close> of the parent, on the stack \<open>esp\<close> and \<open>ebp\<close> then hold. The value that \<^verbatim>\<open>execute\<close> then returns is whatever
  the register \<^verbatim>\<open>eax\<close> holds: the status is pushed on a stack that is left at once, so it has no place in the model.
\<close>

section \<open>Operations\<close>

abbreviation (input) EXE_MEMV_BASE :: u32 where "EXE_MEMV_BASE \<equiv> 0x08048000"
abbreviation (input) EXE_FSIZE :: u32 where "EXE_FSIZE \<equiv> 0x400000"
abbreviation (input) EXE_ENTRY_OFF :: u32 where "EXE_ENTRY_OFF \<equiv> 24"
abbreviation (input) USTACK_BASE :: u32 where "USTACK_BASE \<equiv> 0x83FFFFC"

datatype control = Return int | ToUser u32 u32 | ToExecRet

definition set_pcb :: "u32 \<Rightarrow> (pcb_t \<Rightarrow> pcb_t) \<Rightarrow> 'a proc_scheme \<Rightarrow> 'a proc_scheme" where
  "set_pcb a f s = s\<lparr>pcbs := (pcbs s)(a := f (pcbs s a))\<rparr>"

definition vfetch :: "'a paging_scheme \<Rightarrow> cptr \<Rightarrow> nat \<Rightarrow> u8 res" where
  "vfetch s p i = (case p of Ptr a \<Rightarrow> vread s (a + of_nat i) | _ \<Rightarrow> fetch (mem s) p i)"

text \<open>The two parsing loops: the word from position \<open>i\<close> on, and the index the loop ends with.\<close>

function parse_word :: "'a paging_scheme \<Rightarrow> cptr \<Rightarrow> nat \<Rightarrow> (u8 list \<times> nat) res" where
  "parse_word s command i =
     (if i < KBD_BUF_SIZE
      then rbind (vfetch s command i) (\<lambda>c.
             if c = 10 \<or> c = 32 \<or> c = 0 then Inr ([], i)
             else rbind (parse_word s command (Suc i)) (\<lambda>(w, j). Inr (c # w, j)))
      else Inr ([], i))"
  by pat_completeness auto
termination
  by (relation "measure (\<lambda>(s, command, i). 128 - i)") auto

declare parse_word.simps [simp del]

definition init_fds :: "file_des_t list \<Rightarrow> file_des_t list" where
  "init_fds fa = fold (\<lambda>i fa. fa[i := closed_fd]) [FD_START_FILE..<FD_MAX_FILE]
     (fa[0 := std_fd Stdin_table, 1 := std_fd Stdout_table])"

text \<open>The child's process control block; the fields not named keep what the memory held.\<close>

definition create_pcb :: "u8 list \<Rightarrow> 'a proc_scheme \<Rightarrow> 'a proc_scheme" where
  "create_pcb exe_args s =
     (let child_pcb = KSTACK_TO_PCB (active_proc s);
          s = set_pcb child_pcb (\<lambda>p. p\<lparr>status := 1\<rparr>) s;
          s = set_pcb child_pcb (\<lambda>p. p\<lparr>pid := word_of_int (active_proc s)\<rparr>) s;
          s = (if term_pcb (cur_term s) = 0
               then set_pcb child_pcb (\<lambda>p. p\<lparr>parent_process_ptr := 0\<rparr>) s
               else set_pcb child_pcb (\<lambda>p. p\<lparr>parent_process_ptr := term_pcb (cur_term s)\<rparr>) s);
          s = upd_term (\<lambda>t. t\<lparr>term_pcb := child_pcb\<rparr>) s;
          s = set_pcb child_pcb (\<lambda>p. p\<lparr>arg := replicate 1024 0\<rparr>) s;
          s = set_pcb child_pcb (\<lambda>p. p\<lparr>arg := exe_args @ drop (length exe_args) (arg p)\<rparr>) s;
          s = set_pcb child_pcb (\<lambda>p. p\<lparr>file_array := init_fds (file_array p)\<rparr>) s
      in set_pcb child_pcb (\<lambda>p. p\<lparr>pcb_esp := esp s, pcb_ebp := ebp s\<rparr>) s)"

text \<open>From the counters on: load the image, create the process, go to user level.\<close>

definition run_program :: "u8 list \<Rightarrow> u8 list \<Rightarrow> 'a proc_scheme \<Rightarrow> (control \<times> 'a proc_scheme) res" where
  "run_program loc_dentry exe_args s =
     (let s = s\<lparr>active_proc := active_proc s + 1\<rparr>;
          s = s\<lparr>process_counter := process_counter s + 1\<rparr>;
          s = upd_term (\<lambda>t. t\<lparr>num_program := num_program t + 1\<rparr>) s
      in rbind (set_up_program_paging (active_proc s) s) (\<lambda>s.
         rbind (read_data (de_inode loc_dentry) 0 EXE_MEMV_BASE EXE_FSIZE s) (\<lambda>(r, s).
           if r = -1 then Inr (Return (-1), s)
           else let s = create_pcb exe_args s;
                    s = s\<lparr>tss_esp0 := kstack_top (active_proc s)\<rparr>
                in rbind (vload s (EXE_MEMV_BASE + EXE_ENTRY_OFF) 4) (\<lambda>entry.
                     Inr (ToUser (le32 entry) USTACK_BASE, sti s)))))"

definition execute :: "cptr \<Rightarrow> 'a proc_scheme \<Rightarrow> (control \<times> 'a proc_scheme) res" where
  "execute command s =
     (if num_program (term_arr s ! 0) + num_program (term_arr s ! 1) + num_program (term_arr s ! 2) \<ge> 6
      then rbind (printf (lit (''Exceeded maximum program count, operation denied'' @ newline)) [] s) (\<lambda>(_, s).
             Inr (Return (-1), s))
      else if is_null command then Inr (Return (-1), s)
      else let s = cli s
           in rbind (parse_word s command 0) (\<lambda>(exe_fname, i).
              if KBD_BUF_SIZE \<le> i then Inl OutOfBounds
              else let i = i + 1
                   in rbind (if active_proc s \<noteq> -1 then parse_word s command i else Inr ([], i)) (\<lambda>(exe_args, _).
                      rbind (read_dentry_by_name (Obj (exe_fname @ [0])) s) (\<lambda>(r, d).
                        case d of
                          None \<Rightarrow> Inr (Return (-1), s)
                        | Some loc_dentry \<Rightarrow>
                            if r = -1 then Inr (Return (-1), s)
                            else let exe_probe_buf = esp s + probe_off s
                                 in rbind (read_data (de_inode loc_dentry) 0 exe_probe_buf 4 s) (\<lambda>(r, s).
                                    if r = -1 then Inr (Return (-1), s)
                                    else rbind (vload s exe_probe_buf 4) (\<lambda>probe.
                                      if probe ! 0 \<noteq> 0x7f \<or> probe ! 1 \<noteq> 0x45 \<or> probe ! 2 \<noteq> 0x4c \<or> probe ! 3 \<noteq> 0x46
                                      then Inr (Return (-1), s)
                                      else run_program loc_dentry exe_args s))))))"

definition halt_rest :: "u32 \<Rightarrow> 'a proc_scheme \<Rightarrow> (control \<times> 'a proc_scheme) res" where
  "halt_rest pcb s =
     (let s = upd_term (\<lambda>t. t\<lparr>num_program := num_program t - 1\<rparr>) s;
          s = s\<lparr>tss_esp0 := kstack_top (active_proc s)\<rparr>
      in rbind (set_up_program_paging (active_proc s) s) (\<lambda>s.
           let s = fold (\<lambda>i s. if in_use_flag (file_array (pcbs s pcb) ! i) = 1 then snd (sys_close (int i) s) else s)
                     [FD_START_FILE..<FD_MAX_FILE] s
           in Inr (ToExecRet, s\<lparr>ebp := pcb_ebp (pcbs s pcb), esp := pcb_esp (pcbs s pcb)\<rparr>)))"

definition halt :: "u8 \<Rightarrow> 'a proc_scheme \<Rightarrow> (control \<times> 'a proc_scheme) res" where
  "halt exit_status s =
     (let pcb = get_pcb s;
          s = s\<lparr>active_proc := active_proc s - 1\<rparr>;
          s = s\<lparr>process_counter := process_counter s - 1\<rparr>
      in if parent_process_ptr (pcbs s pcb) = 0 \<or> active_proc s = -1 \<or> num_program (cur_term s) \<le> 1
         then let s = upd_term (\<lambda>t. t\<lparr>num_program := num_program t - 1\<rparr>) s
              in rbind (execute (lit ''shell'') s) (\<lambda>(c, s).
                   case c of Return _ \<Rightarrow> halt_rest pcb s | _ \<Rightarrow> Inr (c, s))
         else halt_rest pcb s)"

text \<open>\<^verbatim>\<open>kbd_init\<close> returns only when the shell cannot be started.\<close>

definition init_term :: "nat \<Rightarrow> term_t \<Rightarrow> term_t" where
  "init_term i t = t\<lparr>kbd_line_cnt := 0, kbd_ready := 0, cursor_x := 0, cursor_y := 0, activated := 0,
     term_id := int i, term_pcb := 0, num_program := 0\<rparr>"

definition kbd_init :: "u32 \<Rightarrow> 'a proc_scheme \<Rightarrow> (control \<times> 'a proc_scheme) res" where
  "kbd_init kbd_irq_num s =
     rbind (insert_idt (sym s Sym_kbd_wrapper) kbd_irq_num s) (\<lambda>(_, s).
       let s = enable_irq kbd_irq_num s;
           s = fold (\<lambda>i s. s\<lparr>term_arr := (term_arr s)[i := init_term i (term_arr s ! i)]\<rparr>) [0..<3] s
       in rbind (execute (lit ''shell'') s) (\<lambda>(c, s).
            case c of
              Return _ \<Rightarrow>
                let s = s\<lparr>term_arr := (term_arr s)[0 := (term_arr s ! 0)\<lparr>activated := 1\<rparr>]\<rparr>
                in Inr (Return 0, s\<lparr>shift_flag := 0, caps_flag := 0, alt_flag := 0, ctrl_flag := 0\<rparr>)
            | _ \<Rightarrow> Inr (c, s)))"

section \<open>Dispatch\<close>

text \<open>
  The processor switches to the stack of the task state segment and pushes five words, the wrapper pushes six, the
  call one. The vector is a trap gate, so the interrupt flag stays as it was; \<^verbatim>\<open>iret\<close> gives it back to a caller that
  the call returns to.
\<close>

definition iret :: "bool \<Rightarrow> control \<times> 'a proc_scheme \<Rightarrow> control \<times> 'a proc_scheme" where
  "iret flag = (\<lambda>(c, s). (c, case c of Return _ \<Rightarrow> s\<lparr>iflag := flag\<rparr> | _ \<Rightarrow> s))"

definition syscall_asm_linkage :: "('a proc_scheme \<Rightarrow> 'a proc_scheme res) list \<Rightarrow> u32 \<Rightarrow> u32 \<Rightarrow> u32 \<Rightarrow> u32
    \<Rightarrow> 'a proc_scheme \<Rightarrow> (control \<times> 'a proc_scheme) res" where
  "syscall_asm_linkage interrupts eax ebx ecx edx s =
     (let flag = iflag s;
          s = s\<lparr>esp := tss_esp0 s - 48\<rparr>;
          ret = (\<lambda>(r, s). Inr (Return r, s))
      in rbind (if sint eax < 1 \<or> sint eax > 8 then Inr (Return (-1), s)
                else if eax = 1 then halt (ucast ebx) s
                else if eax = 2 then execute (Ptr ebx) s
                else if eax = 3 then rbind (sys_read interrupts (sint ebx) ecx (sint edx) s) ret
                else if eax = 4 then rbind (sys_write (sint ebx) ecx (sint edx) s) ret
                else if eax = 5 then rbind (sys_open (Ptr ebx) s) ret
                else if eax = 6 then ret (sys_close (sint ebx) s)
                else if eax = 7 then rbind (getargs ebx (sint ecx) s) ret
                else rbind (vidmap ebx s) ret)
               (\<lambda>r. Inr (iret flag r)))"

lemma iret_simps [simp]:
  "iret f (Return r, s) = (Return r, s\<lparr>iflag := f\<rparr>)" "iret f (ToUser pc sp, s) = (ToUser pc sp, s)"
  "iret f (ToExecRet, s) = (ToExecRet, s)"
  by (simp_all add: iret_def)

section \<open>The frame of the console and the processes\<close>

text \<open>The fields of the process layer, as one value.\<close>

definition proc_part :: "'a proc_scheme \<Rightarrow> int \<times> u8 \<times> (u32 \<Rightarrow> pcb_t) \<times> u32 \<times> u32 \<times> u32 \<times> u32" where
  "proc_part s = (active_proc s, process_counter s, pcbs s, esp s, ebp s, tss_esp0 s, probe_off s)"

definition programs :: "'a kbd_scheme \<Rightarrow> int" where
  "programs s = num_program (term_arr s ! 0) + num_program (term_arr s ! 1) + num_program (term_arr s ! 2)"

section \<open>Loading a program\<close>

lemma phys_program:
  assumes "length (page_directory s) = 1024" "0 \<le> p" "p < 510" "set_up_program_paging p s = Inr s'"
    and "unat va = 0x8000000 + off" and "off + n \<le> 0x400000" and "0 < n"
  shows "phys write s' va n = Inr (of_nat (0x400000 * (nat p + 1) + off))"
proof -
  have "mmu False write s' (va + of_nat i) = Inr (of_nat (0x400000 * (nat p + 1) + off) + of_nat i)" if i: "i < n" for i
  proof -
    have va: "unat (va + of_nat i) = 0x8000000 + (off + i)"
      using assms(5,6) i by (subst u32_less_add_eq) simp_all
    then have div: "unat (va + of_nat i) div 0x400000 = 32" using assms(6) i by (simp add: nat_div_eq)
    then obtain pa where pa: "mmu False write s' (va + of_nat i) = Inr pa"
      "unat pa = 0x400000 * (nat p + 1) + unat (va + of_nat i) mod 0x400000"
      using mmu_program [OF assms(1-4)] by blast
    have "unat (va + of_nat i) mod 0x400000 = off + i"
      using va div minus_div_mult_eq_mod [of "unat (va + of_nat i)" "0x400000"] by simp
    then have "pa = of_nat (0x400000 * (nat p + 1) + off + i)" using pa(2)
      by (metis add.assoc of_nat_unat ucast_id)
    with pa(1) show ?thesis by (simp add: add.assoc)
  qed
  then show ?thesis using phys_eq [of n "write" s' va] assms(7) by simp
qed

text \<open>
  A program file: its inode and blocks, and the buffer \<^verbatim>\<open>exe_probe_buf\<close>, lie in the kernel's page and apart, the
  blocks are blocks of the image, the program fits its window and its memory is apart from the file's blocks, and the file starts
  with the magic number.
\<close>

definition in_kernel_page :: "u32 \<Rightarrow> nat \<Rightarrow> bool" where
  "in_kernel_page a n \<longleftrightarrow> 0x400000 \<le> unat a \<and> unat a + n \<le> 0x800000"

definition image_base :: "int \<Rightarrow> u32" where
  "image_base p = of_nat (0x400000 * (nat p + 1) + 0x48000)"

definition program_file :: "'a proc_scheme \<Rightarrow> u32 \<Rightarrow> u8 list \<Rightarrow> nat \<Rightarrow> bool" where
  "program_file s ino b L \<longleftrightarrow>
     in_kernel_page (inode_addr s + ino * 4096) 4096 \<and> b = rd (mem s) (inode_addr s + ino * 4096) 4096 \<and>
     L = unat (ino_length b) \<and> 28 \<le> L \<and> L \<le> 0x3B8000 \<and>
     map (file_byte s b) [0..<4] = [0x7f, 0x45, 0x4c, 0x46] \<and>
     in_kernel_page (esp s + probe_off s) 4 \<and> disjoint_ranges (inode_addr s + ino * 4096) 4096 (esp s + probe_off s) 4 \<and>
     (\<forall>i \<le> L div 4096. 0 \<le> sint (ino_block b i) \<and> sint (ino_block b i) < sint (bb_data_count (boot_block s)) \<and>
        in_kernel_page (block_addr s b i) 4096 \<and> disjoint_ranges (block_addr s b i) 4096 (esp s + probe_off s) 4 \<and>
        disjoint_ranges (block_addr s b i) 4096 (image_base (active_proc s + 1)) L)"

lemma program_fileD:
  assumes "program_file s ino b L"
  shows "in_kernel_page (inode_addr s + ino * 4096) 4096" "rd (mem s) (inode_addr s + ino * 4096) 4096 = b"
    "L = unat (ino_length b)" "28 \<le> L" "L \<le> 0x3B8000" "map (file_byte s b) [0..<4] = [0x7f, 0x45, 0x4c, 0x46]"
    "in_kernel_page (esp s + probe_off s) 4" "disjoint_ranges (inode_addr s + ino * 4096) 4096 (esp s + probe_off s) 4"
    "i \<le> L div 4096 \<Longrightarrow> 0 \<le> sint (ino_block b i) \<and> sint (ino_block b i) < sint (bb_data_count (boot_block s)) \<and>
        in_kernel_page (block_addr s b i) 4096"
    "i \<le> L div 4096 \<Longrightarrow> disjoint_ranges (block_addr s b i) 4096 (esp s + probe_off s) 4"
    "i \<le> L div 4096 \<Longrightarrow> disjoint_ranges (block_addr s b i) 4096 (image_base (active_proc s + 1)) L"
  using assms unfolding program_file_def by blast+

lemma read_data_whole:
  assumes "vload s (inode_addr s + ino * 4096) 4096 = Inr b" and "len \<noteq> 0" and "buf \<noteq> 0"
    and "n = min (unat len) L" and "L = unat (ino_length b)" and "read_ok s b L buf pb n"
  shows "read_data ino 0 buf len s = Inr (int n, s\<lparr>mem := wr (mem s) pb (map (file_byte s b) [0..<n])\<rparr>)"
  using read_data_exact [OF assms(1-3), of 0 L n pb] source_positions_ok [of 0 n] assms(4-6) by simp

lemma load_probe:
  assumes "kernel_mapped s" and pf: "program_file s ino b L"
  shows "read_data ino 0 (esp s + probe_off s) 4 s =
      Inr (4, s\<lparr>mem := wr (mem s) (esp s + probe_off s) [0x7f, 0x45, 0x4c, 0x46]\<rparr>)"
proof -
  let ?a = "esp s + probe_off s"
  have k: "phys write s va n = Inr va" if "in_kernel_page va n" for "write" va n
    using phys_kernel [OF assms(1)] that by (simp add: in_kernel_page_def)
  have "read_ok s b L ?a ?a 4"
    using pf by (auto simp: read_ok_def program_file_def k)
  moreover have "vload s (inode_addr s + ino * 4096) 4096 = Inr b"
    using pf by (simp add: vload_def program_file_def k)
  moreover have "?a \<noteq> 0" using pf by (auto simp: program_file_def in_kernel_page_def)
  ultimately have "read_data ino 0 ?a 4 s = Inr (int 4, s\<lparr>mem := wr (mem s) ?a (map (file_byte s b) [0..<4])\<rparr>)"
    using pf by (intro read_data_whole [where L = L]) (auto simp: program_file_def min_def)
  moreover have "map (file_byte s b) [0..<4] = [0x7f, 0x45, 0x4c, 0x46]" using pf by (rule program_fileD)
  ultimately show ?thesis by (simp only: of_nat_numeral)
qed

text \<open>The state when the image is loaded: counters, page directory and memory.\<close>

definition loading :: "'a proc_scheme \<Rightarrow> 'a proc_scheme" where
  "loading s = (let s = s\<lparr>active_proc := active_proc s + 1, process_counter := process_counter s + 1\<rparr>
     in upd_term (\<lambda>t. t\<lparr>num_program := num_program t + 1\<rparr>) s)"

lemma loading_fields [simp]:
  "active_proc (loading s) = active_proc s + 1" "process_counter (loading s) = process_counter s + 1"
  "pcbs (loading s) = pcbs s" "esp (loading s) = esp s" "ebp (loading s) = ebp s" "mem (loading s) = mem s"
  "probe_off (loading s) = probe_off s" "tss_esp0 (loading s) = tss_esp0 s" "iflag (loading s) = iflag s"
  "boot_block (loading s) = boot_block s" "inode_addr (loading s) = inode_addr s" "data_block_addr (loading s) = data_block_addr s"
  "page_directory (loading s) = page_directory s" "page_table (loading s) = page_table s"
  "vid_page_table (loading s) = vid_page_table s" "sym (loading s) = sym s" "term_flag (loading s) = term_flag s"
  "idt (loading s) = idt s" "master_mask (loading s) = master_mask s" "slave_mask (loading s) = slave_mask s"
  by (simp_all add: loading_def upd_term_def Let_def)

text \<open>The window of the new program: its frame is mapped, and the kernel's page stays.\<close>

lemma window_set:
  fixes s :: "'a proc_scheme"
  assumes km: "kernel_mapped s" and pd: "length (page_directory s) = 1024" and p: "0 \<le> active_proc s + 1" "active_proc s + 1 < 510"
  shows "\<exists>s1. set_up_program_paging (active_proc s + 1) (loading s\<lparr>mem := m\<rparr>) = Inr s1 \<and>
    s1 = loading s\<lparr>mem := m, page_directory := page_directory s1\<rparr> \<and> length (page_directory s1) = 1024 \<and> kernel_mapped s1 \<and>
    (\<forall>n write. n \<le> 0x3B8000 \<longrightarrow> 0 < n \<longrightarrow> phys write s1 0x08048000 n = Inr (image_base (active_proc s + 1)))"
proof -
  let ?p = "active_proc s + 1" and ?s0 = "loading s\<lparr>mem := m\<rparr>"
  obtain s1 where s1: "set_up_program_paging ?p ?s0 = Inr s1" by (simp add: set_up_program_paging_eq [OF p])
  have s1_eq: "s1 = ?s0\<lparr>page_directory := (page_directory s)[32 := push_bit 22 (of_nat (nat ?p + 1)) OR 0x87]\<rparr>"
    using s1 by (simp add: set_up_program_paging_eq [OF p])
  have pd0: "length (page_directory ?s0) = 1024" using pd by simp
  have km1: "kernel_mapped s1"
    unfolding kernel_mapped_def
  proof (intro allI impI)
    fix va "write" assume va: "unat (va :: u32) div 0x400000 = 1"
    then have "mmu False write s1 va = mmu False write ?s0 va"
      unfolding s1_eq using mmu_other_directory_entry [OF pd0, of va 32] by simp
    also have "\<dots> = mmu False write s va" by (rule mmu_cong) simp_all
    also have "\<dots> = Inr va" using km va by (simp add: kernel_mapped_def)
    finally show "mmu False write s1 va = Inr va" .
  qed
  have window: "phys write s1 0x08048000 n = Inr (image_base ?p)" if "n \<le> 0x3B8000" "0 < n" for n "write"
    using phys_program [OF pd0 p s1, of "0x08048000" "0x48000" n] that by (simp add: image_base_def)
  have "s1 = loading s\<lparr>mem := m, page_directory := page_directory s1\<rparr>" "length (page_directory s1) = 1024"
    using pd by (simp_all add: s1_eq)
  then show ?thesis using s1 km1 window by blast
qed

lemma load_image:
  fixes s :: "'a proc_scheme"
  assumes km: "kernel_mapped s" and pd: "length (page_directory s) = 1024" and ap: "-1 \<le> active_proc s" "active_proc s < 500"
    and pf: "program_file s ino b L" and m: "m = wr (mem s) (esp s + probe_off s) xs" "length xs = 4"
  shows "\<exists>s1. set_up_program_paging (active_proc s + 1) (loading s\<lparr>mem := m\<rparr>) = Inr s1 \<and>
    s1 = loading s\<lparr>mem := m, page_directory := page_directory s1\<rparr> \<and> length (page_directory s1) = 1024 \<and> kernel_mapped s1 \<and>
    read_data ino 0 0x08048000 0x400000 s1 =
      Inr (int L, s1\<lparr>mem := wr m (image_base (active_proc s + 1)) (map (file_byte s b) [0..<L])\<rparr>) \<and>
    (\<forall>n. n \<le> 0x3B8000 \<longrightarrow> 0 < n \<longrightarrow> (\<forall>write. phys write s1 0x08048000 n = Inr (image_base (active_proc s + 1))))"
proof -
  let ?p = "active_proc s + 1" and ?a = "esp s + probe_off s"
  have p: "0 \<le> ?p" "?p < 510" using ap by auto
  obtain s1 where s1: "set_up_program_paging ?p (loading s\<lparr>mem := m\<rparr>) = Inr s1" and s1_eq: "s1 = loading s\<lparr>mem := m, page_directory := page_directory s1\<rparr>"
    and pd1: "length (page_directory s1) = 1024" and km1: "kernel_mapped s1"
    and window: "\<And>n write. n \<le> 0x3B8000 \<Longrightarrow> 0 < n \<Longrightarrow> phys write s1 0x08048000 n = Inr (image_base ?p)"
    using window_set [OF km pd p] by blast
  have k: "phys write s1 va n = Inr va" if "in_kernel_page va n" for "write" va n
    using phys_kernel [OF km1] that by (simp add: in_kernel_page_def)
  have keep: "m (a + of_nat k) = mem s (a + of_nat k)" if "disjoint_ranges a 4096 ?a 4" "k < 4096" for a k
    unfolding m(1) using that m(2) by (intro wr_outside) (auto simp: disjoint_ranges_def)
  have fields: "mem s1 = m" "inode_addr s1 = inode_addr s" "boot_block s1 = boot_block s" "block_addr s1 b = block_addr s b"
    by (subst s1_eq, simp add: block_addr_def fun_eq_iff)+
  have fb: "file_byte s1 b j = file_byte s b j" if "j < L" for j
  proof -
    have "disjoint_ranges (block_addr s b (j div 4096)) 4096 ?a 4"
      using that div_le_mono [of j L 4096] by (intro program_fileD(10) [OF pf]) simp
    then show ?thesis using keep by (simp add: file_byte_def fields)
  qed
  have "rd m (inode_addr s + ino * 4096) 4096 = b"
  proof -
    have "rd m (inode_addr s + ino * 4096) 4096 = rd (mem s) (inode_addr s + ino * 4096) 4096"
      using keep program_fileD(8) [OF pf] by (intro rd_cong) simp
    then show ?thesis using program_fileD(2) [OF pf] by simp
  qed
  then have "vload s1 (inode_addr s1 + ino * 4096) 4096 = Inr b"
    using program_fileD(1) [OF pf] by (simp add: vload_def k fields)
  moreover have "read_ok s1 b L 0x08048000 (image_base ?p) L"
    using program_fileD [OF pf] window [of L True] by (auto simp: read_ok_def k fields)
  ultimately have "read_data ino 0 0x08048000 0x400000 s1 =
      Inr (int L, s1\<lparr>mem := wr (mem s1) (image_base ?p) (map (file_byte s1 b) [0..<L])\<rparr>)"
    using program_fileD(3-5) [OF pf] by (intro read_data_whole [where L = L]) auto
  moreover have "map (file_byte s1 b) [0..<L] = map (file_byte s b) [0..<L]" using fb by (intro map_cong) auto
  ultimately show ?thesis using s1 s1_eq pd1 km1 window by (auto simp: fields)
qed

section \<open>Creating a process\<close>

lemma parse_word_word:
  "parse_word s command i = Inr (w, j) \<Longrightarrow> i \<le> 128 \<Longrightarrow>
     j = i + length w \<and> j \<le> 128 \<and> set w \<inter> {10, 32, 0} = {}"
proof (induction s command i arbitrary: w j rule: parse_word.induct)
  case (1 s command i)
  show ?case
  proof (cases "i < 128")
    case False
    with "1.prems" show ?thesis by (simp add: parse_word.simps)
  next
    case True
    then obtain c where c: "vfetch s command i = Inr c" using "1.prems"(1)
      by (cases "vfetch s command i") (simp_all add: parse_word.simps [of s command i])
    show ?thesis
    proof (cases "c = 10 \<or> c = 32 \<or> c = 0")
      case True
      with "1.prems" \<open>i < 128\<close> c show ?thesis by (auto simp: parse_word.simps [of s command i])
    next
      case False
      then obtain w' where w': "parse_word s command (Suc i) = Inr (w', j)" "w = c # w'"
        using "1.prems"(1) True c by (auto simp: parse_word.simps [of s command i] rbind_eq_Inr)
      from "1.IH" [OF True c False this(1)] True False w'(2) show ?thesis by auto
    qed
  qed
qed

lemma init_fds_eq:
  assumes "length fa = 8"
  shows "init_fds fa = [std_fd Stdin_table, std_fd Stdout_table] @ replicate 6 closed_fd"
proof -
  have "length fa = Suc (Suc (Suc (Suc (Suc (Suc (Suc (Suc 0)))))))" using assms by simp
  then obtain a b c d e f g h where "fa = [a, b, c, d, e, f, g, h]" unfolding length_Suc_conv by blast
  then show ?thesis by (simp add: init_fds_def upt_rec eval_nat_numeral)
qed

definition new_pcb :: "u8 list \<Rightarrow> 'a proc_scheme \<Rightarrow> pcb_t" where
  "new_pcb args s = (let p = pcbs s (KSTACK_TO_PCB (active_proc s)) in p\<lparr>status := 1, pid := word_of_int (active_proc s),
     parent_process_ptr := term_pcb (cur_term s), arg := args @ replicate (1024 - length args) 0,
     file_array := init_fds (file_array p), pcb_esp := esp s, pcb_ebp := ebp s\<rparr>)"

lemma create_pcb_eq:
  "create_pcb args s = (let c = KSTACK_TO_PCB (active_proc s) in
     upd_term (\<lambda>t. t\<lparr>term_pcb := c\<rparr>) (s\<lparr>pcbs := (pcbs s)(c := new_pcb args s)\<rparr>))"
  by (simp add: create_pcb_def new_pcb_def set_pcb_def upd_term_def cur_term_def Let_def)

lemma active_proc_create [simp]: "active_proc (create_pcb args s) = active_proc s"
  by (simp add: create_pcb_eq Let_def upd_term_def)

lemma new_pcb_ok:
  assumes "length args < 1024" and "length (file_array (pcbs s (KSTACK_TO_PCB (active_proc s)))) = 8"
  shows "pcb_ok (new_pcb args s)" "fds (new_pcb args s) = [0 \<mapsto> (Stdin_table, 0, 0), 1 \<mapsto> (Stdout_table, 0, 0)]"
  using closed_fds [of "new_pcb args s"] assms by (simp_all add: pcb_ok_def new_pcb_def init_fds_eq Let_def)

text \<open>
  What a successful \<^verbatim>\<open>execute\<close> leaves: one more process, its image in its frame, behind its window, its
  kernel stack as the next one, and a fresh process control block with its arguments, its parent and the way back.
\<close>

definition started :: "u8 list \<Rightarrow> u8 list \<Rightarrow> nat \<Rightarrow> 'a proc_scheme \<Rightarrow> 'a proc_scheme \<Rightarrow> bool" where
  "started args b L s s' \<longleftrightarrow>
     (let p = active_proc s + 1; a = KSTACK_TO_PCB p; c = pcbs s' a
      in active_proc s' = p \<and> process_counter s' = process_counter s + 1 \<and> tss_esp0 s' = kstack_top p \<and> iflag s' \<and>
         idt s' = idt s \<and> master_mask s' = master_mask s \<and> slave_mask s' = slave_mask s \<and> term_flag s' = term_flag s \<and>
         term_arr s' = (term_arr s)[unat (term_flag s) :=
           (cur_term s)\<lparr>num_program := num_program (cur_term s) + 1, term_pcb := a\<rparr>] \<and>
         kernel_mapped s' \<and> length (page_directory s') = 1024 \<and>
         (\<forall>write n. 0 < n \<and> n \<le> 0x3B8000 \<longrightarrow> phys write s' 0x08048000 n = Inr (image_base p)) \<and>
         rd (mem s') (image_base p) L = map (file_byte s b) [0..<L] \<and>
         (\<forall>x. x \<noteq> a \<longrightarrow> pcbs s' x = pcbs s x) \<and> pcb_ok c \<and>
         fds c = [0 \<mapsto> (Stdin_table, 0, 0), 1 \<mapsto> (Stdout_table, 0, 0)] \<and>
         arg c = args @ replicate (1024 - length args) 0 \<and> pid c = word_of_int p \<and>
         parent_process_ptr c = term_pcb (cur_term s) \<and> pcb_esp c = esp s \<and> pcb_ebp c = ebp s)"

lemma run_program_eq:
  fixes s :: "'a proc_scheme"
  assumes km: "kernel_mapped s" and pd: "length (page_directory s) = 1024" and ap: "-1 \<le> active_proc s" "active_proc s < 500"
    and pf: "program_file s (de_inode d) b L" and terms: "length (term_arr s) = 3" "unat (term_flag s) < 3"
    and fa: "length (file_array (pcbs s (KSTACK_TO_PCB (active_proc s + 1)))) = 8" and args: "length args < 1024"
    and m: "m = wr (mem s) (esp s + probe_off s) xs" "length xs = 4"
  shows "\<exists>s'. run_program d args (s\<lparr>mem := m\<rparr>) = Inr (ToUser (le32 (map (file_byte s b) [24..<28])) 0x83FFFFC, s') \<and>
    started args b L s s'"
proof -
  let ?p = "active_proc s + 1" and ?xs = "map (file_byte s b) [0..<L]"
  obtain s1 where s1: "set_up_program_paging ?p (loading s\<lparr>mem := m\<rparr>) = Inr s1"
    "s1 = loading s\<lparr>mem := m, page_directory := page_directory s1\<rparr>" "length (page_directory s1) = 1024" "kernel_mapped s1"
    "read_data (de_inode d) 0 0x08048000 0x400000 s1 = Inr (int L, s1\<lparr>mem := wr m (image_base ?p) ?xs\<rparr>)"
    "\<And>n write. n \<le> 0x3B8000 \<Longrightarrow> 0 < n \<Longrightarrow> phys write s1 0x08048000 n = Inr (image_base ?p)"
    using load_image [OF km pd ap pf m] by blast
  define s2 where "s2 = s1\<lparr>mem := wr m (image_base ?p) ?xs\<rparr>"
  define s3 where "s3 = (create_pcb args s2)\<lparr>tss_esp0 := kstack_top ?p\<rparr>"
  have s2: "active_proc s2 = ?p" "pcbs s2 = pcbs s" "esp s2 = esp s" "ebp s2 = ebp s" "mem s2 = wr m (image_base ?p) ?xs"
    "term_flag s2 = term_flag s" "term_arr s2 = term_arr (loading s)" "process_counter s2 = process_counter s + 1"
    "page_directory s2 = page_directory s1" "idt s2 = idt s" "master_mask s2 = master_mask s" "slave_mask s2 = slave_mask s"
    unfolding s2_def by (simp_all, (subst s1(2), simp)+)
  have tl: "term_arr (loading s) = (term_arr s)[unat (term_flag s) := (cur_term s)\<lparr>num_program := num_program (cur_term s) + 1\<rparr>]"
    by (simp add: loading_def upd_term_def cur_term_def Let_def)
  then have ct: "cur_term s2 = (cur_term s)\<lparr>num_program := num_program (cur_term s) + 1\<rparr>"
    using terms by (simp add: cur_term_def s2)
  have tab: "tables s3 = tables s1"
    by (simp add: s3_def create_pcb_eq Let_def upd_term_def tables_def s2_def)
  have ph: "phys write s3 va n = phys write s1 va n" for "write" va n using tab by (rule tables_phys)
  have L: "28 \<le> L" "L \<le> 0x3B8000" using program_fileD(4,5) [OF pf] .
  have img: "rd (mem s3) (image_base ?p) L = ?xs"
    using rd_wr_same [of ?xs m "image_base ?p"] L by (simp add: s3_def create_pcb_eq Let_def upd_term_def s2)
  have "phys False s3 (0x08048000 + of_nat 24) 4 = Inr (image_base ?p + of_nat 24)"
    using phys_sub [of False s3 "0x08048000" 28 "image_base ?p" 24 4] s1(6) [of 28 False] by (simp add: ph)
  moreover have "rd (mem s3) (image_base ?p + of_nat 24) 4 = map (file_byte s b) [24..<28]"
  proof -
    have "rd (mem s3) (image_base ?p + of_nat 24) 4 = take 4 (drop 24 (rd (mem s3) (image_base ?p) L))"
      using L by (simp add: drop_rd take_rd)
    also have "\<dots> = map (file_byte s b) (take 4 (drop 24 [0..<L]))" unfolding img by (simp add: take_map drop_map)
    also have "take 4 (drop 24 [0..<L]) = [24..<28]" using L by simp
    finally show ?thesis .
  qed
  ultimately have entry: "vload s3 0x08048018 4 = Inr (map (file_byte s b) [24..<28])"
    by (simp add: vload_def)
  have ld: "upd_term (\<lambda>t. t\<lparr>num_program := num_program t + 1\<rparr>) (s\<lparr>mem := m, active_proc := active_proc s + 1, process_counter := process_counter s + 1\<rparr>) = loading s\<lparr>mem := m\<rparr>"
    by (simp add: loading_def upd_term_def cur_term_def Let_def)
  have "run_program d args (s\<lparr>mem := m\<rparr>) = Inr (ToUser (le32 (map (file_byte s b) [24..<28])) 0x83FFFFC, sti s3)"
    unfolding run_program_def using s1(1,5) entry
    by (simp add: ld Let_def s2_def [symmetric] s3_def [symmetric] s2)
  moreover have "kernel_mapped (sti s3)"
    using tab by (intro kernel_mapped_cong [OF _ _ _ _ s1(4)]) (simp_all add: tables_def sti_def)
  moreover have "phys write (sti s3) va n = phys write s1 va n" for "write" va n
    using ph [of "write" va n] tables_phys [of "sti s3" s3] by simp
  moreover have "pcb_ok (new_pcb args s2)" "fds (new_pcb args s2) = [0 \<mapsto> (Stdin_table, 0, 0), 1 \<mapsto> (Stdout_table, 0, 0)]"
    using new_pcb_ok [of args s2] args fa by (simp_all add: s2)
  moreover have "arg (new_pcb args s2) = args @ replicate (1024 - length args) 0 \<and> pid (new_pcb args s2) = word_of_int ?p \<and>
      parent_process_ptr (new_pcb args s2) = term_pcb (cur_term s) \<and> pcb_esp (new_pcb args s2) = esp s \<and>
      pcb_ebp (new_pcb args s2) = ebp s"
    by (simp add: new_pcb_def Let_def s2 ct)
  moreover have "page_directory (sti s3) = page_directory s1" "mem (sti s3) = mem s3" "iflag (sti s3)"
    "active_proc (sti s3) = ?p" "process_counter (sti s3) = process_counter s + 1" "tss_esp0 (sti s3) = kstack_top ?p"
    "pcbs (sti s3) = (pcbs s)(KSTACK_TO_PCB ?p := new_pcb args s2)" "term_flag (sti s3) = term_flag s"
    "idt (sti s3) = idt s" "master_mask (sti s3) = master_mask s" "slave_mask (sti s3) = slave_mask s"
    "term_arr (sti s3) = (term_arr s)[unat (term_flag s) :=
       (cur_term s)\<lparr>num_program := num_program (cur_term s) + 1, term_pcb := KSTACK_TO_PCB ?p\<rparr>]"
    using ct by (simp_all add: s3_def create_pcb_eq Let_def upd_term_def sti_def s2 tl cur_term_def)
  ultimately show ?thesis
    using img s1(3,6) by (auto simp: started_def Let_def)
qed

section \<open>Executing a command\<close>

lemma obj_arg:
  assumes "0 \<notin> set name" and "length name \<le> 128"
  shows "vstrlen s (Obj (name @ [0])) = Inr (length name)" "arg_name s (Obj (name @ [0])) = take 32 name"
proof -
  show "vstrlen s (Obj (name @ [0])) = Inr (length name)"
    using strlen_Obj [of name "vview s" "[]"] assms by (simp add: vstrlen_def vmapped_def)
  have "map (char_of_arg s (Obj (name @ [0]))) [0..<32] = take 32 (name @ replicate 32 0)"
    by (rule nth_equalityI) (auto simp: char_of_arg_def nth_append fetch_def)
  also have "takeWhile (\<lambda>c. c \<noteq> 0) \<dots> = take 32 name"
  proof (cases "length name \<le> 32")
    case True
    then show ?thesis using assms(1) takeWhile_pad [of name 32] by simp
  next
    case False
    then show ?thesis using assms(1) by (auto simp: takeWhile_eq_all_conv dest: in_set_takeD)
  qed
  finally show "arg_name s (Obj (name @ [0])) = take 32 name" by (simp add: arg_name_def cut_def)
qed

lemma parse_word_cli: "parse_word (cli s) command i = parse_word s command i"
proof (induction s command i rule: parse_word.induct)
  case (1 s command i)
  have "mmu False False (cli s) va = mmu False False s va" for va by (rule mmu_cong) (simp_all add: cli_def)
  then have "vfetch (cli s) command i = vfetch s command i"
    by (simp add: vfetch_def vread_def cli_def split: cptr.split)
  with "1.IH" show ?case
    by (auto simp: parse_word.simps [of "cli s" command i] parse_word.simps [of s command i] intro!: rbind_cong)
qed

lemma file_byte_cli: "block_addr (cli s) b = block_addr s b" "file_byte (cli s) b = file_byte s b"
  by (simp_all add: file_byte_def block_addr_def cli_def fun_eq_iff)

lemma cli_frame:
  "program_file (cli s) ino b L = program_file s ino b L" "started args b L (cli s) s' = started args b L s s'"
  "kernel_mapped (cli s) = kernel_mapped s"
proof -
  show "program_file (cli s) ino b L = program_file s ino b L"
    unfolding program_file_def file_byte_cli by (simp add: cli_def)
  show "started args b L (cli s) s' = started args b L s s'"
    unfolding started_def file_byte_cli by (simp add: cli_def cur_term_def)
  show "kernel_mapped (cli s) = kernel_mapped s"
    using mmu_cong [of "cli s" s] by (simp add: kernel_mapped_def cli_def)
qed

lemma rd_wr_4: "length xs = 4 \<Longrightarrow> rd (wr m a xs) a 4 = xs"
  using rd_wr_same [of xs m a] by simp

text \<open>A command that names a file with the magic number gets to \<^verbatim>\<open>run_program\<close>.\<close>

lemma execute_probed:
  fixes s :: "'a proc_scheme"
  assumes few: "programs s < 6" and bb: "length (boot_block s) = 4096"
    and cmd: "\<not> is_null command" "parse_word s command 0 = Inr (name, k)" "k < 128" "name \<noteq> []"
    and args: "if active_proc s = -1 then args = [] else parse_word s command (k + 1) = Inr (args, j)"
    and ent: "find (\<lambda>i. entry_name (boot_block s) i = take 32 name) [0..<63] = Some i"
    and probe: "read_data (de_inode (direntries (boot_block s) i)) 0 (esp s + probe_off s) 4 (cli s) =
        Inr (4, cli s\<lparr>mem := wr (mem s) (esp s + probe_off s) [0x7f, 0x45, 0x4c, 0x46]\<rparr>)"
    and ph: "phys False (cli s) (esp s + probe_off s) 4 = Inr (esp s + probe_off s)"
  shows "execute command s = run_program (direntries (boot_block s) i) args
      (cli s\<lparr>mem := wr (mem s) (esp s + probe_off s) [0x7f, 0x45, 0x4c, 0x46]\<rparr>)"
    and "length args < 1024"
proof -
  define t where "t = cli s"
  let ?d = "direntries (boot_block s) i" and ?a = "esp s + probe_off s"
  let ?m = "wr (mem s) ?a [0x7f, 0x45, 0x4c, 0x46]"
  have w: "0 \<notin> set name" "length name \<le> 128"
    using parse_word_word [OF cmd(2)] cmd(3) by auto
  show "length args < 1024" using parse_word_word [of s command "k + 1" args j] args cmd(3) by (auto split: if_splits)
  have tf: "boot_block t = boot_block s" "active_proc t = active_proc s" "esp t = esp s" "probe_off t = probe_off s" "term_arr t = term_arr s"
    by (simp_all add: t_def cli_def)
  have dl: "read_dentry_by_name (Obj (name @ [0])) t = Inr (0, Some ?d)"
    using read_dentry_by_name_eq [of t "Obj (name @ [0])" "length name"] bb ent cmd(4)
    by (simp add: tf is_null_def obj_arg [OF w(1,2)])
  have reread: "vload (t\<lparr>mem := ?m\<rparr>) ?a 4 = Inr [0x7f, 0x45, 0x4c, 0x46]"
    using ph rd_wr_4 [of "[0x7f, 0x45, 0x4c, 0x46]" "mem s" ?a] by (simp add: vload_def t_def)
  have few': "\<not> 6 \<le> num_program (term_arr s ! 0) + num_program (term_arr s ! 1) + num_program (term_arr s ! 2)"
    using few by (simp add: programs_def)
  have pt: "parse_word t command n = parse_word s command n" for n by (simp add: t_def parse_word_cli)
  show "execute command s = run_program ?d args (cli s\<lparr>mem := ?m\<rparr>)"
    using few' cmd args dl probe reread
    by (simp add: execute_def t_def [symmetric] Let_def pt tf split: if_splits)
qed

lemma execute_eq:
  fixes s :: "'a proc_scheme"
  assumes km: "kernel_mapped s" and pd: "length (page_directory s) = 1024" and ap: "-1 \<le> active_proc s" "active_proc s < 500"
    and terms: "length (term_arr s) = 3" "unat (term_flag s) < 3" and few: "programs s < 6"
    and fa: "length (file_array (pcbs s (KSTACK_TO_PCB (active_proc s + 1)))) = 8" and bb: "length (boot_block s) = 4096"
    and cmd: "\<not> is_null command" "parse_word s command 0 = Inr (name, k)" "k < 128" "name \<noteq> []"
    and args: "if active_proc s = -1 then args = [] else parse_word s command (k + 1) = Inr (args, j)"
    and ent: "find (\<lambda>i. entry_name (boot_block s) i = take 32 name) [0..<63] = Some i"
    and pf: "program_file s (de_inode (direntries (boot_block s) i)) b L"
  shows "\<exists>s'. execute command s = Inr (ToUser (le32 (map (file_byte s b) [24..<28])) 0x83FFFFC, s') \<and> started args b L s s'"
proof -
  define t where "t = cli s"
  have tf: "boot_block t = boot_block s" "active_proc t = active_proc s" "esp t = esp s" "probe_off t = probe_off s" "mem t = mem s"
    "term_arr t = term_arr s" "term_flag t = term_flag s" "pcbs t = pcbs s" "page_directory t = page_directory s"
    "file_byte t b = file_byte s b"
    by (simp_all add: t_def file_byte_cli) (simp_all add: cli_def)
  let ?d = "direntries (boot_block s) i" and ?a = "esp s + probe_off s"
  have pft: "program_file t (de_inode ?d) b L" and kmt: "kernel_mapped t" using pf km by (simp_all add: t_def cli_frame)
  let ?m = "wr (mem s) ?a [0x7f, 0x45, 0x4c, 0x46]"
  have probe: "read_data (de_inode ?d) 0 ?a 4 t = Inr (4, t\<lparr>mem := ?m\<rparr>)"
    using load_probe [OF kmt pft] by (simp add: tf)
  have "phys False t ?a 4 = Inr ?a"
    using phys_kernel [OF kmt] program_fileD(7) [OF pf] by (simp add: in_kernel_page_def)
  note ex = execute_probed [OF few bb cmd args ent probe [unfolded t_def] this [unfolded t_def]]
  obtain s' where s': "run_program ?d args (t\<lparr>mem := ?m\<rparr>) = Inr (ToUser (le32 (map (file_byte t b) [24..<28])) 0x83FFFFC, s')"
    "started args b L t s'"
    using run_program_eq [OF kmt _ _ _ pft, of args ?m "[0x7f, 0x45, 0x4c, 0x46]"] pd ap terms fa ex(2) by (auto simp: tf)
  from s' show ?thesis by (simp add: ex(1) t_def cli_frame tf [unfolded t_def])
qed

text \<open>The conditions for a command to start a program, in one place.\<close>

definition startable :: "cptr \<Rightarrow> u8 list \<Rightarrow> u8 list \<Rightarrow> nat \<Rightarrow> 'a proc_scheme \<Rightarrow> bool" where
  "startable command args b L s \<longleftrightarrow>
     kernel_mapped s \<and> length (page_directory s) = 1024 \<and> -1 \<le> active_proc s \<and> active_proc s < 500 \<and>
     length (term_arr s) = 3 \<and> unat (term_flag s) < 3 \<and> programs s < 6 \<and>
     length (file_array (pcbs s (KSTACK_TO_PCB (active_proc s + 1)))) = 8 \<and> length (boot_block s) = 4096 \<and>
     \<not> is_null command \<and>
     (\<exists>name k j i. parse_word s command 0 = Inr (name, k) \<and> k < 128 \<and> name \<noteq> [] \<and>
        (if active_proc s = -1 then args = [] else parse_word s command (k + 1) = Inr (args, j)) \<and>
        find (\<lambda>i. entry_name (boot_block s) i = take 32 name) [0..<63] = Some i \<and>
        program_file s (de_inode (direntries (boot_block s) i)) b L)"

lemma execute_startable:
  assumes "startable command args b L s"
  shows "\<exists>s'. execute command s = Inr (ToUser (le32 (map (file_byte s b) [24..<28])) 0x83FFFFC, s') \<and> started args b L s s'"
  using assms unfolding startable_def by (elim conjE exE) (rule execute_eq)

lemma startable_args:
  assumes "startable command args b L s"
  shows "0 \<notin> set args" "length args \<le> 128"
proof -
  obtain k j where "if active_proc s = -1 then args = [] else parse_word s command (k + 1) = Inr (args, j)" "k < 128"
    using assms unfolding startable_def by blast
  then show "0 \<notin> set args" "length args \<le> 128"
    using parse_word_word [of s command "k + 1" args j] by (auto split: if_splits)
qed

section \<open>Ending a process\<close>

text \<open>Closing every descriptor.\<close>

definition close_all :: "u32 \<Rightarrow> nat list \<Rightarrow> 'a proc_scheme \<Rightarrow> 'a proc_scheme" where
  "close_all pcb is s = fold (\<lambda>i s. if in_use_flag (file_array (pcbs s pcb) ! i) = 1 then snd (sys_close (int i) s) else s) is s"

lemma close_all_frame:
  assumes "pcb_ok (cur_pcb s)" and "set is \<subseteq> {2..<8}"
  shows "\<exists>f. close_all (get_pcb s) is s = upd_pcb f s \<and> pcb_ok (f (cur_pcb s)) \<and>
    fds (f (cur_pcb s)) = fds (cur_pcb s) |` (- set is) \<and>
    pcb_esp (f (cur_pcb s)) = pcb_esp (cur_pcb s) \<and> pcb_ebp (f (cur_pcb s)) = pcb_ebp (cur_pcb s)"
  using assms
proof (induction "is" arbitrary: s)
  case Nil
  have "upd_pcb (\<lambda>p. p) s = s" by (simp add: upd_pcb_def cur_pcb_def)
  with Nil show ?case by (intro exI [of _ "\<lambda>p. p"]) (simp add: close_all_def)
next
  case (Cons i "is")
  have i: "2 \<le> i" "i < 8" using Cons.prems(2) by auto
  define s1 where "s1 = (if in_use_flag (file_array (cur_pcb s) ! i) = 1 then snd (sys_close (int i) s) else s)"
  have "\<exists>g. s1 = upd_pcb g s \<and> pcb_ok (g (cur_pcb s)) \<and> fds (g (cur_pcb s)) = (fds (cur_pcb s))(i := None) \<and>
      pcb_esp (g (cur_pcb s)) = pcb_esp (cur_pcb s) \<and> pcb_ebp (g (cur_pcb s)) = pcb_ebp (cur_pcb s)"
  proof (cases "in_use_flag (file_array (cur_pcb s) ! i) = 1")
    case True
    then have "fds (cur_pcb s) i \<noteq> None" using i by (simp add: fds_def Let_def)
    then have r: "spec_close (int i) (fds (cur_pcb s)) = (0, (fds (cur_pcb s))(i := None))" using i by (simp add: spec_close_def)
    obtain g where g: "sys_close (int i) s = (0, upd_pcb g s)" "pcb_ok (g (cur_pcb s))"
      "fds (g (cur_pcb s)) = (fds (cur_pcb s))(i := None)" "\<forall>p. pcb_esp (g p) = pcb_esp p \<and> pcb_ebp (g p) = pcb_ebp p"
      using sys_close_refines [OF Cons.prems(1), of "int i"] unfolding r by auto
    then show ?thesis using True g by (auto simp: s1_def)
  next
    case False
    then have "fds (cur_pcb s) i = None"
      using pcb_ok_fd [OF Cons.prems(1) i(2)] fd_ok_flag [of i] by (auto simp: fds_def Let_def)
    moreover have "upd_pcb (\<lambda>p. p) s = s" by (simp add: upd_pcb_def cur_pcb_def)
    ultimately show ?thesis using False Cons.prems(1)
      by (intro exI [of _ "\<lambda>p. p"]) (auto simp: s1_def fun_upd_idem)
  qed
  then obtain g where g: "s1 = upd_pcb g s" "pcb_ok (g (cur_pcb s))" "fds (g (cur_pcb s)) = (fds (cur_pcb s))(i := None)"
    "pcb_esp (g (cur_pcb s)) = pcb_esp (cur_pcb s)" "pcb_ebp (g (cur_pcb s)) = pcb_ebp (cur_pcb s)" by blast
  have ok1: "pcb_ok (cur_pcb s1)" and sub: "set is \<subseteq> {2..<8}" using g Cons.prems(2) by simp_all
  obtain f where f: "close_all (get_pcb s1) is s1 = upd_pcb f s1" "pcb_ok (f (cur_pcb s1))"
    "fds (f (cur_pcb s1)) = fds (cur_pcb s1) |` (- set is)" "pcb_esp (f (cur_pcb s1)) = pcb_esp (cur_pcb s1)"
    "pcb_ebp (f (cur_pcb s1)) = pcb_ebp (cur_pcb s1)"
    using Cons.IH [OF ok1 sub] by blast
  have "close_all (get_pcb s) (i # is) s = close_all (get_pcb s1) is s1"
    by (simp add: close_all_def s1_def cur_pcb_def g(1) [unfolded s1_def cur_pcb_def])
  moreover have "((fds (cur_pcb s))(i := None)) |` (- set is) = fds (cur_pcb s) |` (- set (i # is))"
    by (auto simp: restrict_map_def fun_eq_iff)
  ultimately show ?case using f g by (intro exI [of _ "\<lambda>p. f (g p)"]) simp
qed

text \<open>What ending a process with a living parent leaves.\<close>

definition ended :: "'a proc_scheme \<Rightarrow> 'a proc_scheme \<Rightarrow> bool" where
  "ended s s' \<longleftrightarrow>
     (let p = active_proc s - 1
      in active_proc s' = p \<and> process_counter s' = process_counter s - 1 \<and> tss_esp0 s' = kstack_top p \<and>
         esp s' = pcb_esp (cur_pcb s) \<and> ebp s' = pcb_ebp (cur_pcb s) \<and> term_flag s' = term_flag s \<and>
         term_arr s' = (term_arr s)[unat (term_flag s) := (cur_term s)\<lparr>num_program := num_program (cur_term s) - 1\<rparr>] \<and>
         mem s' = mem s \<and> (\<forall>x. x \<noteq> get_pcb s \<longrightarrow> pcbs s' x = pcbs s x) \<and>
         (\<forall>i \<ge> 2. fds (pcbs s' (get_pcb s)) i = None) \<and> pcb_ok (pcbs s' (get_pcb s)) \<and>
         (\<forall>write va off n. unat va = 0x8000000 + off \<and> off + n \<le> 0x400000 \<and> 0 < n \<longrightarrow>
            phys write s' va n = Inr (of_nat (0x400000 * (nat p + 1) + off))))"

lemma halt_eq:
  fixes s :: "'a proc_scheme"
  assumes ok: "pcb_ok (cur_pcb s)" and ap: "1 \<le> active_proc s" "active_proc s < 510" and pd: "length (page_directory s) = 1024"
    and par: "parent_process_ptr (cur_pcb s) \<noteq> 0" and num: "1 < num_program (cur_term s)"
  shows "\<exists>s'. halt st s = Inr (ToExecRet, s') \<and> ended s s'"
proof -
  let ?p = "active_proc s - 1" and ?a = "get_pcb s"
  define s0 where "s0 = (upd_term (\<lambda>t. t\<lparr>num_program := num_program t - 1\<rparr>) (s\<lparr>active_proc := ?p,
    process_counter := process_counter s - 1\<rparr>))\<lparr>tss_esp0 := kstack_top ?p\<rparr>"
  have p: "0 \<le> ?p" "?p < 510" using ap by auto
  obtain s1 where s1: "set_up_program_paging ?p s0 = Inr s1" by (simp add: set_up_program_paging_eq [OF p])
  have s1_eq: "s1 = s0\<lparr>page_directory := page_directory s1\<rparr>"
    using s1 by (auto simp: set_up_program_paging_eq [OF p])
  have f0: "active_proc s0 = ?p" "process_counter s0 = process_counter s - 1" "tss_esp0 s0 = kstack_top ?p" "mem s0 = mem s"
    "pcbs s0 = pcbs s" "esp s0 = esp s" "ebp s0 = ebp s" "term_flag s0 = term_flag s" "page_directory s0 = page_directory s"
    "term_arr s0 = (term_arr s)[unat (term_flag s) := (cur_term s)\<lparr>num_program := num_program (cur_term s) - 1\<rparr>]"
    by (simp_all add: s0_def upd_term_def cur_term_def)
  have cur: "get_pcb s1 = ?a" "cur_pcb s1 = cur_pcb s" "pcbs s1 = pcbs s"
    by (subst s1_eq, simp add: get_pcb_def cur_pcb_def f0)+
  obtain f where f: "close_all ?a [2..<8] s1 = upd_pcb f s1" "pcb_ok (f (cur_pcb s))"
    "fds (f (cur_pcb s)) = fds (cur_pcb s) |` (- {2..<8})"
    "pcb_esp (f (cur_pcb s)) = pcb_esp (cur_pcb s)" "pcb_ebp (f (cur_pcb s)) = pcb_ebp (cur_pcb s)"
    using close_all_frame [of s1 "[2..<8]"] ok unfolding cur set_upt by blast
  define s2 where "s2 = upd_pcb f s1"
  define s' where "s' = s2\<lparr>ebp := pcb_ebp (pcbs s2 ?a), esp := pcb_esp (pcbs s2 ?a)\<rparr>"
  have ct: "cur_term (s\<lparr>active_proc := ?p, process_counter := process_counter s - 1\<rparr>) = cur_term s" by (simp add: cur_term_def)
  have "halt st s = halt_rest ?a (s\<lparr>active_proc := ?p, process_counter := process_counter s - 1\<rparr>)"
    using par num ap ct by (simp add: halt_def cur_pcb_def Let_def)
  also have "\<dots> = Inr (ToExecRet, s')"
  proof -
    have "active_proc (upd_term (\<lambda>t. t\<lparr>num_program := num_program t - 1\<rparr>) (s\<lparr>active_proc := ?p, process_counter := process_counter s - 1\<rparr>)) = ?p"
      by (simp add: upd_term_def)
    then show ?thesis
      unfolding halt_rest_def Let_def close_all_def [symmetric]
      by (simp only: s0_def [symmetric] f0(1) s1 rbind_Inr f(1) s2_def [symmetric] s'_def)
  qed
  finally have h: "halt st s = Inr (ToExecRet, s')" .
  have pc: "pcbs s2 = (pcbs s)(?a := f (cur_pcb s))"
    by (simp add: s2_def upd_pcb_def cur)
  have tab: "tables s' = tables s1" by (simp add: s'_def s2_def tables_def upd_pcb_def)
  have pd0: "length (page_directory s0) = 1024" using pd f0 by simp
  have win: "phys write s' va n = Inr (of_nat (0x400000 * (nat ?p + 1) + off))"
    if "unat va = 0x8000000 + off" "off + n \<le> 0x400000" "0 < n" for "write" va off n
    using phys_program [OF pd0 p s1 that] tables_phys [OF tab] by simp
  have "active_proc s1 = ?p" "process_counter s1 = process_counter s - 1" "tss_esp0 s1 = kstack_top ?p" "mem s1 = mem s"
    "term_flag s1 = term_flag s" "term_arr s1 = term_arr s0"
    by (subst s1_eq, simp add: f0)+
  then have fields: "active_proc s' = ?p" "process_counter s' = process_counter s - 1" "tss_esp0 s' = kstack_top ?p" "mem s' = mem s"
    "term_flag s' = term_flag s" "term_arr s' = term_arr s0" "pcbs s' = (pcbs s)(?a := f (cur_pcb s))"
    "esp s' = pcb_esp (cur_pcb s)" "ebp s' = pcb_ebp (cur_pcb s)"
    using f(4,5) by (simp_all add: s'_def pc) (simp_all add: s2_def upd_pcb_def)
  have "fds (f (cur_pcb s)) i = None" if "2 \<le> i" for i
    unfolding f(3) using that by (simp add: restrict_map_def fds_def)
  then have "ended s s'" unfolding ended_def Let_def using win f(2) by (simp add: fields f0)
  with h show ?thesis by blast
qed

section \<open>Counting programs\<close>

text \<open>What every operation below the process layer leaves alone.\<close>

lemma read_data_loop_mem:
  "read_data_loop b off buf l r s = Inr (x, s') \<Longrightarrow> \<exists>m. s' = s\<lparr>mem := m\<rparr>"
proof (induction b off buf l r s rule: read_data_loop.induct)
  case (1 b off buf l r s)
  show ?case
    using "1.prems" by (subst (asm) read_data_loop.simps)
      (auto simp: Let_def rbind_eq_Inr vmemcpy_def int32_def split: if_splits dest!: "1.IH" [rotated -1] intro: exI [of _ "mem s"])
qed

lemma read_data_mem: "read_data ino off buf len s = Inr (x, s') \<Longrightarrow> \<exists>m. s' = s\<lparr>mem := m\<rparr>"
  by (auto simp: read_data_def Let_def rbind_eq_Inr split: if_splits dest: read_data_loop_mem intro: exI [of _ "mem s"])

definition counters_ok :: "'a proc_scheme \<Rightarrow> bool" where
  "counters_ok s \<longleftrightarrow> length (term_arr s) = 3 \<and> unat (term_flag s) < 3 \<and> programs s = active_proc s + 1 \<and>
     process_counter s = word_of_int (active_proc s + 1) \<and> -1 \<le> active_proc s \<and> active_proc s \<le> 5"

lemma counters_ok_cong:
  "kbd_part s = kbd_part t \<Longrightarrow> proc_part s = proc_part t \<Longrightarrow> counters_ok s = counters_ok t"
  by (simp add: counters_ok_def kbd_part_def proc_part_def programs_def)

lemma proc_part_console [simp]:
  "proc_part (putc c s) = proc_part s" "proc_part (s\<lparr>mem := m\<rparr>) = proc_part s" "proc_part (cli s) = proc_part s"
  "proc_part (sti s) = proc_part s" "proc_part (s\<lparr>page_directory := pd\<rparr>) = proc_part s"
  by (simp_all add: proc_part_def putc_def set_cursor_loc_def scroll_def io_defs Let_def)

lemma proc_part_fold [simp]: "proc_part (fold putc cs s) = proc_part s"
  by (induction cs arbitrary: s) simp_all

lemma kbd_part_directory [simp]: "kbd_part (s\<lparr>page_directory := pd\<rparr>) = kbd_part s"
  by (simp add: kbd_part_def)

lemma programs_upd:
  assumes "length (term_arr s) = 3" and "unat (term_flag s) < 3"
  shows "programs (upd_term f s) = programs s - num_program (cur_term s) + num_program (f (cur_term s))"
proof -
  have "unat (term_flag s) = 0 \<or> unat (term_flag s) = 1 \<or> unat (term_flag s) = 2" using assms(2) by arith
  with assms(1) show ?thesis by (auto simp: programs_def upd_term_def cur_term_def)
qed

lemma counters_loading:
  assumes "counters_ok s" and "programs s < 6"
  shows "counters_ok (loading s)"
  using assms programs_upd [of "s\<lparr>active_proc := active_proc s + 1, process_counter := process_counter s + 1\<rparr>"]
  by (auto simp: counters_ok_def loading_def programs_def Let_def) (auto simp: upd_term_def)

lemma set_up_program_paging_frame:
  "set_up_program_paging n s = Inr s' \<Longrightarrow> \<exists>pd. s' = s\<lparr>page_directory := pd\<rparr>"
  by (auto simp: set_up_program_paging_def rbind_eq_Inr Let_def)

lemma counters_create: "counters_ok (create_pcb args s) = counters_ok s"
proof (cases "length (term_arr s) = 3 \<and> unat (term_flag s) < 3")
  case True
  then show ?thesis
    using programs_upd [of "s\<lparr>pcbs := (pcbs s)(KSTACK_TO_PCB (active_proc s) := new_pcb args s)\<rparr>"]
    by (auto simp: create_pcb_eq counters_ok_def Let_def programs_def cur_term_def) (auto simp: upd_term_def)
qed (auto simp: create_pcb_eq counters_ok_def Let_def upd_term_def)

lemma run_program_counters:
  assumes ok: "counters_ok s" and few: "programs s < 6" and r: "run_program d args s = Inr (c, s')"
  shows "counters_ok s' \<and> active_proc s' = active_proc s + 1 \<and> c \<noteq> ToExecRet \<and> (\<forall>x. c = Return x \<longrightarrow> x = -1)"
proof -
  have ld: "upd_term (\<lambda>t. t\<lparr>num_program := num_program t + 1\<rparr>) (s\<lparr>active_proc := active_proc s + 1, process_counter := process_counter s + 1\<rparr>) = loading s"
    by (simp add: loading_def Let_def)
  obtain s1 x s2 where s1: "set_up_program_paging (active_proc s + 1) (loading s) = Inr s1"
    and s2: "read_data (de_inode d) 0 0x08048000 0x400000 s1 = Inr (x, s2)"
    and r2: "(if x = -1 then Inr (Return (-1), s2)
           else rbind (vload ((create_pcb args s2)\<lparr>tss_esp0 := kstack_top (active_proc (create_pcb args s2))\<rparr>) (0x08048000 + 24) 4)
                  (\<lambda>entry. Inr (ToUser (le32 entry) 0x83FFFFC, sti ((create_pcb args s2)\<lparr>tss_esp0 := kstack_top (active_proc (create_pcb args s2))\<rparr>)))) =
           Inr (c, s')"
    using r unfolding run_program_def Let_def by (auto simp: ld rbind_eq_Inr)
  obtain pd m where e: "s2 = loading s\<lparr>page_directory := pd, mem := m\<rparr>"
    using set_up_program_paging_frame [OF s1] read_data_mem [OF s2] by auto
  have c2: "counters_ok s2" using counters_loading [OF ok few] counters_ok_cong [of s2 "loading s"] by (simp add: e)
  have keep: "counters_ok (sti (t\<lparr>tss_esp0 := x\<rparr>)) = counters_ok t" for t :: "'a proc_scheme" and x
    by (simp add: counters_ok_def programs_def sti_def)
  show ?thesis
    using r2 c2 counters_create [of args s2] keep [of _ "create_pcb args s2"]
    by (auto simp: e Let_def rbind_eq_Inr split: if_splits) (simp_all add: sti_def)
qed

lemma exceeded_text:
  "printf (lit (''Exceeded maximum program count, operation denied'' @ newline)) [] s =
     Inr (49, fold putc (bytes (''Exceeded maximum program count, operation denied'' @ newline)) s)"
  using printf_text [of "''Exceeded maximum program count, operation denied'' @ newline" "[]" s]
  by (simp add: bytes_def)

lemma execute_cases:
  assumes "execute command s = Inr (c, s')"
  shows "c = Return (-1) \<and> kbd_part s' = kbd_part s \<and> proc_part s' = proc_part s \<or>
    programs s < 6 \<and> (\<exists>d args m. run_program d args (cli s\<lparr>mem := m\<rparr>) = Inr (c, s'))"
proof (cases "programs s < 6")
  case False
  then show ?thesis using assms exceeded_text [of s] by (auto simp: execute_def programs_def)
next
  case True
  then show ?thesis using assms
    by (auto simp: execute_def programs_def Let_def rbind_eq_Inr dest!: read_data_mem split: if_splits option.splits)
qed

lemma execute_counters:
  assumes "counters_ok s" and "execute command s = Inr (c, s')"
  shows "counters_ok s' \<and> c \<noteq> ToExecRet \<and> (\<forall>x. c = Return x \<longrightarrow> x = -1)"
  using execute_cases [OF assms(2)]
proof
  assume "c = Return (-1) \<and> kbd_part s' = kbd_part s \<and> proc_part s' = proc_part s"
  with assms(1) counters_ok_cong [of s' s] show ?thesis by simp
next
  assume *: "programs s < 6 \<and> (\<exists>d args m. run_program d args (cli s\<lparr>mem := m\<rparr>) = Inr (c, s'))"
  then obtain d args m where r: "run_program d args (cli s\<lparr>mem := m\<rparr>) = Inr (c, s')" by blast
  have "counters_ok (cli s\<lparr>mem := m\<rparr>)" using assms(1) counters_ok_cong [of "cli s\<lparr>mem := m\<rparr>" s] by simp
  moreover have "programs (cli s\<lparr>mem := m\<rparr>) < 6" using * by (simp add: programs_def cli_def)
  ultimately show ?thesis using run_program_counters [OF _ _ r] by blast
qed

section \<open>A command for the witnesses\<close>

text \<open>A program file of 100 bytes, and a shell, process 0, that runs on the first terminal.\<close>

definition exec_mem :: mem where
  "exec_mem = small_mem(0x502000 := 0x7f, 0x502001 := 0x45, 0x502002 := 0x4c, 0x502003 := 0x46,
     0x502018 := 0, 0x502019 := 0x80, 0x50201A := 0x04, 0x50201B := 0x08)"

definition shell_state :: proc where
  "shell_state = (reset_proc exec_mem reset_pcb)\<lparr>term_arr :=
     [reset_term\<lparr>num_program := 1, term_pcb := KSTACK_TO_PCB 0\<rparr>, reset_term, reset_term]\<rparr>"

definition exec_inode :: "u8 list" where
  "exec_inode = rd exec_mem 0x501000 4096"

lemma shell_state_fields:
  "mem shell_state = exec_mem" "boot_block shell_state = image_boot_block" "inode_addr shell_state = 0x501000"
  "data_block_addr shell_state = 0x502000" "active_proc shell_state = 0" "process_counter shell_state = 1"
  "esp shell_state = 0x7FDFCC" "ebp shell_state = kstack_top 0" "probe_off shell_state = -64" "term_flag shell_state = 0"
  "pcbs shell_state = (\<lambda>_. reset_pcb)" "length (page_directory shell_state) = 1024" "tss_esp0 shell_state = kstack_top 0"
  "term_arr shell_state = [reset_term\<lparr>num_program := 1, term_pcb := KSTACK_TO_PCB 0\<rparr>, reset_term, reset_term]"
  "cur_term shell_state = reset_term\<lparr>num_program := 1, term_pcb := KSTACK_TO_PCB 0\<rparr>"
  by (simp_all add: shell_state_def cur_term_def reset_proc_def kbd.defs reset_kbd_def fs.defs reset_fs_def kstack_top_def)

lemma shell_state_mapped: "kernel_mapped shell_state"
  using reset_proc_mapped [of exec_mem reset_pcb]
  by (rule kernel_mapped_cong [rotated 4]) (simp_all add: shell_state_def)

lemma exec_inode_fields: "ino_length exec_inode = 100" "ino_block exec_inode 0 = 0"
  by (simp_all add: ino_length_def ino_block_def exec_inode_def take_rd drop_rd le32_def exec_mem_def small_mem_def image_mem_def)

lemma shell_state_file: "program_file shell_state 0 exec_inode 100"
proof -
  have b: "block_addr shell_state exec_inode 0 = 0x502000"
    by (simp add: block_addr_def shell_state_fields exec_inode_fields)
  have "map (file_byte shell_state exec_inode) [0..<4] = [0x7f, 0x45, 0x4c, 0x46]"
    using b by (simp add: file_byte_def shell_state_fields exec_mem_def upt_rec)
  moreover have "disjoint_ranges 0x501000 4096 0x7FDF8C 4" "disjoint_ranges 0x502000 4096 0x7FDF8C 4"
    "disjoint_ranges 0x502000 4096 0x848000 100"
    by (rule disjoint_ranges_apart; simp)+
  moreover have "0 \<le> sint (ino_block exec_inode 0) \<and> sint (ino_block exec_inode 0) < sint (bb_data_count image_boot_block)"
    by (simp add: exec_inode_fields)
  ultimately show ?thesis
    unfolding program_file_def
    by (simp only: shell_state_fields exec_inode_def [symmetric] exec_inode_fields)
      (auto simp: in_kernel_page_def image_base_def b exec_inode_def [symmetric] exec_inode_fields)
qed

lemma parse_shell:
  "parse_word s (lit ''shell a'') 0 = Inr (bytes ''shell'', 5)" "parse_word s (lit ''shell a'') 6 = Inr (bytes ''a'', 7)"
  by (simp_all add: parse_word.simps vfetch_def lit_def bytes_def)

lemma shell_entry:
  "find (\<lambda>i. entry_name image_boot_block i = take 32 (bytes ''shell'')) [0..<63] = Some 0"
  "de_inode (direntries image_boot_block 0) = 0"
  by (simp_all add: shell_arg upt_conv_Cons bytes_def)
    (simp add: de_inode_def direntries_def image_boot_block_def bytes_def le32_def)

lemma bytes_shell_ne [simp]: "bytes ''shell'' \<noteq> []"
  by (simp add: bytes_def)

lemma shell_programs: "programs shell_state = 1" "counters_ok shell_state"
  by (simp_all add: programs_def counters_ok_def shell_state_fields reset_term_def)

lemma shell_entry_point: "le32 (map (file_byte shell_state exec_inode) [24..<28]) = 0x08048000"
  by (simp add: upt_rec file_byte_def block_addr_def shell_state_fields exec_inode_fields exec_mem_def le32_def small_mem_def image_mem_def)

lemma shell_startable: "startable (lit ''shell a'') (bytes ''a'') exec_inode 100 shell_state"
proof -
  have "parse_word shell_state (lit ''shell a'') (5 + 1) = Inr (bytes ''a'', 7)" using parse_shell(2) by simp
  then show ?thesis
    unfolding startable_def
    using shell_state_mapped parse_shell(1) shell_entry shell_programs(1) shell_state_file
    by (intro conjI exI [of _ "bytes ''shell''"] exI [of _ 5] exI [of _ 7] exI [of _ 0])
      (simp_all add: shell_state_fields reset_pcb_def)
qed

text \<open>A program that was started, and ends again with its first system call.\<close>

lemma execute_then_halt:
  fixes s s' :: "'a proc_scheme"
  assumes "startable command args b L s" and "execute command s = Inr (c, s')" and "0 \<le> active_proc s"
    and "term_pcb (cur_term s) \<noteq> 0" and "1 \<le> num_program (cur_term s)"
  shows "\<exists>s''. syscall_asm_linkage hs 1 ebx ecx edx s' = Inr (ToExecRet, s'') \<and>
    active_proc s'' = active_proc s \<and> process_counter s'' = process_counter s \<and> programs s'' = programs s \<and>
    tss_esp0 s'' = kstack_top (active_proc s) \<and> esp s'' = esp s \<and> ebp s'' = ebp s \<and>
    (\<forall>a. a \<noteq> KSTACK_TO_PCB (active_proc s + 1) \<longrightarrow> pcbs s'' a = pcbs s a) \<and>
    (\<forall>i \<ge> 2. fds (pcbs s'' (KSTACK_TO_PCB (active_proc s + 1))) i = None) \<and>
    phys write s'' 0x08048000 0x3B8000 = Inr (image_base (active_proc s)) \<and>
    term_pcb (cur_term s'') = KSTACK_TO_PCB (active_proc s + 1)"
proof -
  have st: "started args b L s s'" using execute_startable [OF assms(1)] assms(2) by auto
  have ap: "active_proc s < 500" and terms: "length (term_arr s) = 3" "unat (term_flag s) < 3"
    using assms(1) by (simp_all add: startable_def)
  let ?t = "s'\<lparr>esp := tss_esp0 s' - 48\<rparr>" and ?p = "active_proc s + 1"
  let ?c = "pcbs s' (KSTACK_TO_PCB ?p)"
  have pt: "get_pcb ?t = KSTACK_TO_PCB ?p"
    using st stack_block [of ?p 48] ap assms(3) by (simp add: started_def Let_def get_pcb_def)
  then have cp: "cur_pcb ?t = ?c" by (simp add: cur_pcb_def)
  have ct: "cur_term ?t = (cur_term s)\<lparr>num_program := num_program (cur_term s) + 1, term_pcb := KSTACK_TO_PCB ?p\<rparr>"
    using st terms by (simp add: started_def Let_def cur_term_def)
  have child: "pcb_ok ?c" "parent_process_ptr ?c = term_pcb (cur_term s)" "pcb_esp ?c = esp s" "pcb_ebp ?c = ebp s"
    and f: "active_proc s' = ?p" "process_counter s' = process_counter s + 1" "term_flag s' = term_flag s"
      "length (page_directory s') = 1024" "\<forall>x. x \<noteq> KSTACK_TO_PCB ?p \<longrightarrow> pcbs s' x = pcbs s x"
      "term_arr s' = (term_arr s)[unat (term_flag s) := (cur_term s)\<lparr>num_program := num_program (cur_term s) + 1, term_pcb := KSTACK_TO_PCB ?p\<rparr>]"
    using st by (simp_all add: started_def Let_def)
  obtain s'' where h: "halt (ucast ebx) ?t = Inr (ToExecRet, s'')" "ended ?t s''"
    using halt_eq [of ?t "ucast ebx"] child assms(3-5) ap f cp ct by auto
  have e: "active_proc s'' = active_proc s" "process_counter s'' = process_counter s" "tss_esp0 s'' = kstack_top (active_proc s)"
    "esp s'' = esp s" "ebp s'' = ebp s" "term_flag s'' = term_flag s" "\<forall>x. x \<noteq> KSTACK_TO_PCB ?p \<longrightarrow> pcbs s'' x = pcbs s' x"
    "\<forall>i \<ge> 2. fds (pcbs s'' (KSTACK_TO_PCB ?p)) i = None"
    "term_arr s'' = (term_arr s)[unat (term_flag s) := (cur_term s)\<lparr>term_pcb := KSTACK_TO_PCB ?p\<rparr>]"
    using h(2) child f by (simp_all add: ended_def Let_def cp pt ct)
  have "programs s'' = programs (upd_term (\<lambda>t. t\<lparr>term_pcb := KSTACK_TO_PCB ?p\<rparr>) s)"
    by (simp add: programs_def e upd_term_def)
  then have pr: "programs s'' = programs s" using programs_upd [OF terms] by simp
  have "phys write s'' 0x08048000 0x3B8000 = Inr (of_nat (0x400000 * (nat (active_proc s) + 1) + 0x48000))"
  proof -
    have "\<forall>write va off n. unat va = 0x8000000 + off \<and> off + n \<le> 0x400000 \<and> 0 < n \<longrightarrow>
        phys write s'' va n = Inr (of_nat (0x400000 * (nat (active_proc ?t - 1) + 1) + off))"
      using h(2) unfolding ended_def Let_def by blast
    from this [rule_format, of "0x08048000" "0x48000" "0x3B8000" "write"] show ?thesis using f(1) by simp
  qed
  then have "phys write s'' 0x08048000 0x3B8000 = Inr (image_base (active_proc s))" by (simp add: image_base_def)
  moreover have "cur_term s'' = (cur_term s)\<lparr>term_pcb := KSTACK_TO_PCB ?p\<rparr>" using terms by (simp add: cur_term_def e)
  ultimately show ?thesis using h(1) e pr f(5) by (simp add: syscall_asm_linkage_def Let_def)
qed

section \<open>Properties\<close>

text \<open>
  Property C6: \<^verbatim>\<open>execute\<close> of a command whose first word names a program file starts the program: control goes to user level at the
  entry point stored in the file, with the stack at the top of the program's 4 MB; the file's bytes are in the frame of the
  new process, which its window maps; the next kernel entry uses the new process's stack; its process control block has
  only the standard streams open, the second word as argument, the terminal's last process as parent and the
  stack to come back to; no other process is touched. Counters of the terminal and of the system go up by one.
\<close>

theorem execute_starts_program:
  assumes "startable command args b L s"
  shows "\<exists>s'. execute command s = Inr (ToUser (le32 (map (file_byte s b) [24..<28])) 0x83FFFFC, s') \<and> started args b L s s'"
  using assms by (rule execute_startable)

theorem execute_starts_program_witness:
  "\<exists>s'. execute (lit ''shell a'') shell_state = Inr (ToUser 0x08048000 0x83FFFFC, s') \<and>
     started (bytes ''a'') exec_inode 100 shell_state s'"
  using execute_starts_program [OF shell_startable] shell_entry_point by simp


lemma started_phys:
  assumes "started args b L s s'" and "-1 \<le> active_proc s" and "0 < n" and "n \<le> 0x3B8000"
  shows "phys write s' 0x08048000 n = Inr (image_base (active_proc s + 1))"
  using assms by (simp add: started_def Let_def)




text \<open>
  The limit of six programs holds: as long as the number of programs on the three terminals is one more than the number
  of the running process and at most six, every \<^verbatim>\<open>execute\<close> keeps it so, whether it starts a program or fails, and returns -1
  if it returns at all; with six programs it starts none and touches neither terminals nor processes. So the
  number of the running process never exceeds 5, its kernel stack stays above 0x7F0000 and its frame below 28 MB.
\<close>

lemma program_limit:
  assumes "counters_ok s" and "execute command s = Inr (c, s')"
  shows "counters_ok s' \<and> (\<forall>x. c = Return x \<longrightarrow> x = -1) \<and> programs s' \<le> 6 \<and>
    (programs s = 6 \<longrightarrow> c = Return (-1) \<and> kbd_part s' = kbd_part s \<and> proc_part s' = proc_part s) \<and>
    (0 \<le> active_proc s' \<longrightarrow> 0x7F0000 \<le> uint (KSTACK_TO_PCB (active_proc s')) \<and>
       0x400000 * (active_proc s' + 2) \<le> 0x1C00000)"
proof -
  have ok: "counters_ok s'" and ret: "\<forall>x. c = Return x \<longrightarrow> x = -1" using execute_counters [OF assms] by blast+
  have "programs s = 6 \<longrightarrow> c = Return (-1) \<and> kbd_part s' = kbd_part s \<and> proc_part s' = proc_part s"
    using execute_cases [OF assms(2)] by auto
  moreover have le: "active_proc s' \<le> 5" "programs s' \<le> 6" using ok by (simp_all add: counters_ok_def)
  then have "0 \<le> active_proc s' \<longrightarrow> 0x7F0000 \<le> uint (KSTACK_TO_PCB (active_proc s'))"
    using uint_kstack(1) [of "active_proc s'"] by simp
  moreover have "0x400000 * (active_proc s' + 2) \<le> 0x1C00000" using le(1) by simp
  ultimately show ?thesis using ok ret le(2) by blast
qed

lemma program_limit_witness:
  "\<exists>c s'. execute (lit ''shell a'') shell_state = Inr (c, s') \<and> counters_ok s' \<and> programs s' \<le> 6"
  using execute_startable [OF shell_startable] program_limit [OF shell_programs(2)] by blast

lemma execute_unknown:
  fixes s :: "'a proc_scheme"
  assumes few: "programs s < 6" and bl: "length (boot_block s) = 4096"
    and a: "\<not> is_null command" "parse_word s command 0 = Inr (name, k)" "k < 128"
      "active_proc s = -1 \<or> parse_word s command (k + 1) = Inr (args, j)"
      "name = [] \<or> (\<forall>i < 63. entry_name (boot_block s) i \<noteq> take 32 name)"
  shows "execute command s = Inr (Return (-1), cli s)"
proof -
  have few: "\<not> 6 \<le> num_program (term_arr s ! 0) + num_program (term_arr s ! 1) + num_program (term_arr s ! 2)"
    using few by (simp add: programs_def)
  have w: "0 \<notin> set name" "length name \<le> 128" using parse_word_word [of s command 0 name k] a(2,3) by auto
  have bb: "boot_block (cli s) = boot_block s" "active_proc (cli s) = active_proc s" by (simp_all add: cli_def)
  have "read_dentry_by_name (Obj (name @ [0])) (cli s) = Inr (-1, None)"
  proof (cases "name = []")
    case True
    then show ?thesis using obj_arg(1) [OF w, of "cli s"] by (simp add: read_dentry_by_name_def is_null_def)
  next
    case False
    then have none: "find (\<lambda>i. entry_name (boot_block s) i = take 32 name) [0..<63] = None" using a(5) by (simp add: find_None_iff)
    show ?thesis
      using read_dentry_by_name_eq [of "cli s" "Obj (name @ [0])" "length name"] False bl none
      by (simp add: obj_arg [OF w] is_null_def bb)
  qed
  then show ?thesis
    using few a by (auto simp: execute_def Let_def parse_word_cli bb)
qed


lemma is_null_Null: "is_null Null"
  by (simp add: is_null_def)


end
