(* ===== verification/Schedule.thy ===== *)
theory Schedule
  imports Syscalls
begin

text \<open>
  The scheduler, \<^verbatim>\<open>schedule.c\<close>: programming the timer (\<^verbatim>\<open>init_pit\<close>), the timer interrupt (\<^verbatim>\<open>pit_handler\<close>), which chooses a
  terminal but, its call being commented out, switches to none, and \<^verbatim>\<open>switch_context\<close>, which nothing calls.
  \<^verbatim>\<open>switch_context\<close> computes the address of the next process control block by pointer arithmetic, so in units
  of the size of that structure, 1188 bytes; reading there faults when the address is not mapped.
\<close>

section \<open>Definitions\<close>

abbreviation (input) PIT_HZ :: int where "PIT_HZ \<equiv> 1193182"
abbreviation (input) SET_HZ :: int where "SET_HZ \<equiv> 20"
abbreviation (input) PCB_BASE_ADDR :: u32 where "PCB_BASE_ADDR \<equiv> 0x80000"
abbreviation (input) PCB_BLOCK :: u32 where "PCB_BLOCK \<equiv> 0x2000"

record sched = proc +
  pit_counter :: u8
  curr_exec_term :: u8
  next_exec_term :: u8

definition init_pit :: "'a sched_scheme \<Rightarrow> 'a sched_scheme res" where
  "init_pit s =
     (let lowbit_freq = PIT_HZ div SET_HZ mod 256;
          highbit_freq = PIT_HZ div SET_HZ div 256;
          s = outb 0x34 0x43 s;
          s = outb (word_of_int lowbit_freq) 0x40 s;
          s = outb (word_of_int highbit_freq) 0x40 s
      in rbind (printf (lit ''init_pit'') [] s) (\<lambda>(_, s). Inr (enable_irq 0 s)))"

text \<open>The condition on the chosen terminal guards an empty block.\<close>

definition pit_handler :: "'a sched_scheme \<Rightarrow> 'a sched_scheme" where
  "pit_handler s =
     (let s = s\<lparr>curr_exec_term := curr_exec_term s mod 3\<rparr>;
          s = cli s;
          s = send_eoi 0 s;
          s = s\<lparr>next_exec_term := curr_exec_term s\<rparr>;
          s = s\<lparr>curr_exec_term := curr_exec_term s + 1\<rparr>
      in sti s)"

text \<open>The argument \<open>screen_loc\<close> is the address of the local variable \<^verbatim>\<open>screen_start\<close>.\<close>

definition sizeof_pcb :: u32 where
  "sizeof_pcb = 8 * 16 + 4 + 1024 + 8 * 4"

definition next_pcb_addr :: "u32 \<Rightarrow> u32" where
  "next_pcb_addr next_proc = PCB_BASE_ADDR - PCB_BLOCK * (next_proc + 1) * sizeof_pcb"

definition switch_context :: "u32 \<Rightarrow> u32 \<Rightarrow> 'a sched_scheme \<Rightarrow> 'a sched_scheme res" where
  "switch_context screen_loc next_proc s =
     (let i = unat (curr_exec_term s)
      in if length (term_arr s) \<le> i then Inl OutOfBounds
         else if activated (term_arr s ! i) = 0 then Inr s
         else if term_pcb (term_arr s ! i) = 0 then Inr s
         else if num_program (term_arr s ! 0) + num_program (term_arr s ! 1) + num_program (term_arr s ! 2) < 4 then Inr s
         else rbind (set_up_program_paging (sint next_proc) s) (\<lambda>s.
              rbind (vidmap screen_loc s) (\<lambda>(_, s).
              let next_pcb = next_pcb_addr next_proc;
                  s = upd_pcb (\<lambda>p. p\<lparr>pcb_esp := esp s, pcb_ebp := ebp s\<rparr>) s;
                  s = s\<lparr>tss_ss0 := 0x18\<rparr>;
                  s = s\<lparr>tss_esp0 := kstack_top (sint next_proc)\<rparr>
              in rbind (phys False s next_pcb (unat sizeof_pcb)) (\<lambda>_.
                   Inr (s\<lparr>esp := pcb_esp (pcbs s next_pcb), ebp := pcb_ebp (pcbs s next_pcb)\<rparr>)))))"

section \<open>The timer\<close>

fun ticks :: "nat \<Rightarrow> 'a sched_scheme \<Rightarrow> 'a sched_scheme" where
  "ticks 0 s = s"
| "ticks (Suc n) s = pit_handler (ticks n s)"

lemma pit_fields [simp]:
  "curr_exec_term (pit_handler s) = curr_exec_term s mod 3 + 1" "next_exec_term (pit_handler s) = curr_exec_term s mod 3"
  "iflag (pit_handler s)" "term_arr (pit_handler s) = term_arr s" "pcbs (pit_handler s) = pcbs s" "mem (pit_handler s) = mem s"
  by (simp_all add: pit_handler_def Let_def send_eoi_def io_defs)

lemma unat_mod_3: "unat ((x :: u8) mod 3 + 1) mod 3 = (unat x + 1) mod 3"
proof -
  have "unat (x mod 3) = unat x mod 3" by (simp add: unat_mod)
  moreover have "unat (x mod 3 + 1) = unat (x mod 3) + 1"
    using calculation by (simp add: unat_word_ariths)
  ultimately show ?thesis by (simp add: mod_Suc_eq)
qed

lemma ticks_curr: "unat (curr_exec_term (ticks n s)) mod 3 = (unat (curr_exec_term s) + n) mod 3"
  by (induction n) (simp_all add: unat_mod_3, metis mod_Suc_eq)

lemma ticks_next: "unat (next_exec_term (ticks (Suc n) s)) = (unat (curr_exec_term s) + n) mod 3"
  using ticks_curr [of n s] by (simp add: unat_mod)

lemma ticks_frame: "mem (ticks n s) = mem s \<and> term_arr (ticks n s) = term_arr s \<and> pcbs (ticks n s) = pcbs s"
  by (induction n) simp_all

lemma written_console [simp]:
  assumes "p \<noteq> 0x3D4" and "p \<noteq> 0x3D5"
  shows "written p (io_log (putc c s)) = written p (io_log s)"
  using assms by (simp add: putc_def set_cursor_loc_def scroll_def io_defs Let_def)

lemma written_fold_console:
  "p \<noteq> 0x3D4 \<Longrightarrow> p \<noteq> 0x3D5 \<Longrightarrow> written p (io_log (fold putc cs s)) = written p (io_log s)"
  by (induction cs arbitrary: s) simp_all

lemma init_pit_eq:
  "init_pit s = Inr (enable_irq 0 (fold putc (bytes ''init_pit'') (outb 0xE9 0x40 (outb 0x0B 0x40 (outb 0x34 0x43 s)))))"
  using printf_text [of "''init_pit''" "[]" "outb 0xE9 0x40 (outb 0x0B 0x40 (outb 0x34 0x43 s))"] by (simp add: init_pit_def Let_def bytes_def)

section \<open>The context switch\<close>

lemma next_pcb_unmapped:
  assumes "next_proc < 6"
  shows "1000 \<le> unat (next_pcb_addr next_proc) div 0x400000"
proof -
  have "unat next_proc < 6" using assms by (simp add: word_less_nat_alt)
  then have "unat next_proc \<in> {0, 1, 2, 3, 4, 5}" by auto
  then have "next_proc \<in> {0, 1, 2, 3, 4, 5}" by (auto simp: word_unat_eq_iff)
  then show ?thesis by (auto simp: next_pcb_addr_def sizeof_pcb_def)
qed

section \<open>Properties\<close>

text \<open>
  The timer interrupt chooses the terminals in turn: of any three consecutive ticks each chooses a different one of the
  terminals 0, 1 and 2, from whatever value the counter starts; ticks change no memory, no terminal and no
  process.
\<close>

lemma ticks_round_robin:
  "{next_exec_term (ticks (n + 1) s), next_exec_term (ticks (n + 2) s), next_exec_term (ticks (n + 3) s)} = {0, 1, 2} \<and>
   mem (ticks n s) = mem s \<and> term_arr (ticks n s) = term_arr s \<and> pcbs (ticks n s) = pcbs s"
proof -
  let ?k = "unat (curr_exec_term s) + n"
  have u: "unat (next_exec_term (ticks (n + 1) s)) = ?k mod 3" "unat (next_exec_term (ticks (n + 2) s)) = (?k + 1) mod 3"
    "unat (next_exec_term (ticks (n + 3) s)) = (?k + 2) mod 3"
  proof -
    have "n + 1 = Suc n" "n + 2 = Suc (n + 1)" "n + 3 = Suc (n + 2)" by simp_all
    then show "unat (next_exec_term (ticks (n + 1) s)) = ?k mod 3" "unat (next_exec_term (ticks (n + 2) s)) = (?k + 1) mod 3"
      "unat (next_exec_term (ticks (n + 3) s)) = (?k + 2) mod 3"
      by (simp_all only: ticks_next add.assoc)
  qed
  have w: "x = 0 \<longleftrightarrow> unat x = 0" "x = 1 \<longleftrightarrow> unat x = 1" "x = 2 \<longleftrightarrow> unat x = 2" for x :: u8
    by (simp_all add: word_unat_eq_iff)
  have "?k mod 3 = 0 \<or> ?k mod 3 = 1 \<or> ?k mod 3 = 2" by arith
  then have "{next_exec_term (ticks (n + 1) s), next_exec_term (ticks (n + 2) s), next_exec_term (ticks (n + 3) s)} = {0, 1, 2}"
  proof (elim disjE)
    assume k: "?k mod 3 = 0"
    then have "(?k + 1) mod 3 = 1" "(?k + 2) mod 3 = 2" by presburger+
    with k u w show ?thesis by auto
  next
    assume k: "?k mod 3 = 1"
    then have "(?k + 1) mod 3 = 2" "(?k + 2) mod 3 = 0" by presburger+
    with k u w show ?thesis by auto
  next
    assume k: "?k mod 3 = 2"
    then have "(?k + 1) mod 3 = 0" "(?k + 2) mod 3 = 1" by presburger+
    with k u w show ?thesis by auto
  qed
  then show ?thesis using ticks_frame [of n s] by simp
qed

text \<open>
  \<^verbatim>\<open>init_pit\<close> programs channel 0 of the timer in mode 2 with the divisor 59659, low byte first, which
  is the largest that gives at least 20 interrupts a second, and line 0 is delivered afterwards.
\<close>

lemma init_pit_programs_timer:
  "\<exists>s'. init_pit s = Inr s' \<and> irq_delivered s' 0 \<and>
     written 0x43 (io_log s') = written 0x43 (io_log s) @ [0x34] \<and>
     (\<exists>lo hi. written 0x40 (io_log s') = written 0x40 (io_log s) @ [lo, hi] \<and>
        (let d = uint lo + 256 * uint hi in 20 * d \<le> 1193182 \<and> 1193182 < 20 * (d + 1)))"
proof -
  let ?u = "fold putc (bytes ''init_pit'') (outb 0xE9 0x40 (outb 0x0B 0x40 (outb 0x34 0x43 s)))"
  have e: "written p (io_log (enable_irq 0 ?u)) = written p (io_log ?u)" if "p \<noteq> 0x21" for p
    using that by (simp add: enable_irq_def Let_def io_defs)
  have "written 0x43 (io_log ?u) = written 0x43 (io_log s) @ [0x34]" "written 0x40 (io_log ?u) = written 0x40 (io_log s) @ [0x0B, 0xE9]"
    by (subst written_fold_console; simp add: io_defs)+
  moreover have "irq_delivered (enable_irq 0 ?u) 0" using enable_delivers [of 0 ?u] by simp
  ultimately show ?thesis by (simp add: init_pit_eq e Let_def)
qed

text \<open>
  A context switch to any of the first six processes that gets past the checks of \<^verbatim>\<open>switch_context\<close> faults: the address it
  computes for the next process control block is far above the memory the kernel maps.
\<close>

lemma switch_context_faults:
  assumes "next_proc < 6" and "length (page_directory s) = 1024" and "\<forall>i. 1000 \<le> i \<and> i < 1024 \<longrightarrow> page_directory s ! i = 2"
    and "unat (curr_exec_term s) < length (term_arr s)" and "activated (term_arr s ! unat (curr_exec_term s)) \<noteq> 0"
    and "term_pcb (term_arr s ! unat (curr_exec_term s)) \<noteq> 0" and "4 \<le> programs s" and "sint screen_loc < 0x8000000"
  shows "switch_context screen_loc next_proc s = Inl PageFault"
proof -
  have np: "unat next_proc < 6" using assms(1) by (simp add: word_less_nat_alt)
  then have "sint next_proc = int (unat next_proc)" by (intro sint_small) simp
  then have p: "0 \<le> sint next_proc" "sint next_proc < 510" using np by linarith+
  obtain e where s1: "set_up_program_paging (sint next_proc) s = Inr (s\<lparr>page_directory := (page_directory s)[32 := e]\<rparr>)"
    using set_up_program_paging_eq [OF p] by blast
  have v: "vidmap screen_loc t = Inr (-1, t)" for t :: "'a sched_scheme" using assms(8) by (simp add: vidmap_def)
  have "phys False t (next_pcb_addr next_proc) (unat sizeof_pcb) = Inl PageFault"
    if "page_directory t = (page_directory s)[32 := e]" for t :: "'a sched_scheme"
  proof -
    let ?i = "unat (drop_bit 22 (next_pcb_addr next_proc))"
    have "1000 \<le> ?i" "?i < 1024" using next_pcb_unmapped [OF assms(1)] by (simp_all add: drop_bit_22_eq)
    then have "page_directory t ! ?i = 2" using that assms(2,3) by simp
    then have "mmu False False t (next_pcb_addr next_proc) = Inl PageFault"
      by (simp add: mmu_def Let_def blank_not_ok)
    then show ?thesis by (simp add: phys_def sizeof_pcb_def)
  qed
  then show ?thesis
    using assms(4-7) by (simp add: switch_context_def Let_def s1 v programs_def upd_pcb_def)
qed

end
