(* ===== verification/Kernel.thy ===== *)
theory Kernel
  imports Schedule
begin

text \<open>
  The C entry point of the kernel, \<^verbatim>\<open>kernel.c\<close>, with the segment descriptors of \<^verbatim>\<open>x86_desc.h\<close> it fills in: the report on the boot
  information, the descriptors of the LDT and the TSS, and the initialisation of every component up to the first shell.

  \<^verbatim>\<open>entry\<close> runs before paging is on, so the structures of the boot loader are read from physical memory, anew at
  every use as the source does. The loop over the memory map follows sizes found in memory and may never end; \<open>fuel\<close>
  bounds its rounds, and running out is the fault \<open>Hang\<close>.
\<close>

section \<open>Descriptors\<close>

record seg_desc =
  seg_lim_15_00 :: u16
  base_15_00 :: u16
  base_23_16 :: u8
  sd_type :: "4 word"
  sd_sys :: "1 word"
  sd_dpl :: "2 word"
  sd_present :: "1 word"
  seg_lim_19_16 :: "4 word"
  sd_avail :: "1 word"
  sd_reserved :: "1 word"
  sd_opsize :: "1 word"
  sd_granularity :: "1 word"
  base_31_24 :: u8

definition SET_SEG_PARAMS :: "u32 \<Rightarrow> u32 \<Rightarrow> seg_desc \<Rightarrow> seg_desc" where
  "SET_SEG_PARAMS addr lim d =
     (let d = d\<lparr>base_31_24 := ucast (drop_bit 24 (addr AND 0xFF000000))\<rparr>;
          d = d\<lparr>base_23_16 := ucast (drop_bit 16 (addr AND 0x00FF0000))\<rparr>;
          d = d\<lparr>base_15_00 := ucast (addr AND 0x0000FFFF)\<rparr>;
          d = d\<lparr>seg_lim_19_16 := ucast (drop_bit 16 (lim AND 0x000F0000))\<rparr>
      in d\<lparr>seg_lim_15_00 := ucast (lim AND 0x0000FFFF)\<rparr>)"

definition SET_LDT_PARAMS :: "seg_desc \<Rightarrow> u32 \<Rightarrow> u32 \<Rightarrow> seg_desc" where
  "SET_LDT_PARAMS d addr lim = SET_SEG_PARAMS addr lim d"

definition SET_TSS_PARAMS :: "seg_desc \<Rightarrow> u32 \<Rightarrow> u32 \<Rightarrow> seg_desc" where
  "SET_TSS_PARAMS d addr lim = SET_SEG_PARAMS addr lim d"

text \<open>The GDT entries, the registers loaded from them, the selector in the TSS, and \<^verbatim>\<open>fs_start\<close>.\<close>

record kern = sched +
  ldt_desc_ptr :: seg_desc
  tss_desc_ptr :: seg_desc
  ldtr :: u16
  tr :: u16
  tss_ldt_selector :: u16
  fs_start :: u32

abbreviation (input) KERNEL_TSS :: u16 where "KERNEL_TSS \<equiv> 0x30"
abbreviation (input) KERNEL_LDT :: u16 where "KERNEL_LDT \<equiv> 0x38"
abbreviation (input) TSS_SIZE :: u32 where "TSS_SIZE \<equiv> 104"

text \<open>The limits \<^verbatim>\<open>ldt_size\<close> and \<^verbatim>\<open>tss_size\<close> of \<^verbatim>\<open>x86_desc.S\<close>: the sizes less one.\<close>

definition ldt_size :: u32 where
  "ldt_size = 4 * 8 - 1"

definition tss_size :: u32 where
  "tss_size = 104 - 1"

definition setup_ldt :: "'a kern_scheme \<Rightarrow> 'a kern_scheme" where
  "setup_ldt s =
     (let the_ldt_desc = (ldt_desc_ptr s)\<lparr>sd_granularity := 0, sd_opsize := 1, sd_reserved := 0, sd_avail := 0,
            sd_present := 1, sd_dpl := 0, sd_sys := 0, sd_type := 2\<rparr>;
          the_ldt_desc = SET_LDT_PARAMS the_ldt_desc (sym s Sym_ldt) ldt_size;
          s = s\<lparr>ldt_desc_ptr := the_ldt_desc\<rparr>
      in s\<lparr>ldtr := KERNEL_LDT\<rparr>)"

definition setup_tss :: "'a kern_scheme \<Rightarrow> 'a kern_scheme" where
  "setup_tss s =
     (let the_tss_desc = (tss_desc_ptr s)\<lparr>sd_granularity := 0, sd_opsize := 0, sd_reserved := 0, sd_avail := 0,
            seg_lim_19_16 := ucast (TSS_SIZE AND 0x000F0000), sd_present := 1, sd_dpl := 0, sd_sys := 0, sd_type := 9,
            seg_lim_15_00 := ucast (TSS_SIZE AND 0x0000FFFF)\<rparr>;
          the_tss_desc = SET_TSS_PARAMS the_tss_desc (sym s Sym_tss) tss_size;
          s = s\<lparr>tss_desc_ptr := the_tss_desc\<rparr>;
          s = s\<lparr>tss_ldt_selector := KERNEL_LDT\<rparr>;
          s = s\<lparr>tss_ss0 := 0x18\<rparr>;
          s = s\<lparr>tss_esp0 := 0x800000\<rparr>
      in s\<lparr>tr := KERNEL_TSS\<rparr>)"

section \<open>The boot information\<close>

text \<open>A word of a structure of the boot loader.\<close>

definition word_at :: "u32 \<Rightarrow> u32 \<Rightarrow> 'a kern_scheme \<Rightarrow> u32" where
  "word_at addr off s = ld32 (mem s) (addr + off)"

definition say :: "string \<Rightarrow> u32 list \<Rightarrow> 'a kern_scheme \<Rightarrow> 'a kern_scheme res" where
  "say fmt args s = rbind (printf (lit fmt) args s) (\<lambda>(_, s). Inr s)"

fun first_bytes :: "u32 \<Rightarrow> nat list \<Rightarrow> 'a kern_scheme \<Rightarrow> 'a kern_scheme res" where
  "first_bytes mod_start [] s = Inr s"
| "first_bytes mod_start (i # is) s =
     rbind (say ''0x%x '' [scast (mem s (mod_start + of_nat i))] s) (first_bytes mod_start is)"

text \<open>The loop over the modules; \<open>mbi\<close> is the address of the boot information, \<open>module\<close> of the module structure.\<close>

function modules_loop :: "u32 \<Rightarrow> nat \<Rightarrow> u32 \<Rightarrow> 'a kern_scheme \<Rightarrow> 'a kern_scheme res" where
  "modules_loop mbi mod_count module s =
     (if mod_count < unat (word_at mbi 20 s)
      then rbind (say (''Module %d loaded at address: 0x%#x'' @ newline) [of_nat mod_count, word_at module 0 s] s) (\<lambda>s.
           rbind (say (''Module %d ends at address: 0x%#x'' @ newline) [of_nat mod_count, word_at module 4 s] s) (\<lambda>s.
           rbind (say (''First few bytes of module:'' @ newline) [] s) (\<lambda>s.
           rbind (first_bytes (word_at module 0 s) [0..<16] s) (\<lambda>s.
           rbind (say newline [] s) (\<lambda>s.
             if 2147483647 \<le> mod_count then Inl UndefinedArith else modules_loop mbi (Suc mod_count) (module + 16) s)))))
      else Inr s)"
  by pat_completeness auto
termination
proof (relation "measure (\<lambda>(mbi, mod_count, module, s). 4294967296 - mod_count)", goal_cases)
  case (2 mbi mod_count module s)
  then have "mod_count < 4294967296" using unat_u32_bound [of "word_at mbi 20 s"] by linarith
  then show ?case by simp
qed simp

declare modules_loop.simps [simp del]

fun mmap_loop :: "nat \<Rightarrow> u32 \<Rightarrow> u32 \<Rightarrow> 'a kern_scheme \<Rightarrow> 'a kern_scheme res" where
  "mmap_loop 0 mbi mmap s = Inl Hang"
| "mmap_loop (Suc fuel) mbi mmap s =
     (if mmap < word_at mbi 48 s + word_at mbi 44 s
      then rbind (say (''    size = 0x%x, base_addr = 0x%#x%#x'' @ newline @ ''    type = 0x%x,  length    = 0x%#x%#x'' @ newline)
                   [word_at mmap 0 s, word_at mmap 8 s, word_at mmap 4 s, word_at mmap 20 s, word_at mmap 16 s, word_at mmap 12 s] s)
             (\<lambda>s. mmap_loop fuel mbi (mmap + word_at mmap 0 s + 4) s)
      else Inr s)"

definition CHECK_FLAG :: "u32 \<Rightarrow> nat \<Rightarrow> bool" where
  "CHECK_FLAG flags n = bit flags n"

text \<open>The report; it is False when the bits 4 and 5 are both set.\<close>

definition report :: "nat \<Rightarrow> u32 \<Rightarrow> 'a kern_scheme \<Rightarrow> (bool \<times> 'a kern_scheme) res" where
  "report fuel mbi s =
     rbind (say (''flags = 0x%#x'' @ newline) [word_at mbi 0 s] s) (\<lambda>s.
     rbind (if CHECK_FLAG (word_at mbi 0 s) 0
            then say (''mem_lower = %uKB, mem_upper = %uKB'' @ newline) [word_at mbi 4 s, word_at mbi 8 s] s
            else Inr s) (\<lambda>s.
     rbind (if CHECK_FLAG (word_at mbi 0 s) 1
            then say (''boot_device = 0x%#x'' @ newline) [word_at mbi 12 s] s else Inr s) (\<lambda>s.
     rbind (if CHECK_FLAG (word_at mbi 0 s) 2
            then say (''cmdline = %s'' @ newline) [word_at mbi 16 s] s else Inr s) (\<lambda>s.
     rbind (if CHECK_FLAG (word_at mbi 0 s) 3
            then let s = s\<lparr>fs_start := word_at (word_at mbi 24 s) 0 s\<rparr>
                 in modules_loop mbi 0 (word_at mbi 24 s) s
            else Inr s) (\<lambda>s.
     if CHECK_FLAG (word_at mbi 0 s) 4 \<and> CHECK_FLAG (word_at mbi 0 s) 5
     then rbind (say (''Both bits 4 and 5 are set.'' @ newline) [] s) (\<lambda>s. Inr (False, s))
     else rbind (if CHECK_FLAG (word_at mbi 0 s) 5
                 then say (''elf_sec: num = %u, size = 0x%#x, addr = 0x%#x, shndx = 0x%#x'' @ newline)
                        [word_at mbi 28 s, word_at mbi 32 s, word_at mbi 36 s, word_at mbi 40 s] s
                 else Inr s) (\<lambda>s.
          rbind (if CHECK_FLAG (word_at mbi 0 s) 6
                 then rbind (say (''mmap_addr = 0x%#x, mmap_length = 0x%x'' @ newline)
                              [word_at mbi 48 s, word_at mbi 44 s] s) (\<lambda>s.
                        mmap_loop fuel mbi (word_at mbi 48 s) s)
                 else Inr s) (\<lambda>s. Inr (True, s))))))))"

section \<open>The entry point\<close>

text \<open>How \<^verbatim>\<open>entry\<close> ends: it returns to \<^verbatim>\<open>boot.S\<close>, it stays in its idle loop, or control has left it.\<close>

datatype boot_end = Entry_returns | Idle_loop | Left control

definition init_all :: "'a kern_scheme \<Rightarrow> (boot_end \<times> 'a kern_scheme) res" where
  "init_all s =
     (let s = setup_ldt s;
          s = setup_tss s;
          s = init_idt s
      in rbind (clear_screen s) (\<lambda>s.
         let s = paging_setup s
         in rbind (fs_init (fs_start s) s) (\<lambda>(_, s).
            let s = cli s;
                s = i8259_init s;
                s = vga_reg_init s;
                s = enable_cursor s;
                s = sti s
            in rbind (rtc_open Null s) (\<lambda>(_, s).
               rbind (init_pit s) (\<lambda>s.
               rbind (kbd_init 1 s) (\<lambda>(c, s).
                 case c of Return _ \<Rightarrow> Inr (Idle_loop, s) | _ \<Rightarrow> Inr (Left c, s)))))))"

definition entry :: "nat \<Rightarrow> u32 \<Rightarrow> u32 \<Rightarrow> 'a kern_scheme \<Rightarrow> (boot_end \<times> 'a kern_scheme) res" where
  "entry fuel magic addr s =
     (let s = clear s
      in if magic \<noteq> 0x2BADB002
         then rbind (say (''Invalid magic number: 0x%#x'' @ newline) [magic] s) (\<lambda>s. Inr (Entry_returns, s))
         else rbind (report fuel addr s) (\<lambda>(ok, s). if ok then init_all s else Inr (Entry_returns, s)))"

section \<open>What initialisation keeps\<close>

text \<open>
  The state the first shell depends on: the process layer, the buffers of the terminals, the linked addresses and the memory of the kernel's page.
  Printing and every step of the initialisation keep it.
\<close>

definition kmem :: "'a hw_scheme \<Rightarrow> mem" where
  "kmem s = (\<lambda>a. if 0x400000 \<le> unat a \<and> unat a < 0x800000 then mem s a else 0)"

definition term_bufs :: "term_t list \<Rightarrow> (u8 list \<times> u8 list \<times> u8 list) list" where
  "term_bufs ts = map (\<lambda>t. (kbd_line_buf t, kbd_out_buf t, vid_buf t)) ts"

definition core :: "'a kern_scheme \<Rightarrow> int \<times> u8 \<times> (u32 \<Rightarrow> pcb_t) \<times> u32 \<times> u32 \<times> u32 \<times> (u8 list \<times> u8 list \<times> u8 list) list
    \<times> u8 \<times> (symbol \<Rightarrow> u32) \<times> nat \<times> mem" where
  "core s = (active_proc s, process_counter s, pcbs s, esp s, ebp s, probe_off s, term_bufs (term_arr s), term_flag s, sym s,
     length (idt s), kmem s)"

definition fs_part :: "'a fs_scheme \<Rightarrow> u8 list \<times> u32 \<times> u32" where
  "fs_part s = (boot_block s, inode_addr s, data_block_addr s)"

lemma core_terms: "core t = core s \<Longrightarrow> length (term_arr t) = length (term_arr s)"
  using map_eq_imp_length_eq by (auto simp: core_def term_bufs_def)

lemma same_outside_kmem:
  assumes "same_outside_screen (mem s) (mem t)"
  shows "kmem t = kmem s"
proof
  fix a :: u32
  have "\<not> in_range 0xB8000 4000 a" if "0x400000 \<le> unat a"
  proof
    assume "in_range 0xB8000 4000 a"
    then obtain i where "i < 4000" "a = 0xB8000 + of_nat i" by (auto simp: in_range_iff)
    then have "unat a = 0xB8000 + i" using u32_less_add_eq [of "0xB8000" i] by simp
    with that \<open>i < 4000\<close> show False by simp
  qed
  with assms show "kmem t a = kmem s a" by (simp add: kmem_def same_outside_screen_def)
qed

lemma kmem_eq: "mem t = mem s \<Longrightarrow> kmem t = kmem s"
  by (simp add: kmem_def cong: if_cong)

lemma kmem_mem: "kmem s = kmem t \<Longrightarrow> in_kernel_page a n \<Longrightarrow> i < n \<Longrightarrow> mem s (a + of_nat i) = mem t (a + of_nat i)"
proof -
  assume *: "kmem s = kmem t" "in_kernel_page a n" "i < n"
  then have "unat (a + of_nat i) = unat a + i" by (intro u32_less_add_eq) (simp add: in_kernel_page_def)
  moreover have "kmem s (a + of_nat i) = kmem t (a + of_nat i)" using * by simp
  ultimately show ?thesis using * by (simp add: kmem_def in_kernel_page_def)
qed

definition kept :: "'a kern_scheme \<Rightarrow> 'a kern_scheme \<Rightarrow> bool" where
  "kept s s' \<longleftrightarrow> core s' = core s \<and> fs_part s' = fs_part s \<and> tables s' = tables s"

lemma kept_refl [simp]: "kept s s"
  by (simp add: kept_def)

lemma kept_trans: "kept s t \<Longrightarrow> kept t u \<Longrightarrow> kept s u"
  by (simp add: kept_def)

lemma kept_putc: "screen_inv s \<Longrightarrow> kept s (putc c s)"
  using same_outside_kmem [OF putc_outside, of s c]
  by (simp add: kept_def core_def fs_part_def)
    (simp add: putc_def set_cursor_loc_def scroll_def io_defs Let_def)

lemma fs_start_putc [simp]: "fs_start (putc c s) = fs_start s"
  by (simp add: putc_def set_cursor_loc_def scroll_def io_defs Let_def)

lemma kept_fold: "screen_inv s \<Longrightarrow> kept s (fold putc cs s) \<and> screen_inv (fold putc cs s) \<and> fs_start (fold putc cs s) = fs_start s"
proof (induction cs arbitrary: s)
  case (Cons c cs)
  have "screen_inv (putc c s)" using Cons.prems by (rule screen_inv_putc)
  with Cons.IH [of "putc c s"] kept_putc [OF Cons.prems, of c] show ?case by (auto intro: kept_trans)
qed simp

lemma say_keeps:
  assumes "say fmt args s = Inr s'" and "screen_inv s"
  shows "kept s s' \<and> screen_inv s' \<and> fs_start s' = fs_start s"
proof -
  obtain n where "printf (lit fmt) args s = Inr (n, s')" using assms(1) by (auto simp: say_def rbind_eq_Inr)
  then obtain cs where "s' = fold putc cs s" using printf_prints by blast
  with kept_fold [OF assms(2)] show ?thesis by simp
qed

lemma clear_loop_outside: "n \<le> 2000 \<Longrightarrow> same_outside_screen m (clear_loop n m)"
proof (induction n)
  case (Suc n)
  then have "same_outside_screen m (clear_loop n m)" "same_outside_screen (clear_loop n m) (put_cell (int n) 32 (clear_loop n m))"
    by (simp_all add: put_cell_outside)
  then show ?case by (auto intro: same_outside_trans)
qed simp

lemma kept_clear: "kept s (clear s)" "fs_start (clear s) = fs_start s" "screen_inv (clear s) = screen_inv s"
  using same_outside_kmem [of s "clear s"] clear_loop_outside [of 2000 "mem s"]
  by (simp_all add: kept_def core_def fs_part_def clear_def screen_inv_def)

lemma kept_clear_screen:
  assumes "clear_screen s = Inr s'"
  shows "kept s s' \<and> screen_inv s' \<and> fs_start s' = fs_start s"
proof -
  let ?t = "(clear s)\<lparr>screen_x := 0, screen_y := 0\<rparr>"
  have "s' = fold putc (bytes ''391OS> '') ?t" using assms by (simp add: clear_screen_eq)
  moreover have "screen_inv ?t" by (simp add: screen_inv_def)
  moreover have "kept (clear s) ?t" by (simp add: kept_def core_def fs_part_def tables_def) (rule kmem_eq, simp)
  ultimately show ?thesis
    using kept_fold [of ?t "bytes ''391OS> ''"] kept_clear [of s] by (auto intro: kept_trans)
qed

section \<open>The report\<close>

lemma first_bytes_keeps:
  "first_bytes a is s = Inr s' \<Longrightarrow> screen_inv s \<Longrightarrow> kept s s' \<and> screen_inv s' \<and> fs_start s' = fs_start s"
proof (induction "is" arbitrary: s)
  case (Cons i "is")
  then obtain t where t: "say ''0x%x '' [scast (mem s (a + of_nat i))] s = Inr t" "first_bytes a is t = Inr s'"
    by (auto simp: rbind_eq_Inr)
  with say_keeps [OF t(1) Cons.prems(2)] Cons.IH [OF t(2)] show ?case by (auto intro: kept_trans)
qed simp

lemma modules_loop_keeps:
  "modules_loop mbi n m s = Inr s' \<Longrightarrow> screen_inv s \<Longrightarrow> kept s s' \<and> screen_inv s' \<and> fs_start s' = fs_start s"
proof (induction mbi n m s rule: modules_loop.induct)
  case (1 mbi n m s)
  show ?case
  proof (cases "n < unat (word_at mbi 20 s)")
    case False
    then show ?thesis using "1.prems" by (simp add: modules_loop.simps)
  next
    case True
    then obtain s1 s2 s3 s4 s5 where
      st: "say (''Module %d loaded at address: 0x%#x'' @ newline) [of_nat n, word_at m 0 s] s = Inr s1"
      "say (''Module %d ends at address: 0x%#x'' @ newline) [of_nat n, word_at m 4 s1] s1 = Inr s2"
      "say (''First few bytes of module:'' @ newline) [] s2 = Inr s3"
      "first_bytes (word_at m 0 s3) [0..<16] s3 = Inr s4" "say newline [] s4 = Inr s5"
      "\<not> 2147483647 \<le> n" "modules_loop mbi (Suc n) (m + 16) s5 = Inr s'"
      using "1.prems"(1) by (subst (asm) modules_loop.simps) (auto simp: rbind_eq_Inr simp del: upt_rec_numeral split: if_splits)
    have k5: "kept s s5 \<and> screen_inv s5 \<and> fs_start s5 = fs_start s"
      using say_keeps [OF st(1)] say_keeps [OF st(2)] say_keeps [OF st(3)] first_bytes_keeps [OF st(4)] say_keeps [OF st(5)] "1.prems"(2)
      by (metis kept_trans)
    then show ?thesis using "1.IH" [OF True st(1-7)] by (metis kept_trans)
  qed
qed

lemma mmap_loop_keeps:
  "mmap_loop fuel mbi m s = Inr s' \<Longrightarrow> screen_inv s \<Longrightarrow> kept s s' \<and> screen_inv s' \<and> fs_start s' = fs_start s"
proof (induction fuel mbi m s rule: mmap_loop.induct)
  case (2 fuel mbi m s)
  show ?case
  proof (cases "m < word_at mbi 48 s + word_at mbi 44 s")
    case False
    then show ?thesis using "2.prems" by simp
  next
    case True
    then obtain t where t: "say (''    size = 0x%x, base_addr = 0x%#x%#x'' @ newline @ ''    type = 0x%x,  length    = 0x%#x%#x'' @ newline)
           [word_at m 0 s, word_at m 8 s, word_at m 4 s, word_at m 20 s, word_at m 16 s, word_at m 12 s] s = Inr t"
      "mmap_loop fuel mbi (m + word_at m 0 t + 4) t = Inr s'"
      using "2.prems"(1) by (auto simp: rbind_eq_Inr)
    then show ?thesis using say_keeps [OF t(1) "2.prems"(2)] "2.IH" [OF True t(1) t(2)] by (metis kept_trans)
  qed
qed simp

text \<open>What each part of the report keeps.\<close>

lemma part_keeps:
  "(if c then say fmt args s else Inr s) = Inr s' \<Longrightarrow> screen_inv s \<Longrightarrow> kept s s' \<and> screen_inv s' \<and> fs_start s' = fs_start s"
  using say_keeps [of fmt args s s'] by (auto split: if_splits)

lemma kept_fs_start [simp]: "kept s (t\<lparr>fs_start := x\<rparr>) = kept s t" "screen_inv (t\<lparr>fs_start := x\<rparr>) = screen_inv t"
  using kmem_eq [of "t\<lparr>fs_start := x\<rparr>" t]
  by (simp_all add: kept_def core_def fs_part_def tables_def screen_inv_def)

lemma kept_fs_start_left [simp]: "kept (t\<lparr>fs_start := x\<rparr>) s = kept t s"
  using kmem_eq [of "t\<lparr>fs_start := x\<rparr>" t]
  by (simp add: kept_def core_def fs_part_def tables_def)

lemma report_keeps:
  assumes "report fuel mbi s = Inr (ok, s')" and "screen_inv s"
  shows "kept s s' \<and> screen_inv s'"
proof -
  obtain s1 s2 s3 s4 s5 where
    st: "say (''flags = 0x%#x'' @ newline) [word_at mbi 0 s] s = Inr s1"
    "(if CHECK_FLAG (word_at mbi 0 s1) 0
        then say (''mem_lower = %uKB, mem_upper = %uKB'' @ newline) [word_at mbi 4 s1, word_at mbi 8 s1] s1 else Inr s1) = Inr s2"
    "(if CHECK_FLAG (word_at mbi 0 s2) 1 then say (''boot_device = 0x%#x'' @ newline) [word_at mbi 12 s2] s2 else Inr s2) = Inr s3"
    "(if CHECK_FLAG (word_at mbi 0 s3) 2 then say (''cmdline = %s'' @ newline) [word_at mbi 16 s3] s3 else Inr s3) = Inr s4"
    "(if CHECK_FLAG (word_at mbi 0 s4) 3
        then let s = s4\<lparr>fs_start := word_at (word_at mbi 24 s4) 0 s4\<rparr> in modules_loop mbi 0 (word_at mbi 24 s) s else Inr s4) = Inr s5"
    and last: "(if CHECK_FLAG (word_at mbi 0 s5) 4 \<and> CHECK_FLAG (word_at mbi 0 s5) 5
     then rbind (say (''Both bits 4 and 5 are set.'' @ newline) [] s5) (\<lambda>s. Inr (False, s))
     else rbind (if CHECK_FLAG (word_at mbi 0 s5) 5
                 then say (''elf_sec: num = %u, size = 0x%#x, addr = 0x%#x, shndx = 0x%#x'' @ newline)
                        [word_at mbi 28 s5, word_at mbi 32 s5, word_at mbi 36 s5, word_at mbi 40 s5] s5
                 else Inr s5) (\<lambda>s.
          rbind (if CHECK_FLAG (word_at mbi 0 s) 6
                 then rbind (say (''mmap_addr = 0x%#x, mmap_length = 0x%x'' @ newline)
                              [word_at mbi 48 s, word_at mbi 44 s] s) (\<lambda>s.
                        mmap_loop fuel mbi (word_at mbi 48 s) s)
                 else Inr s) (\<lambda>s. Inr (True, s)))) = Inr (ok, s')"
    using assms(1) unfolding report_def rbind_eq_Inr by blast
  have k4: "kept s s4 \<and> screen_inv s4"
    using say_keeps [OF st(1)] part_keeps [OF st(2)] part_keeps [OF st(3)] part_keeps [OF st(4)] assms(2) by (metis kept_trans)
  have k5: "kept s4 s5 \<and> screen_inv s5"
    using st(5) k4 modules_loop_keeps [of mbi 0 _ "s4\<lparr>fs_start := word_at (word_at mbi 24 s4) 0 s4\<rparr>" s5]
    by (auto simp: Let_def split: if_splits)
  have "kept s5 s' \<and> screen_inv s'"
  proof (cases "CHECK_FLAG (word_at mbi 0 s5) 4 \<and> CHECK_FLAG (word_at mbi 0 s5) 5")
    case True
    then show ?thesis using last k5 say_keeps [of "''Both bits 4 and 5 are set.'' @ newline" "[]" s5] by (auto simp: rbind_eq_Inr)
  next
    case False
    then obtain s6 where s6: "(if CHECK_FLAG (word_at mbi 0 s5) 5
                 then say (''elf_sec: num = %u, size = 0x%#x, addr = 0x%#x, shndx = 0x%#x'' @ newline)
                        [word_at mbi 28 s5, word_at mbi 32 s5, word_at mbi 36 s5, word_at mbi 40 s5] s5 else Inr s5) = Inr s6"
      and r: "(if CHECK_FLAG (word_at mbi 0 s6) 6
                 then rbind (say (''mmap_addr = 0x%#x, mmap_length = 0x%x'' @ newline)
                              [word_at mbi 48 s6, word_at mbi 44 s6] s6) (\<lambda>s. mmap_loop fuel mbi (word_at mbi 48 s) s)
                 else Inr s6) = Inr s'"
      using last unfolding if_not_P [OF False] rbind_eq_Inr [where y = "(ok, s')"] sum.inject prod.inject by blast
    have k6: "kept s5 s6 \<and> screen_inv s6" using part_keeps [OF s6] k5 by blast
    show ?thesis
    proof (cases "CHECK_FLAG (word_at mbi 0 s6) 6")
      case False
      then show ?thesis using r k6 by simp
    next
      case True
      then obtain s7 where s7: "say (''mmap_addr = 0x%#x, mmap_length = 0x%x'' @ newline) [word_at mbi 48 s6, word_at mbi 44 s6] s6 = Inr s7"
        "mmap_loop fuel mbi (word_at mbi 48 s7) s7 = Inr s'" using r by (auto simp: rbind_eq_Inr)
      have k7: "kept s6 s7 \<and> screen_inv s7" using say_keeps [OF s7(1)] k6 by blast
      then have "kept s7 s' \<and> screen_inv s'" using mmap_loop_keeps [OF s7(2)] by blast
      with k6 k7 show ?thesis by (blast intro: kept_trans)
    qed
  qed
  with k4 k5 show ?thesis by (metis kept_trans)
qed

section \<open>Initialisation\<close>

text \<open>\<open>steady s t\<close>: what the first shell depends on, the file system start and the screen are as they were.\<close>

definition steady :: "'a kern_scheme \<Rightarrow> 'a kern_scheme \<Rightarrow> bool" where
  "steady s t \<longleftrightarrow> kept s t \<and> fs_start t = fs_start s \<and> (screen_inv s \<longrightarrow> screen_inv t)"

lemma steady_refl [simp]: "steady s s"
  by (simp add: steady_def)

lemma steady_trans: "steady s t \<Longrightarrow> steady t u \<Longrightarrow> steady s u"
  by (auto simp: steady_def intro: kept_trans)

lemma steadyI:
  "core t = core s \<Longrightarrow> fs_part t = fs_part s \<Longrightarrow> tables t = tables s \<Longrightarrow> fs_start t = fs_start s \<Longrightarrow>
   screen_x t = screen_x s \<Longrightarrow> screen_y t = screen_y s \<Longrightarrow> steady s t"
  by (simp add: steady_def kept_def screen_inv_def)

lemma coreI:
  "mem t = mem s \<Longrightarrow> active_proc t = active_proc s \<Longrightarrow> process_counter t = process_counter s \<Longrightarrow> pcbs t = pcbs s \<Longrightarrow>
   esp t = esp s \<Longrightarrow> ebp t = ebp s \<Longrightarrow> probe_off t = probe_off s \<Longrightarrow> term_bufs (term_arr t) = term_bufs (term_arr s) \<Longrightarrow>
   term_flag t = term_flag s \<Longrightarrow> sym t = sym s \<Longrightarrow> length (idt t) = length (idt s) \<Longrightarrow> core t = core s"
  using kmem_eq [of t s] by (simp add: core_def)

lemma steady_ops:
  "steady s (setup_ldt s)" "steady s (setup_tss s)" "steady s (cli s)" "steady s (sti s)" "steady s (i8259_init s)"
  "steady s (vga_reg_init s)" "steady s (enable_cursor s)" "steady s (enable_irq n s)" "steady s (outb d p s)"
  by (intro steadyI coreI; simp add: setup_ldt_def setup_tss_def i8259_init_def vga_reg_init_def set_misc_out_reg_def
      enable_cursor_def set_cursor_loc_def enable_irq_def io_defs Let_def fs_part_def tables_def)+

lemma steady_idt: "steady s t \<Longrightarrow> steady s (t\<lparr>idt := (idt t)[i := d]\<rparr>)"
  by (erule steady_trans) (intro steadyI coreI; simp add: fs_part_def tables_def)

lemma steady_vector: "steady s t \<Longrightarrow> steady s (set_vector v f t)"
  by (simp add: set_vector_def steady_idt)

lemma steady_idt_loop: "steady s t \<Longrightarrow> steady s (fold (\<lambda>i s. s\<lparr>idt := (idt s)[i := F i s]\<rparr>) is t)"
  by (induction "is" arbitrary: t) (simp_all add: steady_idt)

lemma steady_init_idt: "steady s (init_idt s)"
  unfolding init_idt_def Let_def by (intro steady_vector steady_idt_loop steady_refl)

lemma paging_setup_keeps:
  "core (paging_setup s) = core s" "fs_part (paging_setup s) = fs_part s" "fs_start (paging_setup s) = fs_start s"
  "screen_inv (paging_setup s) = screen_inv s"
  by (intro coreI; simp add: paging_setup_def paging_loop Let_def load_cr3_def)
    (simp_all add: paging_setup_def paging_loop Let_def load_cr3_def fs_part_def screen_inv_def)

lemma steady_insert_idt:
  assumes "handler \<noteq> 0" and "unat (32 + irq) < length (idt s)"
  shows "\<exists>s'. insert_idt handler irq s = Inr (0, s') \<and> steady s s' \<and> term_arr s' = term_arr s \<and>
    master_mask s' = master_mask s \<and> slave_mask s' = slave_mask s"
  using assms by (simp add: insert_idt_def Let_def steady_idt)

lemma steady_rtc_init:
  assumes "sym s Sym_rtc_wrapper \<noteq> 0" and "length (idt s) = 256" and "rtc_init 8 s = Inr t"
  shows "steady s t \<and> term_arr t = term_arr s"
proof -
  define u where "u = (let s = (cli s)\<lparr>next_interrupt := 0\<rparr>; s = outb 0x8B 0x70 s; (prev, s) = inb 0x71 s; s = outb 0x8B 0x70 s
    in outb (prev OR 0x40) 0x71 s)"
  have u: "steady s u" "term_arr u = term_arr s" "sym u = sym s" "length (idt u) = 256"
    by (intro steadyI coreI; simp add: u_def io_defs Let_def fs_part_def tables_def)
      (use assms(2) in \<open>simp_all add: u_def io_defs Let_def\<close>)
  obtain v where v: "insert_idt (sym u Sym_rtc_wrapper) 8 u = Inr (0, v)" "steady u v" "term_arr v = term_arr u"
    using steady_insert_idt [of "sym u Sym_rtc_wrapper" 8 u] assms(1) u by auto
  have "rtc_init 8 s = rbind (insert_idt (sym u Sym_rtc_wrapper) 8 u) (\<lambda>(_, s). Inr (sti (enable_irq 8 s)))"
    by (simp add: rtc_init_def u_def Let_def split_beta)
  then have t: "t = sti (enable_irq 8 v)" using assms(3) v(1) by simp
  have "steady v (enable_irq 8 v)" "steady (enable_irq 8 v) t" unfolding t by (rule steady_ops)+
  then have "steady s t" using u(1) v(2) by (blast intro: steady_trans)
  moreover have "term_arr t = term_arr v" by (simp add: t enable_irq_def io_defs Let_def)
  ultimately show ?thesis using u v by simp
qed

lemma steady_rtc_open:
  assumes "sym s Sym_rtc_wrapper \<noteq> 0" and "length (idt s) = 256"
  shows "\<exists>s'. rtc_open f s = Inr (0, s') \<and> steady s s' \<and> irq_delivered s' 8 \<and> term_arr s' = term_arr s"
proof -
  obtain t where t: "rtc_init 8 s = Inr t" "irq_delivered t 8" using rtc_init_eq [OF assms] by blast
  obtain l where w: "rtc_write_byte 15 t = Inr (0, rtc_rate 15, t\<lparr>io_log := l, iflag := True\<rparr>)"
    using rtc_write_byte_eq [of 15 t] by auto
  have "steady t (t\<lparr>io_log := l, iflag := True\<rparr>)"
    by (intro steadyI coreI; simp add: fs_part_def tables_def)
  moreover have "irq_delivered (t\<lparr>io_log := l, iflag := True\<rparr>) 8" using t(2) by (simp add: irq_delivered_def)
  moreover have "rtc_open f s = Inr (0, t\<lparr>io_log := l, iflag := True\<rparr>)" using t(1) w by (simp add: rtc_open_def)
  ultimately show ?thesis using steady_rtc_init [OF assms t(1)] by (auto intro: steady_trans)
qed

lemma steady_init_pit:
  assumes "screen_inv s"
  shows "\<exists>s'. init_pit s = Inr s' \<and> steady s s' \<and> irq_delivered s' 0 \<and> (irq_delivered s 8 \<longrightarrow> irq_delivered s' 8)"
proof -
  define t where "t = outb 0xE9 0x40 (outb 0x0B 0x40 (outb 0x34 0x43 s))"
  define u where "u = fold putc (bytes ''init_pit'') t"
  have "steady s t" unfolding t_def by (blast intro: steady_trans steady_ops)
  moreover have "screen_inv t" using assms by (simp add: t_def io_defs screen_inv_def)
  then have "steady t u" using kept_fold [of t "bytes ''init_pit''"] by (simp add: steady_def u_def)
  moreover have "steady u (enable_irq 0 u)" by (rule steady_ops)
  moreover have "irq_delivered (enable_irq (of_nat 0) u) 0" by (rule enable_delivers) simp
  moreover have m: "master_mask (putc c v) = master_mask v \<and> slave_mask (putc c v) = slave_mask v" for c and v :: "'a kern_scheme"
    by (simp add: putc_def set_cursor_loc_def scroll_def io_defs Let_def)
  have "master_mask (fold putc cs v) = master_mask v \<and> slave_mask (fold putc cs v) = slave_mask v" for cs and v :: "'a kern_scheme"
    by (induction cs arbitrary: v) (simp_all add: m)
  then have "irq_delivered u 8 = irq_delivered s 8" by (simp add: irq_delivered_def u_def t_def io_defs)
  then have "irq_delivered s 8 \<longrightarrow> irq_delivered (enable_irq (of_nat 0) u) 8"
    using enable_keeps [of 0 u 8] by simp
  ultimately show ?thesis
    by (simp add: init_pit_eq t_def [symmetric] u_def [symmetric]) (blast intro: steady_trans)
qed

section \<open>The first shell\<close>

lemma program_file_core:
  assumes "core t = core s" and "fs_part t = fs_part s" and pf: "program_file s ino b L"
  shows "program_file t ino b L" "k < L \<Longrightarrow> file_byte t b k = file_byte s b k"
proof -
  have f: "inode_addr t = inode_addr s" "boot_block t = boot_block s" "data_block_addr t = data_block_addr s"
    "esp t = esp s" "probe_off t = probe_off s" "active_proc t = active_proc s" and km: "kmem t = kmem s"
    using assms(1,2) by (simp_all add: core_def fs_part_def)
  have ba: "block_addr t b i = block_addr s b i" for i by (simp add: block_addr_def f)
  have fb: "file_byte t b k = file_byte s b k" if "k < L" for k
  proof -
    have "k div 4096 \<le> L div 4096" using that by (intro div_le_mono) simp
    then have "in_kernel_page (block_addr s b (k div 4096)) 4096" using program_fileD(9) [OF pf] by blast
    then show ?thesis using kmem_mem [OF km, of _ 4096] by (simp add: file_byte_def ba)
  qed
  show "k < L \<Longrightarrow> file_byte t b k = file_byte s b k" by (rule fb)
  have "rd (mem t) (inode_addr s + ino * 4096) 4096 = b"
    using kmem_mem [OF km program_fileD(1) [OF pf]] program_fileD(2) [OF pf] rd_cong [of 4096 "mem t"] by metis
  moreover have "map (file_byte t b) [0..<4] = map (file_byte s b) [0..<4]"
    using program_fileD(4) [OF pf] fb by (intro map_cong) auto
  then have "map (file_byte t b) [0..<4] = [0x7f, 0x45, 0x4c, 0x46]" using program_fileD(6) [OF pf] by (rule trans)
  ultimately show "program_file t ino b L"
    unfolding program_file_def f ba using program_fileD [OF pf] by (intro conjI allI impI) (blast | simp)+
qed

lemma init_terms:
  "length (term_arr s) = 3 \<Longrightarrow>
   fold (\<lambda>i s. s\<lparr>term_arr := (term_arr s)[i := init_term i (term_arr s ! i)]\<rparr>) [0..<3] s =
     s\<lparr>term_arr := [init_term 0 (term_arr s ! 0), init_term 1 (term_arr s ! 1), init_term 2 (term_arr s ! 2)]\<rparr>"
proof -
  assume "length (term_arr s) = 3"
  then obtain x y z where "term_arr s = [x, y, z]" by (auto simp: eval_nat_numeral length_Suc_conv)
  then show ?thesis by (simp add: upt_rec eval_nat_numeral)
qed

lemma parse_shell_lit: "parse_word s (lit ''shell'') 0 = Inr (bytes ''shell'', 5)"
  by (simp add: parse_word.simps vfetch_def lit_def bytes_def)

text \<open>What starting the first shell needs of the state before \<^verbatim>\<open>kbd_init\<close>.\<close>

definition shell_ready :: "u8 list \<Rightarrow> nat \<Rightarrow> 'a kern_scheme \<Rightarrow> bool" where
  "shell_ready b L s \<longleftrightarrow> active_proc s = -1 \<and> length (term_arr s) = 3 \<and> unat (term_flag s) < 3 \<and>
     length (file_array (pcbs s (KSTACK_TO_PCB 0))) = 8 \<and> length (boot_block s) = 4096 \<and>
     (\<exists>i. find (\<lambda>i. entry_name (boot_block s) i = bytes ''shell'') [0..<63] = Some i \<and>
        program_file s (de_inode (direntries (boot_block s) i)) b L)"

lemma shell_ready_core:
  assumes "core t = core s" and "fs_part t = fs_part s" and "shell_ready b L s"
  shows "shell_ready b L t"
proof -
  obtain i where i: "find (\<lambda>i. entry_name (boot_block s) i = bytes ''shell'') [0..<63] = Some i"
    "program_file s (de_inode (direntries (boot_block s) i)) b L" using assms(3) unfolding shell_ready_def by blast
  have "program_file t (de_inode (direntries (boot_block s) i)) b L" using program_file_core(1) [OF assms(1,2) i(2)] .
  then show ?thesis using assms i core_terms [OF assms(1)] by (simp add: shell_ready_def core_def fs_part_def)
qed

text \<open>The state \<^verbatim>\<open>kbd_init\<close> executes the shell in.\<close>

definition before_shell :: "'a kern_scheme \<Rightarrow> 'a kern_scheme \<Rightarrow> bool" where
  "before_shell s v \<longleftrightarrow> core v = core s \<and> fs_part v = fs_part s \<and> tables v = tables s \<and> (screen_inv s \<longrightarrow> screen_inv v) \<and>
     (\<exists>ts. term_arr v = [init_term 0 (ts ! 0), init_term 1 (ts ! 1), init_term 2 (ts ! 2)]) \<and>
     irq_delivered v 1 \<and> (\<forall>n. irq_delivered s n \<longrightarrow> irq_delivered v n)"

lemma kbd_init_prepares:
  fixes s :: "'a kern_scheme"
  assumes sr: "shell_ready b L s" and h: "sym s Sym_kbd_wrapper \<noteq> 0" and idt: "length (idt s) = 256"
  shows "\<exists>v. before_shell s v \<and> (\<forall>pc sp s'. execute (lit ''shell'') v = Inr (ToUser pc sp, s') \<longrightarrow> kbd_init 1 s = Inr (ToUser pc sp, s'))"
proof -
  obtain t where t: "insert_idt (sym s Sym_kbd_wrapper) 1 s = Inr (0, t)" "steady s t" "term_arr t = term_arr s"
    "master_mask t = master_mask s" "slave_mask t = slave_mask s"
    using steady_insert_idt [of "sym s Sym_kbd_wrapper" 1 s] h idt by auto
  define u where "u = enable_irq 1 t"
  define v where "v = u\<lparr>term_arr := [init_term 0 (term_arr u ! 0), init_term 1 (term_arr u ! 1), init_term 2 (term_arr u ! 2)]\<rparr>"
  have su: "steady s u" unfolding u_def using t(2) steady_ops(8) by (blast intro: steady_trans)
  then have "core u = core s" by (simp add: steady_def kept_def)
  then have len: "length (term_arr u) = 3" using core_terms sr by (fastforce simp: shell_ready_def)
  then obtain x y z where xyz: "term_arr u = [x, y, z]" by (auto simp: eval_nat_numeral length_Suc_conv)
  have loop: "fold (\<lambda>i s. s\<lparr>term_arr := (term_arr s)[i := init_term i (term_arr s ! i)]\<rparr>) [0..<3] u = v"
    unfolding v_def using len by (rule init_terms)
  have "term_bufs (term_arr v) = term_bufs (term_arr u)" by (simp add: v_def xyz term_bufs_def init_term_def)
  then have "core v = core u" by (intro coreI) (simp_all add: v_def)
  moreover have "fs_part v = fs_part u" "tables v = tables u" "screen_inv v = screen_inv u"
    by (simp_all add: v_def fs_part_def tables_def screen_inv_def)
  moreover have "irq_delivered v n = irq_delivered u n" for n by (simp add: v_def irq_delivered_def)
  moreover have "irq_delivered u 1" "irq_delivered s n \<Longrightarrow> irq_delivered u n" for n
    using enable_delivers [of 1 t] enable_keeps [of 1 t n] t(4,5) by (simp_all add: u_def irq_delivered_def)
  moreover have "\<exists>ts. term_arr v = [init_term 0 (ts ! 0), init_term 1 (ts ! 1), init_term 2 (ts ! 2)]"
    by (auto simp: v_def)
  ultimately have "before_shell s v" using su by (auto simp: before_shell_def steady_def kept_def)
  moreover have "kbd_init 1 s = Inr (ToUser pc sp, s')" if "execute (lit ''shell'') v = Inr (ToUser pc sp, s')" for pc sp s'
    using t(1) that by (simp add: kbd_init_def Let_def u_def [symmetric] loop del: upt_rec_numeral)
  ultimately show ?thesis by blast
qed

lemma before_shell_startable:
  assumes bs: "before_shell s v" and km: "kernel_mapped s" and pd: "length (page_directory s) = 1024" and sr: "shell_ready b L s"
  shows "startable (lit ''shell'') [] b L v" and "programs v = 0" and "active_proc v = -1"
    and "n \<le> L \<Longrightarrow> map (file_byte v b) [m..<n] = map (file_byte s b) [m..<n]"
proof -
  have eq: "core v = core s" "fs_part v = fs_part s" "tables v = tables s" using bs by (simp_all add: before_shell_def)
  have srv: "shell_ready b L v" using shell_ready_core [OF eq(1,2) sr] .
  have kv: "kernel_mapped v" using eq(3) by (intro kernel_mapped_cong [OF _ _ _ _ km]) (simp_all add: tables_def)
  have pdv: "length (page_directory v) = 1024" using eq(3) pd by (simp add: tables_def)
  show prog: "programs v = 0" using bs by (auto simp: before_shell_def programs_def init_term_def)
  show "active_proc v = -1" using srv by (simp add: shell_ready_def)
  obtain i where i: "find (\<lambda>i. entry_name (boot_block v) i = bytes ''shell'') [0..<63] = Some i"
    "program_file v (de_inode (direntries (boot_block v) i)) b L" using srv unfolding shell_ready_def by blast
  show "startable (lit ''shell'') [] b L v"
    unfolding startable_def using srv kv pdv prog i parse_shell_lit [of v]
    by (intro conjI exI [of _ "bytes ''shell''"] exI [of _ 5] exI [of _ 0] exI [of _ i])
      (simp_all add: shell_ready_def bytes_def)
  obtain j where pf: "program_file s (de_inode (direntries (boot_block s) j)) b L" using sr unfolding shell_ready_def by blast
  show "n \<le> L \<Longrightarrow> map (file_byte v b) [m..<n] = map (file_byte s b) [m..<n]"
    using program_file_core(2) [OF eq(1,2) pf] by (intro map_cong) auto
qed

text \<open>The first shell runs.\<close>

definition first_shell :: "u8 list \<Rightarrow> nat \<Rightarrow> 'a kern_scheme \<Rightarrow> 'a kern_scheme \<Rightarrow> bool" where
  "first_shell b L s s' \<longleftrightarrow> active_proc s' = 0 \<and> programs s' = 1 \<and> iflag s' \<and> irq_delivered s' 1 \<and>
     (\<forall>n. irq_delivered s n \<longrightarrow> irq_delivered s' n) \<and> kernel_mapped s' \<and> tss_esp0 s' = kstack_top 0 \<and>
     rd (mem s') (image_base 0) L = map (file_byte s b) [0..<L] \<and> pcb_ok (pcbs s' (KSTACK_TO_PCB 0))"

lemma execute_first_shell:
  fixes s :: "'a kern_scheme"
  assumes bs: "before_shell s v" and km: "kernel_mapped s" and pd: "length (page_directory s) = 1024" and sr: "shell_ready b L s"
  shows "\<exists>s'. execute (lit ''shell'') v = Inr (ToUser (le32 (map (file_byte s b) [24..<28])) 0x83FFFFC, s') \<and> first_shell b L s s'"
proof -
  note v = before_shell_startable [OF bs km pd sr]
  obtain s' where s': "execute (lit ''shell'') v = Inr (ToUser (le32 (map (file_byte v b) [24..<28])) 0x83FFFFC, s')"
    "started [] b L v s'" using execute_startable [OF v(1)] by blast
  have L: "28 \<le> L" using sr program_fileD(4) unfolding shell_ready_def by blast
  have terms: "length (term_arr v) = 3" "unat (term_flag v) < 3"
    using bs sr by (auto simp: before_shell_def core_def shell_ready_def)
  have "programs s' = programs (upd_term (\<lambda>t. t\<lparr>num_program := num_program t + 1, term_pcb := KSTACK_TO_PCB (active_proc v + 1)\<rparr>) v)"
    using s'(2) by (simp add: started_def Let_def programs_def upd_term_def)
  then have "programs s' = 1" using programs_upd [OF terms] v(2) by simp
  moreover have "irq_delivered s' n = irq_delivered v n" for n using s'(2) by (simp add: started_def Let_def irq_delivered_def)
  ultimately have "first_shell b L s s'"
    using s'(2) bs v(3) v(4) [of L 0] by (simp add: first_shell_def started_def Let_def before_shell_def)
  then show ?thesis using s'(1) v(4) [of 28 24] L by (auto simp del: upt_rec_numeral)
qed

text \<open>The state with the file system mounted from memory, as \<^verbatim>\<open>fs_init\<close> leaves it.\<close>

definition mounted :: "'a kern_scheme \<Rightarrow> 'a kern_scheme" where
  "mounted s = (let bb = rd (mem s) (fs_start s) 4096
     in s\<lparr>boot_block := bb, inode_addr := fs_start s + 4096,
          data_block_addr := fs_start s + 4096 + bb_inode_count bb * 4096\<rparr>)"

lemma fs_init_mounts:
  assumes "kernel_mapped s" and "in_kernel_page (fs_start s) 4096"
  shows "\<exists>s'. fs_init (fs_start s) s = Inr (0, s') \<and> core s' = core s \<and> fs_part s' = fs_part (mounted s) \<and> tables s' = tables s \<and>
    fs_start s' = fs_start s \<and> screen_inv s' = screen_inv s"
proof -
  let ?s' = "s\<lparr>boot_block := rd (mem s) (fs_start s) 4096, boot_block_addr := fs_start s, inode_addr := fs_start s + 4096,
    data_block_addr := fs_start s + 4096 + bb_inode_count (rd (mem s) (fs_start s) 4096) * 4096, dir_count := 0\<rparr>"
  have "vload s (fs_start s) 4096 = Inr (rd (mem s) (fs_start s) 4096)"
    using phys_kernel [OF assms(1)] assms(2) by (simp add: vload_def in_kernel_page_def)
  then have "fs_init (fs_start s) s = Inr (0, ?s')" by (simp add: fs_init_def Let_def)
  moreover have "core ?s' = core s" by (rule coreI) simp_all
  ultimately show ?thesis by (simp add: fs_part_def mounted_def Let_def tables_def screen_inv_def)
qed

text \<open>The state \<^verbatim>\<open>entry\<close> calls \<^verbatim>\<open>kbd_init\<close> in, and with it the shell.\<close>

definition devices_ready :: "'a kern_scheme \<Rightarrow> 'a kern_scheme \<Rightarrow> bool" where
  "devices_ready s t \<longleftrightarrow> core t = core (mounted s) \<and> fs_part t = fs_part (mounted s) \<and> screen_inv t \<and>
     irq_delivered t 0 \<and> irq_delivered t 8 \<and> (\<exists>u :: 'a kern_scheme. tables_ok u \<and> tables t = tables (paging_setup u))"

lemma init_all_devices:
  fixes s :: "'a kern_scheme"
  assumes tab: "tables_ok s" and idt: "length (idt s) = 256" and sy: "sym s Sym_rtc_wrapper \<noteq> 0"
    and fs: "in_kernel_page (fs_start s) 4096"
  shows "\<exists>t. devices_ready s t \<and> (\<forall>pc sp s'. kbd_init 1 t = Inr (ToUser pc sp, s') \<longrightarrow> init_all s = Inr (Left (ToUser pc sp), s'))"
proof -
  define s1 where "s1 = init_idt (setup_tss (setup_ldt s))"
  have k1: "steady s s1"
    unfolding s1_def by (rule steady_trans [OF _ steady_init_idt], rule steady_trans [OF steady_ops(1) steady_ops(2)])
  obtain s2 where s2: "clear_screen s1 = Inr s2" by (simp add: clear_screen_eq)
  have k2: "kept s s2" "fs_start s2 = fs_start s" "screen_inv s2"
    using kept_clear_screen [OF s2] k1 by (auto simp: steady_def intro: kept_trans)
  define s3 where "s3 = paging_setup s2"
  have t2: "tables_ok s2" using k2(1) tab by (simp add: kept_def tables_ok_def tables_def)
  have k3: "core s3 = core s" "fs_part s3 = fs_part s" "fs_start s3 = fs_start s" "screen_inv s3" "kernel_mapped s3"
    "length (page_directory s3) = 1024"
    using k2 paging_setup_keeps [of s2] kernel_mapped_setup [OF t2] tables_ok_kept(1) [OF t2]
    by (simp_all add: s3_def kept_def tables_ok_def)
  obtain s4 where s4: "fs_init (fs_start s3) s3 = Inr (0, s4)" "core s4 = core s3" "fs_part s4 = fs_part (mounted s3)"
    "tables s4 = tables s3" "screen_inv s4" "fs_start s4 = fs_start s3"
    using fs_init_mounts [OF k3(5)] fs k3(3,4) by auto
  have bb: "rd (mem s3) (fs_start s) 4096 = rd (mem s) (fs_start s) 4096"
    using kmem_mem [OF _ fs, of s3 s] k3(1) by (intro rd_cong) (simp add: core_def)
  define s5 where "s5 = sti (enable_cursor (vga_reg_init (i8259_init (cli s4))))"
  have k5: "steady s4 s5"
    unfolding s5_def
    by (rule steady_trans [OF steady_trans [OF steady_trans [OF steady_trans
        [OF steady_ops(3) steady_ops(5)] steady_ops(6)] steady_ops(7)] steady_ops(4)])
  have e5: "sym s5 = sym s" "length (idt s5) = length (idt s)" using k5 s4(2) k3(1) by (simp_all add: steady_def kept_def core_def)
  obtain s6 where s6: "rtc_open Null s5 = Inr (0, s6)" "steady s5 s6" "irq_delivered s6 8"
    using steady_rtc_open [of s5 Null] e5 sy idt by auto
  have k6: "steady s4 s6" using k5 s6(2) by (rule steady_trans)
  then have "screen_inv s6" using s4(5) by (simp add: steady_def)
  then obtain s7 where s7: "init_pit s6 = Inr s7" "steady s6 s7" "irq_delivered s7 0" "irq_delivered s7 8"
    using steady_init_pit s6(3) by blast
  have k7: "steady s4 s7" using k6 s7(2) by (rule steady_trans)
  have eq: "core s7 = core (mounted s)" "fs_part s7 = fs_part (mounted s)" "tables s7 = tables s3"
  proof -
    have "core (mounted s) = core s" by (rule coreI) (simp_all add: mounted_def Let_def)
    then show "core s7 = core (mounted s)" using k7 s4(2) k3(1) by (simp add: steady_def kept_def)
    show "fs_part s7 = fs_part (mounted s)" "tables s7 = tables s3"
      using k7 s4(3,4) bb k3(3) by (simp_all add: steady_def kept_def fs_part_def mounted_def Let_def)
  qed
  have "screen_inv s7" using k7 s4(5) by (simp add: steady_def)
  then have "devices_ready s s7" using eq s7(3,4) t2 by (auto simp: devices_ready_def s3_def)
  moreover have "init_all s = Inr (Left (ToUser pc sp), s')" if "kbd_init 1 s7 = Inr (ToUser pc sp, s')" for pc sp s'
    unfolding init_all_def Let_def s1_def [symmetric] s2 rbind_Inr s3_def [symmetric]
    using that by (simp add: s4(1) s5_def [symmetric] s6(1) s7(1) Let_def del: upt_rec_numeral)
  ultimately show ?thesis by blast
qed

lemma devices_ready_boot:
  fixes s t :: "'a kern_scheme"
  assumes dr: "devices_ready s t" and idt: "length (idt s) = 256" and sr: "shell_ready b L (mounted s)"
  shows "shell_ready b L t" and "kernel_mapped t" and "length (page_directory t) = 1024" and "sym t = sym s" and "length (idt t) = 256"
    and "n \<le> L \<Longrightarrow> map (file_byte t b) [m..<n] = map (file_byte (mounted s) b) [m..<n]"
proof -
  obtain u :: "'a kern_scheme" where u: "tables_ok u" "tables t = tables (paging_setup u)" using dr unfolding devices_ready_def by blast
  have eq: "core t = core (mounted s)" "fs_part t = fs_part (mounted s)" using dr by (simp_all add: devices_ready_def)
  show "shell_ready b L t" using shell_ready_core [OF eq sr] .
  show "kernel_mapped t" using u(2) by (intro kernel_mapped_cong [OF _ _ _ _ kernel_mapped_setup [OF u(1)]]) (simp_all add: tables_def)
  show "length (page_directory t) = 1024" using u paging_setup_tables(1) [OF u(1)] by (simp add: tables_def)
  show "sym t = sym s" "length (idt t) = 256" using eq(1) idt by (simp_all add: core_def mounted_def Let_def)
  obtain j where pf: "program_file (mounted s) (de_inode (direntries (boot_block (mounted s)) j)) b L"
    using sr unfolding shell_ready_def by blast
  show "n \<le> L \<Longrightarrow> map (file_byte t b) [m..<n] = map (file_byte (mounted s) b) [m..<n]"
    using program_file_core(2) [OF eq pf] by (intro map_cong) auto
qed

text \<open>The boot ends in the first shell; \<open>v\<close> is the state it is executed in.\<close>

lemma init_all_starts_shell:
  fixes s :: "'a kern_scheme"
  assumes tab: "tables_ok s" and idt: "length (idt s) = 256" and sy: "sym s Sym_rtc_wrapper \<noteq> 0" "sym s Sym_kbd_wrapper \<noteq> 0"
    and fs: "in_kernel_page (fs_start s) 4096" and sr: "shell_ready b L (mounted s)"
  shows "\<exists>t v s'. init_all s = Inr (Left (ToUser (le32 (map (file_byte (mounted s) b) [24..<28])) 0x83FFFFC), s') \<and>
    devices_ready s t \<and> before_shell t v \<and> first_shell b L t s' \<and> (\<exists>pc sp. execute (lit ''shell'') v = Inr (ToUser pc sp, s')) \<and>
    rd (mem s') (image_base 0) L = map (file_byte (mounted s) b) [0..<L]"
proof -
  obtain t where t: "devices_ready s t" "\<forall>pc sp s'. kbd_init 1 t = Inr (ToUser pc sp, s') \<longrightarrow> init_all s = Inr (Left (ToUser pc sp), s')"
    using init_all_devices [OF tab idt sy(1) fs] by blast
  note T = devices_ready_boot [OF t(1) idt sr]
  obtain v where v: "before_shell t v" "\<forall>pc sp s'. execute (lit ''shell'') v = Inr (ToUser pc sp, s') \<longrightarrow> kbd_init 1 t = Inr (ToUser pc sp, s')"
    using kbd_init_prepares [OF T(1) _ T(5)] sy(2) T(4) by auto
  obtain s' where s': "execute (lit ''shell'') v = Inr (ToUser (le32 (map (file_byte t b) [24..<28])) 0x83FFFFC, s')" "first_shell b L t s'"
    using execute_first_shell [OF v(1) T(2,3,1)] by blast
  have L: "28 \<le> L" using sr program_fileD(4) unfolding shell_ready_def by blast
  have "init_all s = Inr (Left (ToUser (le32 (map (file_byte t b) [24..<28])) 0x83FFFFC), s')" using s'(1) v(2) t(2) by blast
  moreover have "rd (mem s') (image_base 0) L = map (file_byte (mounted s) b) [0..<L]"
    using s'(2) T(6) [of L 0] by (simp add: first_shell_def)
  ultimately show ?thesis using t(1) v(1) s' T(6) [of 28 24] L by (auto simp del: upt_rec_numeral)
qed

section \<open>Descriptors decoded\<close>

text \<open>The base address and the limit the processor reads from a segment descriptor.\<close>

definition desc_base :: "seg_desc \<Rightarrow> u32" where
  "desc_base d = ucast (base_15_00 d) OR push_bit 16 (ucast (base_23_16 d)) OR push_bit 24 (ucast (base_31_24 d))"

definition desc_limit :: "seg_desc \<Rightarrow> u32" where
  "desc_limit d = ucast (seg_lim_15_00 d) OR push_bit 16 (ucast (seg_lim_19_16 d))"

lemma set_seg_params:
  shows "desc_base (SET_SEG_PARAMS addr lim d) = addr" and "desc_limit (SET_SEG_PARAMS addr lim d) = take_bit 20 lim"
proof -
  have m: "(0x0000FFFF :: u32) = mask 16" "(0x00FF0000 :: u32) = push_bit 16 (mask 8)" "(0xFF000000 :: u32) = push_bit 24 (mask 8)"
    "(0x000F0000 :: u32) = push_bit 16 (mask 4)"
    by (simp_all add: mask_eq_exp_minus_1)
  show "desc_base (SET_SEG_PARAMS addr lim d) = addr"
    unfolding desc_base_def SET_SEG_PARAMS_def Let_def m
  proof (rule bit_word_eqI, goal_cases)
    case (1 n)
    then consider "n < 16" | "16 \<le> n" "n < 24" | "24 \<le> n" "n < 32" by fastforce
    then show ?case by cases (auto simp: bit_simps)
  qed
  show "desc_limit (SET_SEG_PARAMS addr lim d) = take_bit 20 lim"
    unfolding desc_limit_def SET_SEG_PARAMS_def Let_def m by (rule bit_word_eqI) (auto simp: bit_simps)
qed

section \<open>Properties\<close>

text \<open>
  Property C39: the descriptors \<^verbatim>\<open>entry\<close> puts into the GDT describe the LDT and the TSS: the scattered base and limit fields recombine to
  their linked addresses and sizes (less one), both are present system descriptors of level 0 with byte granularity, of type 2 (LDT)
  and 9 (available TSS); the registers select them, and the TSS names the kernel data segment and the boot stack.
\<close>

theorem boot_descriptors:
  "let t = setup_tss (setup_ldt s) in
     desc_base (ldt_desc_ptr t) = sym s Sym_ldt \<and> desc_limit (ldt_desc_ptr t) = 31 \<and> sd_type (ldt_desc_ptr t) = 2 \<and>
     desc_base (tss_desc_ptr t) = sym s Sym_tss \<and> desc_limit (tss_desc_ptr t) = 103 \<and> sd_type (tss_desc_ptr t) = 9 \<and>
     map (\<lambda>d. (sd_present d, sd_sys d, sd_dpl d, sd_granularity d)) [ldt_desc_ptr t, tss_desc_ptr t] = replicate 2 (1, 0, 0, 0) \<and>
     ldtr t = 0x38 \<and> tr t = 0x30 \<and> tss_ldt_selector t = 0x38 \<and> tss_ss0 t = 0x18 \<and> tss_esp0 t = 0x800000"
proof -
  have l: "take_bit 20 (31 :: u32) = 31" "take_bit 20 (103 :: u32) = 103" by simp_all
  define d1 where "d1 = (ldt_desc_ptr s)\<lparr>sd_granularity := 0, sd_opsize := 1, sd_reserved := 0, sd_avail := 0,
            sd_present := 1, sd_dpl := 0, sd_sys := 0, sd_type := 2\<rparr>"
  define d2 where "d2 = (tss_desc_ptr s)\<lparr>sd_granularity := 0, sd_opsize := 0, sd_reserved := 0, sd_avail := 0,
            seg_lim_19_16 := ucast (104 AND 0x000F0000 :: u32), sd_present := 1, sd_dpl := 0, sd_sys := 0, sd_type := 9,
            seg_lim_15_00 := ucast (104 AND 0x0000FFFF :: u32)\<rparr>"
  have frame: "sd_type (SET_SEG_PARAMS a n d) = sd_type d" "sd_present (SET_SEG_PARAMS a n d) = sd_present d"
    "sd_sys (SET_SEG_PARAMS a n d) = sd_sys d" "sd_dpl (SET_SEG_PARAMS a n d) = sd_dpl d"
    "sd_granularity (SET_SEG_PARAMS a n d) = sd_granularity d" for a n d
    by (simp_all add: SET_SEG_PARAMS_def Let_def)
  have "ldt_desc_ptr (setup_tss (setup_ldt s)) = SET_SEG_PARAMS (sym s Sym_ldt) 31 d1"
    "tss_desc_ptr (setup_tss (setup_ldt s)) = SET_SEG_PARAMS (sym s Sym_tss) 103 d2"
    by (simp_all add: setup_tss_def setup_ldt_def Let_def SET_LDT_PARAMS_def SET_TSS_PARAMS_def ldt_size_def tss_size_def d1_def d2_def)
  moreover have "sd_type d1 = 2" "sd_present d1 = 1" "sd_sys d1 = 0" "sd_dpl d1 = 0" "sd_granularity d1 = 0"
    "sd_type d2 = 9" "sd_present d2 = 1" "sd_sys d2 = 0" "sd_dpl d2 = 0" "sd_granularity d2 = 0"
    by (simp_all add: d1_def d2_def)
  moreover have "ldtr (setup_tss (setup_ldt s)) = 0x38" "tr (setup_tss (setup_ldt s)) = 0x30"
    "tss_ldt_selector (setup_tss (setup_ldt s)) = 0x38" "tss_ss0 (setup_tss (setup_ldt s)) = 0x18"
    "tss_esp0 (setup_tss (setup_ldt s)) = 0x800000"
    by (simp_all add: setup_tss_def setup_ldt_def Let_def)
  ultimately show ?thesis by (simp add: Let_def set_seg_params frame l numeral_2_eq_2)
qed

end
