(* ===== verification/Boot.thy ===== *)
theory Boot
  imports Kernel
begin

text \<open>
  The whole boot, \<^verbatim>\<open>entry\<close> of \<^verbatim>\<open>kernel.c\<close>: for which boot information the report runs to its end (the loop over the memory
  map follows sizes found in memory), and that the boot then reaches the first shell.
\<close>

section \<open>Printing and the boot information\<close>

text \<open>A state reached by printing alone.\<close>

definition prints :: "'a kern_scheme \<Rightarrow> 'a kern_scheme \<Rightarrow> bool" where
  "prints s t \<longleftrightarrow> (\<exists>cs. t = fold putc cs s)"

lemma prints_refl [simp]: "prints s s"
  unfolding prints_def by (intro exI [of _ "[]"]) simp

lemma prints_trans: "prints s t \<Longrightarrow> prints t u \<Longrightarrow> prints s u"
  unfolding prints_def by (metis fold_append comp_apply)

lemma prints_inv: "prints s t \<Longrightarrow> screen_inv s \<Longrightarrow> screen_inv t"
  using kept_fold [of s] by (auto simp: prints_def)

lemma off_screen_part: "off_screen a n \<Longrightarrow> k + 4 \<le> n \<Longrightarrow> off_screen (a + of_nat k) 4"
  unfolding off_screen_def disjoint_ranges_def by (metis add.assoc of_nat_add less_le_trans add_less_cancel_left)

lemma off_screen_word: "same_outside_screen m m' \<Longrightarrow> off_screen a 4 \<Longrightarrow> ld32 m' a = ld32 m a"
  unfolding ld32_def by (intro arg_cong [where f = le32] rd_cong) (rule off_screen_byte)

lemma say_text:
  assumes "fmt_out strs (bytes fmt) args = Some out" and "texts_at strs s" and "0 \<notin> set (bytes fmt)" and "length fmt < 4294967296"
  shows "say fmt args s = Inr (fold putc out s)"
  using assms printf_fmt_out(1) [of strs "bytes fmt" 0 args out s "[]"]
  by (simp add: say_def printf_def lit_def bytes_def)

lemma say_completes:
  assumes "fmt_out (\<lambda>_. None) (bytes fmt) args = Some out" and "0 \<notin> set (bytes fmt)" and "length fmt < 4294967296"
  shows "\<exists>t. say fmt args s = Inr t \<and> prints s t"
  using say_text [OF assms(1) _ assms(2,3), of s] by (auto simp: prints_def)

text \<open>A null byte makes the bytes before the first one a string, which a conversion \<^verbatim>\<open>%s\<close> prints.\<close>

lemma terminated_text:
  assumes "n < 2147483648" and "off_screen a (Suc n)" and "mem s (a + of_nat n) = 0" and "screen_inv s"
  shows "\<exists>xs. texts_at [a \<mapsto> xs] s"
proof -
  define k where "k = (LEAST k. mem s (a + of_nat k) = 0)"
  have k: "mem s (a + of_nat k) = 0" "k \<le> n" using assms(3) unfolding k_def by (rule LeastI, rule Least_le)
  have nz: "mem s (a + of_nat i) \<noteq> 0" if "i < k" for i using not_less_Least [OF that [unfolded k_def]] .
  have "off_screen a (Suc k)" using assms(2) k(2) by (auto simp: off_screen_def disjoint_ranges_def)
  then have "texts_at [a \<mapsto> rd (mem s) a k] s"
    using assms(1,4) k nz by (auto simp: texts_at_def rd_def nth_append in_set_conv_nth)
  then show ?thesis ..
qed

lemma say_cmdline_completes:
  assumes "n < 2147483648" and "off_screen a (Suc n)" and "mem s (a + of_nat n) = 0" and "screen_inv s"
  shows "\<exists>t. say (''cmdline = %s'' @ newline) [a] s = Inr t \<and> prints s t"
proof -
  obtain xs where "texts_at [a \<mapsto> xs] s" using terminated_text [OF assms] ..
  then have "say (''cmdline = %s'' @ newline) [a] s = Inr (fold putc (bytes ''cmdline = '' @ xs @ [10]) s)"
    by (intro say_text [of "[a \<mapsto> xs]"]) (simp_all add: bytes_def)
  then show ?thesis unfolding prints_def by blast
qed

section \<open>The report completes\<close>

text \<open>The memory map: from each structure the size leads to the next until the end is reached, within \<open>fuel\<close> rounds.\<close>

fun mmap_ends :: "mem \<Rightarrow> u32 \<Rightarrow> nat \<Rightarrow> u32 \<Rightarrow> bool" where
  "mmap_ends m ends 0 p = False"
| "mmap_ends m ends (Suc fuel) p = (p < ends \<longrightarrow> off_screen p 4 \<and> mmap_ends m ends fuel (p + ld32 m p + 4))"

text \<open>
  Boot information the report gets through: the structure and the first module structure are apart from the screen, there is a module
  list with a count below \<open>2 ^ 31\<close>, the bits 4 and 5 are not both set, a command line is terminated, and a memory map ends.
\<close>

definition boot_info_ok :: "nat \<Rightarrow> u32 \<Rightarrow> 'a kern_scheme \<Rightarrow> bool" where
  "boot_info_ok fuel mbi s \<longleftrightarrow>
     off_screen mbi 52 \<and> off_screen (word_at mbi 24 s) 4 \<and> CHECK_FLAG (word_at mbi 0 s) 3 \<and> unat (word_at mbi 20 s) < 2147483648 \<and>
     \<not> (CHECK_FLAG (word_at mbi 0 s) 4 \<and> CHECK_FLAG (word_at mbi 0 s) 5) \<and>
     (CHECK_FLAG (word_at mbi 0 s) 2 \<longrightarrow>
        (\<exists>n < 2147483648. off_screen (word_at mbi 16 s) (Suc n) \<and> mem s (word_at mbi 16 s + of_nat n) = 0)) \<and>
     (CHECK_FLAG (word_at mbi 0 s) 6 \<longrightarrow>
        mmap_ends (mem s) (word_at mbi 48 s + word_at mbi 44 s) fuel (word_at mbi 48 s))"

lemma prints_outside: "prints s t \<Longrightarrow> screen_inv s \<Longrightarrow> same_outside_screen (mem s) (mem t)"
  by (auto simp: prints_def fold_putc_outside)

lemma word_at_outside:
  assumes "same_outside_screen (mem s) (mem t)" and "off_screen mbi 52" and "k + 4 \<le> 52"
  shows "word_at mbi (of_nat k) t = word_at mbi (of_nat k) s"
  unfolding word_at_def using off_screen_word [OF assms(1) off_screen_part [OF assms(2,3)]] .

lemma words_outside:
  assumes "same_outside_screen (mem s) (mem t)" and "off_screen mbi 52"
  shows "word_at mbi 0 t = word_at mbi 0 s" "word_at mbi 16 t = word_at mbi 16 s" "word_at mbi 20 t = word_at mbi 20 s"
    "word_at mbi 24 t = word_at mbi 24 s" "word_at mbi 44 t = word_at mbi 44 s" "word_at mbi 48 t = word_at mbi 48 s"
  using word_at_outside [OF assms, of 0] word_at_outside [OF assms, of 16] word_at_outside [OF assms, of 20]
    word_at_outside [OF assms, of 24] word_at_outside [OF assms, of 44] word_at_outside [OF assms, of 48] by simp_all

lemma first_bytes_completes: "\<exists>t. first_bytes a is s = Inr t \<and> prints s t"
proof (induction "is" arbitrary: s)
  case (Cons i "is")
  obtain t where t: "say ''0x%x '' [scast (mem s (a + of_nat i))] s = Inr t" "prints s t"
    using say_completes [of "''0x%x ''" "[scast (mem s (a + of_nat i))]" _ s] by (auto simp: bytes_def)
  obtain u where "first_bytes a is t = Inr u" "prints t u" using Cons.IH by blast
  with t show ?case by (auto intro: prints_trans)
qed simp

lemma module_lines_complete:
  assumes "n < 2147483648"
  shows "\<exists>t. say (''Module %d loaded at address: 0x%#x'' @ newline) [of_nat n, v] s = Inr t \<and> prints s t"
    and "\<exists>t. say (''Module %d ends at address: 0x%#x'' @ newline) [of_nat n, v] s = Inr t \<and> prints s t"
    and "\<exists>t. say (''First few bytes of module:'' @ newline) [] s = Inr t \<and> prints s t"
    and "\<exists>t. say newline [] s = Inr t \<and> prints s t"
proof -
  have "(of_nat n :: u32) \<noteq> 0x80000000"
  proof
    assume "(of_nat n :: u32) = 0x80000000"
    then have "unat (of_nat n :: u32) = unat (0x80000000 :: u32)" by simp
    with assms show False by (simp add: unat_of_nat take_bit_nat_eq_self_iff)
  qed
  then show "\<exists>t. say (''Module %d loaded at address: 0x%#x'' @ newline) [of_nat n, v] s = Inr t \<and> prints s t"
    "\<exists>t. say (''Module %d ends at address: 0x%#x'' @ newline) [of_nat n, v] s = Inr t \<and> prints s t"
    "\<exists>t. say (''First few bytes of module:'' @ newline) [] s = Inr t \<and> prints s t"
    "\<exists>t. say newline [] s = Inr t \<and> prints s t"
    by (intro say_completes, simp_all add: bytes_def)+
qed

lemma modules_loop_completes:
  "screen_inv s \<Longrightarrow> off_screen mbi 52 \<Longrightarrow> unat (word_at mbi 20 s) < 2147483648 \<Longrightarrow>
     \<exists>t. modules_loop mbi n m s = Inr t \<and> prints s t"
proof (induction mbi n m s rule: modules_loop.induct)
  case (1 mbi n m s)
  show ?case
  proof (cases "n < unat (word_at mbi 20 s)")
    case False
    then show ?thesis by (simp add: modules_loop.simps)
  next
    case True
    then have n: "n < 2147483648" "\<not> 2147483647 \<le> n" using "1.prems"(3) by linarith+
    obtain s1 where s1: "say (''Module %d loaded at address: 0x%#x'' @ newline) [of_nat n, word_at m 0 s] s = Inr s1" "prints s s1"
      using module_lines_complete(1) [OF n(1)] by blast
    obtain s2 where s2: "say (''Module %d ends at address: 0x%#x'' @ newline) [of_nat n, word_at m 4 s1] s1 = Inr s2" "prints s1 s2"
      using module_lines_complete(2) [OF n(1)] by blast
    obtain s3 where s3: "say (''First few bytes of module:'' @ newline) [] s2 = Inr s3" "prints s2 s3"
      using module_lines_complete(3) [OF n(1)] by blast
    obtain s4 where s4: "first_bytes (word_at m 0 s3) [0..<16] s3 = Inr s4" "prints s3 s4" using first_bytes_completes by blast
    obtain s5 where s5: "say newline [] s4 = Inr s5" "prints s4 s5" using module_lines_complete(4) [OF n(1)] by blast
    have p: "prints s s5" using s1(2) s2(2) s3(2) s4(2) s5(2) by (blast intro: prints_trans)
    have inv: "screen_inv s5" "word_at mbi 20 s5 = word_at mbi 20 s"
      using prints_inv [OF p "1.prems"(1)] words_outside(3) [OF prints_outside [OF p "1.prems"(1)] "1.prems"(2)] by simp_all
    then obtain t where t: "modules_loop mbi (Suc n) (m + 16) s5 = Inr t" "prints s5 t"
      using "1.IH" [OF True s1(1) s2(1) s3(1) s4(1) s5(1) n(2)] "1.prems" by auto
    have "modules_loop mbi n m s = Inr t"
      using True n(2) s1(1) s2(1) s3(1) s4(1) s5(1) t(1) by (subst modules_loop.simps) (simp del: upt_rec_numeral)
    then show ?thesis using prints_trans [OF p t(2)] by blast
  qed
qed

lemma mmap_loop_completes:
  "screen_inv s \<Longrightarrow> off_screen mbi 52 \<Longrightarrow> same_outside_screen m0 (mem s) \<Longrightarrow>
     mmap_ends m0 (word_at mbi 48 s + word_at mbi 44 s) fuel p \<Longrightarrow> \<exists>t. mmap_loop fuel mbi p s = Inr t \<and> prints s t"
proof (induction fuel arbitrary: p s)
  case (Suc fuel)
  show ?case
  proof (cases "p < word_at mbi 48 s + word_at mbi 44 s")
    case False
    then show ?thesis by simp
  next
    case True
    obtain u where u: "say (''    size = 0x%x, base_addr = 0x%#x%#x'' @ newline @ ''    type = 0x%x,  length    = 0x%#x%#x'' @ newline)
           [word_at p 0 s, word_at p 8 s, word_at p 4 s, word_at p 20 s, word_at p 16 s, word_at p 12 s] s = Inr u" "prints s u"
      using say_completes [of "''    size = 0x%x, base_addr = 0x%#x%#x'' @ newline @ ''    type = 0x%x,  length    = 0x%#x%#x'' @ newline"
          "[word_at p 0 s, word_at p 8 s, word_at p 4 s, word_at p 20 s, word_at p 16 s, word_at p 12 s]" _ s]
      by (auto simp: bytes_def)
    have o: "same_outside_screen (mem s) (mem u)" using prints_outside [OF u(2) Suc.prems(1)] .
    have m0: "same_outside_screen m0 (mem u)" using Suc.prems(3) o by (rule same_outside_trans)
    have "off_screen p 4" "mmap_ends m0 (word_at mbi 48 s + word_at mbi 44 s) fuel (p + ld32 m0 p + 4)"
      using Suc.prems(4) True by simp_all
    then have "mmap_ends m0 (word_at mbi 48 u + word_at mbi 44 u) fuel (p + word_at p 0 u + 4)"
      using words_outside(5,6) [OF o Suc.prems(2)] off_screen_word [OF m0, of p] by (simp add: word_at_def)
    then obtain t where "mmap_loop fuel mbi (p + word_at p 0 u + 4) u = Inr t" "prints u t"
      using Suc.IH [OF prints_inv [OF u(2) Suc.prems(1)] Suc.prems(2) m0] by blast
    then show ?thesis using True u prints_trans by fastforce
  qed
qed simp

lemma part_completes:
  assumes "\<And>s. \<exists>t. say fmt (args s) s = Inr t \<and> prints s t"
  shows "\<exists>t. (if c then say fmt (args s) s else Inr s) = Inr t \<and> prints s t"
  using assms [of s] by (auto intro: prints_refl)

lemma report_lines_complete:
  "\<exists>t. say (''flags = 0x%#x'' @ newline) [v] s = Inr t \<and> prints s t"
  "\<exists>t. say (''mem_lower = %uKB, mem_upper = %uKB'' @ newline) [v, w] s = Inr t \<and> prints s t"
  "\<exists>t. say (''boot_device = 0x%#x'' @ newline) [v] s = Inr t \<and> prints s t"
  "\<exists>t. say (''elf_sec: num = %u, size = 0x%#x, addr = 0x%#x, shndx = 0x%#x'' @ newline) [v, w, x, y] s = Inr t \<and> prints s t"
  "\<exists>t. say (''mmap_addr = 0x%#x, mmap_length = 0x%x'' @ newline) [v, w] s = Inr t \<and> prints s t"
  by (intro say_completes, simp_all add: bytes_def)+

text \<open>The start of the first module, which the boot loader has put the file system image into.\<close>

definition module_start :: "u32 \<Rightarrow> 'a kern_scheme \<Rightarrow> u32" where
  "module_start mbi s = word_at (word_at mbi 24 s) 0 s"

lemma boot_info_outside:
  assumes "same_outside_screen (mem s) (mem t)" and "boot_info_ok fuel mbi s"
  shows "boot_info_ok fuel mbi t \<and> module_start mbi t = module_start mbi s"
proof -
  have off: "off_screen mbi 52" "off_screen (word_at mbi 24 s) 4" using assms(2) by (simp_all add: boot_info_ok_def)
  note w = words_outside [OF assms(1) off(1)]
  have ends: "mmap_ends (mem s) top fuel p \<Longrightarrow> mmap_ends (mem t) top fuel p" for top p
    by (induction fuel arbitrary: p) (auto simp: off_screen_word [OF assms(1)])
  have "mem t (a + of_nat n) = mem s (a + of_nat n)" if "off_screen a (Suc n)" for a n
    using off_screen_byte [OF assms(1) that] by simp
  then have "boot_info_ok fuel mbi t" using assms(2) ends unfolding boot_info_ok_def w by metis
  moreover have "module_start mbi t = module_start mbi s"
    unfolding module_start_def w using off_screen_word [OF assms(1) off(2)] by (simp add: word_at_def)
  ultimately show ?thesis by blast
qed

lemmas boot_info_prints = boot_info_outside [OF prints_outside]

lemma boot_info_clear:
  assumes "boot_info_ok fuel mbi s"
  shows "boot_info_ok fuel mbi (clear s) \<and> module_start mbi (clear s) = module_start mbi s"
  using boot_info_outside [OF _ assms, of "clear s"] clear_loop_outside [of 2000 "mem s"] by (simp add: clear_def)

text \<open>The report from the module list on, and from the memory map on.\<close>

lemma report_modules:
  assumes "boot_info_ok fuel mbi s" and "screen_inv s"
  shows "\<exists>t. (if CHECK_FLAG (word_at mbi 0 s) 3
      then let s = s\<lparr>fs_start := word_at (word_at mbi 24 s) 0 s\<rparr> in modules_loop mbi 0 (word_at mbi 24 s) s else Inr s) = Inr t \<and>
    fs_start t = module_start mbi s \<and> screen_inv t \<and> boot_info_ok fuel mbi t"
proof -
  let ?t = "s\<lparr>fs_start := word_at (word_at mbi 24 s) 0 s\<rparr>"
  have w: "word_at a k ?t = word_at a k s" for a k by (simp add: word_at_def)
  have bi: "boot_info_ok fuel mbi ?t" using boot_info_outside [of s ?t, OF _ assms(1)] by simp
  have inv: "screen_inv ?t" using assms(2) by simp
  have off: "off_screen mbi 52" "unat (word_at mbi 20 ?t) < 2147483648" "CHECK_FLAG (word_at mbi 0 s) 3"
    using bi assms(1) by (simp_all add: boot_info_ok_def)
  obtain u where u: "modules_loop mbi 0 (word_at mbi 24 ?t) ?t = Inr u" "prints ?t u"
    using modules_loop_completes [OF inv off(1,2)] by blast
  have "fs_start u = fs_start ?t" "screen_inv u" using modules_loop_keeps [OF u(1) inv] by simp_all
  with u off(3) boot_info_prints [OF u(2) inv bi] show ?thesis by (simp add: module_start_def Let_def)
qed

lemma report_mmap:
  assumes "boot_info_ok fuel mbi s" and "screen_inv s"
  shows "\<exists>t. (if CHECK_FLAG (word_at mbi 0 s) 6
      then rbind (say (''mmap_addr = 0x%#x, mmap_length = 0x%x'' @ newline) [word_at mbi 48 s, word_at mbi 44 s] s)
             (\<lambda>s. mmap_loop fuel mbi (word_at mbi 48 s) s)
      else Inr s) = Inr t \<and> fs_start t = fs_start s"
proof (cases "CHECK_FLAG (word_at mbi 0 s) 6")
  case True
  obtain u where u: "say (''mmap_addr = 0x%#x, mmap_length = 0x%x'' @ newline) [word_at mbi 48 s, word_at mbi 44 s] s = Inr u" "prints s u"
    using report_lines_complete(5) by blast
  have bi: "boot_info_ok fuel mbi u" using boot_info_prints [OF u(2) assms(2,1)] by blast
  have inv: "screen_inv u" using prints_inv [OF u(2) assms(2)] .
  have f: "CHECK_FLAG (word_at mbi 0 u) 6"
    using True words_outside(1) [OF prints_outside [OF u(2) assms(2)]] assms(1) by (simp add: boot_info_ok_def)
  have off: "off_screen mbi 52" using bi by (simp add: boot_info_ok_def)
  obtain t where t: "mmap_loop fuel mbi (word_at mbi 48 u) u = Inr t"
    using mmap_loop_completes [OF inv off same_outside_refl] bi f by (auto simp: boot_info_ok_def)
  then have "fs_start t = fs_start s" using mmap_loop_keeps [OF t inv] say_keeps [OF u(1) assms(2)] by simp
  then show ?thesis using True u(1) t by simp
qed simp

lemma report_cmdline:
  assumes "boot_info_ok fuel mbi s" and "screen_inv s"
  shows "\<exists>t. (if CHECK_FLAG (word_at mbi 0 s) 2 then say (''cmdline = %s'' @ newline) [word_at mbi 16 s] s else Inr s) = Inr t \<and> prints s t"
proof (cases "CHECK_FLAG (word_at mbi 0 s) 2")
  case True
  then obtain n where "n < 2147483648" "off_screen (word_at mbi 16 s) (Suc n)" "mem s (word_at mbi 16 s + of_nat n) = 0"
    using assms(1) unfolding boot_info_ok_def by blast
  from say_cmdline_completes [OF this assms(2)] True show ?thesis by simp
qed simp

lemma report_completes:
  assumes "boot_info_ok fuel mbi s" and "screen_inv s"
  shows "\<exists>t. report fuel mbi s = Inr (True, t) \<and> fs_start t = module_start mbi s"
proof -
  have step: "screen_inv t \<and> boot_info_ok fuel mbi t \<and> module_start mbi t = module_start mbi s"
    if "prints u t" "screen_inv u \<and> boot_info_ok fuel mbi u \<and> module_start mbi u = module_start mbi s" for t u
    using that prints_inv boot_info_prints by metis
  obtain s1 where s1: "say (''flags = 0x%#x'' @ newline) [word_at mbi 0 s] s = Inr s1" "prints s s1"
    using report_lines_complete(1) by blast
  obtain s2 where s2: "(if CHECK_FLAG (word_at mbi 0 s1) 0
      then say (''mem_lower = %uKB, mem_upper = %uKB'' @ newline) [word_at mbi 4 s1, word_at mbi 8 s1] s1 else Inr s1) = Inr s2" "prints s1 s2"
    using part_completes [of _ "\<lambda>s. [word_at mbi 4 s, word_at mbi 8 s]", OF report_lines_complete(2)] by blast
  obtain s3 where s3: "(if CHECK_FLAG (word_at mbi 0 s2) 1
      then say (''boot_device = 0x%#x'' @ newline) [word_at mbi 12 s2] s2 else Inr s2) = Inr s3" "prints s2 s3"
    using part_completes [of _ "\<lambda>s. [word_at mbi 12 s]", OF report_lines_complete(3)] by blast
  have i3: "screen_inv s3 \<and> boot_info_ok fuel mbi s3 \<and> module_start mbi s3 = module_start mbi s"
    using assms by (intro step [OF s3(2)] step [OF s2(2)] step [OF s1(2)]) simp
  then obtain s4 where s4: "(if CHECK_FLAG (word_at mbi 0 s3) 2
      then say (''cmdline = %s'' @ newline) [word_at mbi 16 s3] s3 else Inr s3) = Inr s4" "prints s3 s4"
    using report_cmdline by blast
  have i4: "screen_inv s4 \<and> boot_info_ok fuel mbi s4 \<and> module_start mbi s4 = module_start mbi s" using step [OF s4(2) i3] .
  then obtain s5 where s5: "(if CHECK_FLAG (word_at mbi 0 s4) 3
      then let s = s4\<lparr>fs_start := word_at (word_at mbi 24 s4) 0 s4\<rparr> in modules_loop mbi 0 (word_at mbi 24 s) s else Inr s4) = Inr s5"
    "fs_start s5 = module_start mbi s4" "screen_inv s5" "boot_info_ok fuel mbi s5"
    using report_modules by blast
  then have n45: "\<not> (CHECK_FLAG (word_at mbi 0 s5) 4 \<and> CHECK_FLAG (word_at mbi 0 s5) 5)" unfolding boot_info_ok_def by blast
  obtain s6 where s6: "(if CHECK_FLAG (word_at mbi 0 s5) 5
      then say (''elf_sec: num = %u, size = 0x%#x, addr = 0x%#x, shndx = 0x%#x'' @ newline)
             [word_at mbi 28 s5, word_at mbi 32 s5, word_at mbi 36 s5, word_at mbi 40 s5] s5 else Inr s5) = Inr s6" "prints s5 s6"
    using part_completes [of _ "\<lambda>s. [word_at mbi 28 s, word_at mbi 32 s, word_at mbi 36 s, word_at mbi 40 s]", OF report_lines_complete(4)]
    by blast
  have i6: "fs_start s6 = fs_start s5" "screen_inv s6" "boot_info_ok fuel mbi s6"
    using part_keeps [OF s6(1) s5(3)] boot_info_prints [OF s6(2) s5(3,4)] by blast+
  then obtain t where t: "(if CHECK_FLAG (word_at mbi 0 s6) 6
      then rbind (say (''mmap_addr = 0x%#x, mmap_length = 0x%x'' @ newline) [word_at mbi 48 s6, word_at mbi 44 s6] s6)
             (\<lambda>s. mmap_loop fuel mbi (word_at mbi 48 s) s)
      else Inr s6) = Inr t" "fs_start t = fs_start s6" using report_mmap by blast
  have "report fuel mbi s = Inr (True, t)"
    unfolding report_def s1(1) rbind_Inr s2(1) s3(1) s4(1) s5(1) if_not_P [OF n45] s6(1) t(1) ..
  then show ?thesis using t(2) i6(1) s5(2) i4 by simp
qed

section \<open>A boot\<close>

text \<open>
  A machine as the boot loader leaves it: the image of the file system at 5 MB, its shell a program file of 100 bytes, and
  at 7 MB the boot information with a command line, one module and a memory map of one entry.
\<close>

definition boot_mem :: mem where
  "boot_mem = (wr exec_mem 0x500000 image_boot_block)
     (0x700000 := 0x4C, 0x700011 := 1, 0x700012 := 0x70, 0x700014 := 1, 0x700019 := 2, 0x70001A := 0x70,
      0x70002C := 24, 0x700031 := 3, 0x700032 := 0x70, 0x700202 := 0x50, 0x700300 := 20)"

definition blank_desc :: seg_desc where
  "blank_desc = \<lparr>seg_lim_15_00 = 0, base_15_00 = 0, base_23_16 = 0, sd_type = 0, sd_sys = 0, sd_dpl = 0, sd_present = 0,
     seg_lim_19_16 = 0, sd_avail = 0, sd_reserved = 0, sd_opsize = 0, sd_granularity = 0, base_31_24 = 0\<rparr>"

definition blank_gate :: idt_desc_t where
  "blank_gate = \<lparr>offset_15_00 = 0, seg_selector = 0, reserved4 = 0, reserved3 = 0, reserved2 = 0, reserved1 = 0,
     size_bit = 0, reserved0 = 0, dpl = 0, present = 0, offset_31_16 = 0\<rparr>"

definition boot_state :: kern where
  "boot_state = (proc.extend (reset_proc boot_mem reset_pcb)
     \<lparr>pit_counter = 0, curr_exec_term = 0, next_exec_term = 0, ldt_desc_ptr = blank_desc, tss_desc_ptr = blank_desc,
      ldtr = 0, tr = 0, tss_ldt_selector = 0, fs_start = 0\<rparr>)
     \<lparr>active_proc := -1, process_counter := 0, iflag := False, esp := 0x7FFFF4, idt := replicate 256 blank_gate\<rparr>"

lemma boot_state_fields:
  "mem boot_state = boot_mem" "active_proc boot_state = -1" "esp boot_state = 0x7FFFF4" "probe_off boot_state = -64"
  "term_flag boot_state = 0" "term_arr boot_state = replicate 3 reset_term" "pcbs boot_state = (\<lambda>_. reset_pcb)"
  "length (idt boot_state) = 256" "screen_x boot_state = 0" "screen_y boot_state = 0"
  by (simp_all add: boot_state_def proc.defs reset_proc_def kbd.defs reset_kbd_def fs.defs reset_fs_def)

lemma boot_state_tables: "tables_ok boot_state" "sym boot_state Sym_rtc_wrapper \<noteq> 0" "sym boot_state Sym_kbd_wrapper \<noteq> 0"
  by (simp_all add: tables_ok_def linked_def boot_state_def proc.defs reset_proc_def kbd.defs reset_kbd_def fs.defs reset_fs_def)

lemma boot_mem_image: "rd boot_mem 0x500000 4096 = image_boot_block"
proof -
  have "rd boot_mem 0x500000 4096 = rd (wr exec_mem 0x500000 image_boot_block) 0x500000 4096"
  proof (rule rd_cong)
    fix i :: nat
    assume "i < 4096"
    then have "unat (of_nat i :: u32) < 4096" by simp
    then have "(of_nat i :: u32) \<noteq> c" if "4096 \<le> unat c" for c using that by auto
    then show "boot_mem (0x500000 + of_nat i) = wr exec_mem 0x500000 image_boot_block (0x500000 + of_nat i)"
      by (simp add: boot_mem_def)
  qed
  then show ?thesis using rd_wr_same [of image_boot_block exec_mem "0x500000"] by simp
qed

lemma boot_info: "boot_info_ok 2 0x700000 boot_state" "module_start 0x700000 boot_state = 0x500000"
proof -
  have w: "word_at 0x700000 0 boot_state = 0x4C" "word_at 0x700000 16 boot_state = 0x700100" "word_at 0x700000 20 boot_state = 1"
    "word_at 0x700000 24 boot_state = 0x700200" "word_at 0x700000 44 boot_state = 24" "word_at 0x700000 48 boot_state = 0x700300"
    by (simp_all add: word_at_def boot_state_fields ld32_def le32_def boot_mem_def wr_def exec_mem_def small_mem_def image_mem_def)
  have l: "ld32 boot_mem 0x700300 = 20" "boot_mem 0x700100 = 0" "ld32 boot_mem 0x700200 = 0x500000"
    by (simp_all add: ld32_def le32_def boot_mem_def wr_def exec_mem_def small_mem_def image_mem_def)
  have off: "off_screen 0x700000 52" "off_screen 0x700200 4" "off_screen 0x700300 4" "off_screen 0x700100 (Suc 0)"
    unfolding off_screen_def by (rule disjoint_ranges_apart; simp)+
  have "\<exists>n < 2147483648. off_screen 0x700100 (Suc n) \<and> boot_mem (0x700100 + of_nat n) = 0"
    using off(4) l(2) by (intro exI [of _ 0]) simp
  then show "boot_info_ok 2 0x700000 boot_state"
    unfolding boot_info_ok_def w using off l by (simp add: CHECK_FLAG_def boot_state_fields numeral_2_eq_2)
  show "module_start 0x700000 boot_state = 0x500000"
    unfolding module_start_def w using l(3) by (simp add: word_at_def boot_state_fields)
qed

definition boot_inode :: "u8 list" where
  "boot_inode = rd boot_mem 0x501000 4096"

lemma boot_inode_fields: "ino_length boot_inode = 100" "ino_block boot_inode 0 = 0"
  by (simp_all add: ino_length_def ino_block_def boot_inode_def take_rd drop_rd le32_def boot_mem_def wr_def
      exec_mem_def small_mem_def image_mem_def)

lemma boot_shell_ready: "shell_ready boot_inode 100 (mounted (boot_state\<lparr>fs_start := 0x500000\<rparr>))"
proof -
  define m where "m = mounted (boot_state\<lparr>fs_start := 0x500000\<rparr>)"
  have f: "mem m = boot_mem" "boot_block m = image_boot_block" "inode_addr m = 0x501000" "data_block_addr m = 0x502000"
    "active_proc m = -1" "esp m = 0x7FFFF4" "probe_off m = -64" "term_flag m = 0" "term_arr m = replicate 3 reset_term"
    "pcbs m = (\<lambda>_. reset_pcb)"
    using boot_mem_image
    by (simp_all add: m_def mounted_def Let_def boot_state_fields)
      (simp_all add: bb_inode_count_def image_boot_block_def le32_def)
  have b: "block_addr m boot_inode 0 = 0x502000" by (simp add: block_addr_def f boot_inode_fields)
  have "map (file_byte m boot_inode) [0..<4] = [0x7f, 0x45, 0x4c, 0x46]"
    using b by (simp add: file_byte_def f boot_mem_def wr_def exec_mem_def upt_rec)
  moreover have "disjoint_ranges 0x501000 4096 0x7FFFB4 4" "disjoint_ranges 0x502000 4096 0x7FFFB4 4"
    "disjoint_ranges 0x502000 4096 0x448000 100"
    by (rule disjoint_ranges_apart; simp)+
  moreover have "0 \<le> sint (ino_block boot_inode 0) \<and> sint (ino_block boot_inode 0) < sint (bb_data_count image_boot_block)"
    by (simp add: boot_inode_fields)
  ultimately have pf: "program_file m 0 boot_inode 100"
    unfolding program_file_def
    by (simp only: f boot_inode_def [symmetric] boot_inode_fields)
      (auto simp: in_kernel_page_def image_base_def b boot_inode_def [symmetric] boot_inode_fields)
  have "find (\<lambda>i. entry_name image_boot_block i = bytes ''shell'') [0..<63] = Some 0" "de_inode (direntries image_boot_block 0) = 0"
    using shell_entry by (simp_all add: bytes_def)
  then have "shell_ready boot_inode 100 m"
    unfolding shell_ready_def using pf by (intro conjI exI [of _ 0]) (simp_all add: f reset_pcb_def)
  then show ?thesis by (simp add: m_def)
qed

text \<open>The boot as a whole: from the state the loader leaves to the first shell.\<close>

definition bootable :: "nat \<Rightarrow> u32 \<Rightarrow> u8 list \<Rightarrow> nat \<Rightarrow> 'a kern_scheme \<Rightarrow> bool" where
  "bootable fuel addr b L s \<longleftrightarrow> boot_info_ok fuel addr s \<and> screen_inv s \<and> tables_ok s \<and> length (idt s) = 256 \<and>
     sym s Sym_rtc_wrapper \<noteq> 0 \<and> sym s Sym_kbd_wrapper \<noteq> 0 \<and> in_kernel_page (module_start addr s) 4096 \<and>
     shell_ready b L (mounted (s\<lparr>fs_start := module_start addr s\<rparr>))"

lemma entry_first_shell:
  fixes s :: "'a kern_scheme"
  assumes "bootable fuel addr b L s" and m: "m = mounted (s\<lparr>fs_start := module_start addr s\<rparr>)"
  shows "\<exists>s1 t v s'. entry fuel 0x2BADB002 addr s = Inr (Left (ToUser (le32 (map (file_byte m b) [24..<28])) 0x83FFFFC), s') \<and>
    core (mounted s1) = core m \<and> devices_ready s1 t \<and> before_shell t v \<and> first_shell b L t s' \<and>
    (\<exists>pc sp. execute (lit ''shell'') v = Inr (ToUser pc sp, s')) \<and> rd (mem s') (image_base 0) L = map (file_byte m b) [0..<L]"
proof -
  note A = assms(1) [unfolded bootable_def, folded m]
  obtain s1 where r: "report fuel addr (clear s) = Inr (True, s1)" and start: "fs_start s1 = module_start addr s"
    using report_completes boot_info_clear A kept_clear(3) [of s] by metis
  have k: "kept (clear s) s1" "screen_inv s1" using report_keeps [OF r] A kept_clear(3) [of s] by auto
  then have ks: "kept s s1" using kept_clear(1) [of s] by (blast intro: kept_trans)
  let ?t = "s\<lparr>fs_start := fs_start s1\<rparr>"
  have kt: "kept ?t s1" using ks by simp
  have fs: "in_kernel_page (fs_start s1) 4096" using A start by simp
  have eq: "core (mounted s1) = core m" "fs_part (mounted s1) = fs_part m"
  proof -
    have c: "core (mounted u) = core u" for u :: "'a kern_scheme" by (rule coreI) (simp_all add: mounted_def Let_def)
    show "core (mounted s1) = core m" using kt by (simp add: m c kept_def start)
    have "rd (mem s1) (fs_start s1) 4096 = rd (mem ?t) (fs_start s1) 4096"
      using kmem_mem [OF _ fs, of s1 ?t] kt by (intro rd_cong) (simp add: kept_def core_def)
    then show "fs_part (mounted s1) = fs_part m" by (simp add: fs_part_def m mounted_def Let_def start)
  qed
  have sr: "shell_ready b L (mounted s1)" using shell_ready_core [OF eq] A by blast
  obtain j where pf: "program_file m (de_inode (direntries (boot_block m) j)) b L"
    using A unfolding shell_ready_def by blast
  have fb: "map (file_byte (mounted s1) b) [x..<n] = map (file_byte m b) [x..<n]" if "n \<le> L" for x n
    using program_file_core(2) [OF eq pf] that by (intro map_cong) auto
  have s1: "tables_ok s1" "length (idt s1) = 256" "sym s1 = sym s"
    using ks A by (simp_all add: kept_def tables_ok_def tables_def core_def)
  have sy: "sym s1 Sym_rtc_wrapper \<noteq> 0" "sym s1 Sym_kbd_wrapper \<noteq> 0" using A s1(3) by simp_all
  have "entry fuel 0x2BADB002 addr s = init_all s1" using r by (simp add: entry_def Let_def)
  with init_all_starts_shell [OF s1(1,2) sy fs sr] eq(1) fb [of 28 24] fb [of L 0] program_fileD(4) [OF pf]
  show ?thesis by (simp del: upt_rec_numeral) blast
qed

lemma boot_state_bootable: "bootable 2 0x700000 boot_inode 100 boot_state"
  unfolding bootable_def using boot_info boot_state_tables boot_shell_ready
  by (simp add: in_kernel_page_def screen_inv_def boot_state_fields)

section \<open>Properties\<close>

text \<open>
  Property C16: a boot ends in the first shell. With boot information the report gets through, from a machine with valid table addresses and handlers and a
  file system in the kernel's page whose \<^verbatim>\<open>shell\<close> is a program file, \<^verbatim>\<open>entry\<close> reaches user level at the entry point of
  that program, as process 0 on an otherwise unused terminal, with the timer, keyboard and clock lines delivered and interrupts
  on, the kernel mapped, the program's bytes in its frame and its process control block in order.
\<close>

theorem boot_starts_shell:
  fixes s :: "'a kern_scheme"
  assumes "bootable fuel addr b L s" and "m = mounted (s\<lparr>fs_start := module_start addr s\<rparr>)"
  shows "\<exists>s'. entry fuel 0x2BADB002 addr s = Inr (Left (ToUser (le32 (map (file_byte m b) [24..<28])) 0x83FFFFC), s') \<and>
    active_proc s' = 0 \<and> programs s' = 1 \<and> iflag s' \<and> irq_delivered s' 0 \<and> irq_delivered s' 1 \<and> irq_delivered s' 8 \<and>
    kernel_mapped s' \<and> tss_esp0 s' = kstack_top 0 \<and>
    rd (mem s') (image_base 0) L = map (file_byte m b) [0..<L] \<and> pcb_ok (pcbs s' (KSTACK_TO_PCB 0))"
  using entry_first_shell [OF assms] by (fastforce simp: first_shell_def devices_ready_def)

theorem boot_starts_shell_witness:
  "\<exists>pc s'. entry 2 0x2BADB002 0x700000 boot_state = Inr (Left (ToUser pc 0x83FFFFC), s') \<and> active_proc s' = 0 \<and> iflag s' \<and>
     irq_delivered s' 0 \<and> irq_delivered s' 1 \<and> irq_delivered s' 8"
  using boot_starts_shell [OF boot_state_bootable refl] by blast

text \<open>A wrong magic number ends the boot with a message; nothing but the screen changes.\<close>

lemma boot_refuses:
  assumes "magic \<noteq> 0x2BADB002" and "screen_inv s"
  shows "\<exists>s'. entry fuel magic addr s = Inr (Entry_returns, s') \<and> kept s s'"
proof -
  obtain t where t: "say (''Invalid magic number: 0x%#x'' @ newline) [magic] (clear s) = Inr t"
    using say_completes [of "''Invalid magic number: 0x%#x'' @ newline" "[magic]" _ "clear s"] by (auto simp: bytes_def)
  then have "kept (clear s) t" using say_keeps [OF t] assms(2) kept_clear(3) [of s] by simp
  then show ?thesis using t assms(1) kept_clear(1) [of s] by (auto simp: entry_def Let_def intro: kept_trans)
qed

lemma mmap_ends_advancing:
  assumes "\<forall>p. a \<le> p \<and> p < ends \<longrightarrow> off_screen p 4 \<and> unat p + unat (ld32 m p) + 4 < 4294967296"
  shows "unat ends \<le> unat p + 4 * k \<Longrightarrow> a \<le> p \<Longrightarrow> mmap_ends m ends (Suc k) p"
proof (induction k arbitrary: p)
  case 0
  then show ?case by (simp add: word_less_nat_alt)
next
  case (Suc k)
  show ?case
  proof (cases "p < ends")
    case True
    then have p: "off_screen p 4" "unat p + unat (ld32 m p) + 4 < 4294967296" using assms Suc.prems by simp_all
    let ?q = "p + ld32 m p + 4"
    have "unat (p + ld32 m p) = unat p + unat (ld32 m p)" using u32_less_add_eq [of p "unat (ld32 m p)"] p(2) by simp
    then have q: "unat ?q = unat p + unat (ld32 m p) + 4" using u32_less_add_eq [of "p + ld32 m p" 4] p(2) by simp
    then have "mmap_ends m ends (Suc k) ?q" using Suc.prems by (intro Suc.IH) (simp_all add: word_le_nat_alt)
    with p(1) show ?thesis by simp
  qed simp
qed


lemma boot_mem_zero:
  assumes "0x700303 \<le> unat x" and "unat x < 0x700320"
  shows "boot_mem x = 0"
proof -
  have ne: "x \<noteq> c" if "unat c < 0x700303 \<or> 0x700320 \<le> unat c" for c using that assms by auto
  have "\<not> in_range 0x500000 (length image_boot_block) x"
    using assms by (simp add: in_range_def unat_sub word_le_nat_alt)
  then have "boot_mem x = image_mem x"
    by (simp add: boot_mem_def ne wr_outside exec_mem_def small_mem_def)
  moreover have "\<not> x < 0x503000" "\<not> x < 0x504000" using assms by (simp_all add: word_less_nat_alt)
  ultimately show ?thesis by (simp add: image_mem_def ne)
qed

lemma le32_top_zero:
  assumes "bs ! 3 = 0"
  shows "unat (le32 bs) < 16777216"
proof -
  have "le32 bs = take_bit 24 (le32 bs)"
    using assms by (intro bit_word_eqI) (auto simp: le32_def bit_simps)
  moreover have "unat (take_bit 24 (le32 bs)) < 2 ^ 24" by (simp only: unsigned_take_bit_eq take_bit_nat_less_exp)
  ultimately show ?thesis by simp
qed


end
