(* ===== verification/Start.thy ===== *)
theory Start
  imports Boot
begin

text \<open>
  The assembly the loader jumps to: the segment descriptors of \<^verbatim>\<open>x86_desc.S\<close>, decoded by the fields of
  \<^verbatim>\<open>seg_desc_t\<close>, and \<^verbatim>\<open>_start\<close> of \<^verbatim>\<open>boot.S\<close>, which calls \<^verbatim>\<open>entry\<close>.
\<close>

section \<open>The GDT\<close>

definition gdt :: "64 word list" where
  "gdt = [0, 0, 0x00CF9A000000FFFF, 0x00CF92000000FFFF, 0x00CFFA000000FFFF, 0x00CFF2000000FFFF, 0, 0]"

text \<open>The two words of a descriptor as the fields of the union.\<close>

definition unpack_seg :: "64 word \<Rightarrow> seg_desc" where
  "unpack_seg v = \<lparr>seg_lim_15_00 = ucast v, base_15_00 = ucast (drop_bit 16 v), base_23_16 = ucast (drop_bit 32 v),
     sd_type = ucast (drop_bit 40 v), sd_sys = ucast (drop_bit 44 v), sd_dpl = ucast (drop_bit 45 v),
     sd_present = ucast (drop_bit 47 v), seg_lim_19_16 = ucast (drop_bit 48 v), sd_avail = ucast (drop_bit 52 v),
     sd_reserved = ucast (drop_bit 53 v), sd_opsize = ucast (drop_bit 54 v), sd_granularity = ucast (drop_bit 55 v),
     base_31_24 = ucast (drop_bit 56 v)\<rparr>"

text \<open>The descriptor a selector names in the GDT, and the privilege level it asks for.\<close>

definition gdt_entry :: "u16 \<Rightarrow> seg_desc" where
  "gdt_entry sel = unpack_seg (gdt ! unat (drop_bit 3 sel))"

definition selector_rpl :: "u16 \<Rightarrow> 2 word" where
  "selector_rpl sel = ucast sel"

text \<open>
  Code and data segments are present and flat (base 0, 4 GB in pages); the kernel's have level 0 and the user's level 3, which is the
  level their selectors ask for; code is executable and readable (type 10), data writable (type 2). The entries of the TSS
  and the LDT are empty until \<^verbatim>\<open>entry\<close> sets them.
\<close>

lemma gdt_segments:
  "map (\<lambda>sel. let d = gdt_entry sel in
     (desc_base d, desc_limit d, sd_granularity d, sd_present d, sd_sys d, sd_type d, sd_dpl d = selector_rpl sel, selector_rpl sel))
     [0x10, 0x18, 0x23, 0x2B] =
   [(0, 0xFFFFF, 1, 1, 1, 10, True, 0), (0, 0xFFFFF, 1, 1, 1, 2, True, 0), (0, 0xFFFFF, 1, 1, 1, 10, True, 3), (0, 0xFFFFF, 1, 1, 1, 2, True, 3)]"
  "gdt_entry KERNEL_TSS = unpack_seg 0" "gdt_entry KERNEL_LDT = unpack_seg 0"
  by (simp_all add: gdt_entry_def gdt_def unpack_seg_def selector_rpl_def desc_base_def desc_limit_def)

section \<open>The multiboot header\<close>

text \<open>The three words at the start of the image; a loader accepts the header when their sum is 0.\<close>

definition multiboot_header :: "u32 list" where
  "multiboot_header = (let MULTIBOOT_HEADER_MAGIC = 0x1BADB002; MULTIBOOT_HEADER_FLAGS = 0x00000003
     in [MULTIBOOT_HEADER_MAGIC, MULTIBOOT_HEADER_FLAGS, - (MULTIBOOT_HEADER_MAGIC + MULTIBOOT_HEADER_FLAGS)])"

lemma multiboot_header_accepted:
  "sum_list multiboot_header = 0" "map (bit (multiboot_header ! 1)) [0, 1, 16] = [True, True, False]"
  by (simp_all add: multiboot_header_def Let_def)

section \<open>The first instructions\<close>

text \<open>
  \<^verbatim>\<open>_start\<close>: interrupts off, the stack at the end of the kernel's page, the two arguments and the
  return address pushed, and the call of \<^verbatim>\<open>entry\<close>. When \<^verbatim>\<open>entry\<close> returns, the processor halts.
\<close>

definition start_kernel :: "nat \<Rightarrow> u32 \<Rightarrow> u32 \<Rightarrow> 'a kern_scheme \<Rightarrow> (boot_end \<times> 'a kern_scheme) res" where
  "start_kernel fuel eax ebx s = entry fuel eax ebx ((cli s)\<lparr>esp := 0x800000 - 12\<rparr>)"

lemma started_boot_state: "(cli boot_state)\<lparr>esp := 0x7FFFF4\<rparr> = boot_state"
  by (simp add: boot_state_def proc.defs cli_def reset_proc_def kbd.defs reset_kbd_def fs.defs reset_fs_def)

end
