(* ===== verification/Failures.thy ===== *)
theory Failures
  imports Syscalls
begin

text \<open>
  The failures of \<^verbatim>\<open>execute\<close> and \<^verbatim>\<open>halt\<close> that come too late: \<^verbatim>\<open>execute\<close> finds a bad block in the program file when it has
  counted the new program and mapped its window, and \<^verbatim>\<open>halt\<close> cannot start a new shell when it has counted the old one down.
\<close>

section \<open>A program file with a bad block\<close>

text \<open>
  Like \<open>program_file\<close>, but only the blocks before block \<open>j\<close> are sound; the number of block \<open>j\<close>, which the file needs or the loop looks at,
  is no block of the image.
\<close>

definition spoiled_file :: "'a proc_scheme \<Rightarrow> u32 \<Rightarrow> u8 list \<Rightarrow> nat \<Rightarrow> bool" where
  "spoiled_file s ino b j \<longleftrightarrow>
     in_kernel_page (inode_addr s + ino * 4096) 4096 \<and> b = rd (mem s) (inode_addr s + ino * 4096) 4096 \<and>
     1 \<le> j \<and> 4096 * j \<le> 0x3B8000 \<and> 4096 * j \<le> unat (ino_length b) \<and>
     map (file_byte s b) [0..<4] = [0x7f, 0x45, 0x4c, 0x46] \<and>
     in_kernel_page (esp s + probe_off s) 4 \<and> disjoint_ranges (inode_addr s + ino * 4096) 4096 (esp s + probe_off s) 4 \<and>
     (\<forall>i < j. 0 \<le> sint (ino_block b i) \<and> sint (ino_block b i) < sint (bb_data_count (boot_block s)) \<and>
        in_kernel_page (block_addr s b i) 4096 \<and> disjoint_ranges (block_addr s b i) 4096 (esp s + probe_off s) 4 \<and>
        disjoint_ranges (block_addr s b i) 4096 (image_base (active_proc s + 1)) (4096 * j)) \<and>
     (sint (ino_block b j) < 0 \<or> sint (bb_data_count (boot_block s)) \<le> sint (ino_block b j))"

lemma spoiled_fileD:
  assumes "spoiled_file s ino b j"
  shows "in_kernel_page (inode_addr s + ino * 4096) 4096" "rd (mem s) (inode_addr s + ino * 4096) 4096 = b"
    "1 \<le> j" "4096 * j \<le> 0x3B8000" "4096 * j \<le> unat (ino_length b)" "map (file_byte s b) [0..<4] = [0x7f, 0x45, 0x4c, 0x46]"
    "in_kernel_page (esp s + probe_off s) 4" "disjoint_ranges (inode_addr s + ino * 4096) 4096 (esp s + probe_off s) 4"
    "i < j \<Longrightarrow> 0 \<le> sint (ino_block b i)" "i < j \<Longrightarrow> sint (ino_block b i) < sint (bb_data_count (boot_block s))"
    "i < j \<Longrightarrow> in_kernel_page (block_addr s b i) 4096"
    "i < j \<Longrightarrow> disjoint_ranges (block_addr s b i) 4096 (esp s + probe_off s) 4"
    "i < j \<Longrightarrow> disjoint_ranges (block_addr s b i) 4096 (image_base (active_proc s + 1)) (4096 * j)"
    "sint (ino_block b j) < 0 \<or> sint (bb_data_count (boot_block s)) \<le> sint (ino_block b j)"
  using assms unfolding spoiled_file_def by blast+

lemma spoiled_file_cli: "spoiled_file (cli s) ino b j = spoiled_file s ino b j"
  unfolding spoiled_file_def file_byte_cli by (simp add: cli_def)

text \<open>The probe of the first four bytes succeeds.\<close>

lemma spoiled_probe:
  fixes s :: "'a proc_scheme"
  assumes km: "kernel_mapped s" and sp: "spoiled_file s ino b j"
  shows "read_data ino 0 (esp s + probe_off s) 4 s = Inr (4, s\<lparr>mem := wr (mem s) (esp s + probe_off s) [0x7f, 0x45, 0x4c, 0x46]\<rparr>)"
proof -
  let ?a = "esp s + probe_off s"
  note D = spoiled_fileD [OF sp]
  have k: "phys write s va n = Inr va" if "in_kernel_page va n" for "write" va n
    using phys_kernel [OF km] that by (simp add: in_kernel_page_def)
  have j: "0 < j" using D(3) by simp
  have "vload s (inode_addr s + ino * 4096) 4096 = Inr b" using D(1,2) by (simp add: vload_def k)
  moreover have "?a \<noteq> 0" using D(7) by (auto simp: in_kernel_page_def)
  moreover have "\<not> 4 > ino_length b" using D(3,5) by (simp add: word_less_nat_alt)
  ultimately have "read_data ino 0 ?a 4 s = read_data_loop b 0 ?a 4 0 s" by (simp add: read_data_def Let_def)
  also have "\<dots> = Inr (4, s\<lparr>mem := wr (mem s) ?a (map (file_byte s b) [0..<4])\<rparr>)"
  proof -
    have "vmemcpy (?a + of_nat 0) (block_addr s b 0 + of_nat 0) 4 (s\<lparr>mem := wr (mem s) ?a []\<rparr>) =
        Inr (s\<lparr>mem := wr (mem s) ?a ([] @ map (file_byte s b) [4096 * 0 + 0..<4096 * 0 + 0 + 4])\<rparr>)"
      using vmemcpy_block [where xs = "[]" and q = 0 and c = 4, OF k [OF D(7)] _ k [OF D(11) [OF j]] D(12) [OF j]] by simp
    then show ?thesis
      using D(9,10) [OF j] by (subst read_data_loop.simps) (simp add: int32_def block_addr_def Let_def)
  qed
  finally show ?thesis unfolding D(6) .
qed

text \<open>Loading it fails when the blocks before have been copied.\<close>

lemma spoiled_load:
  fixes s :: "'a proc_scheme"
  assumes km: "kernel_mapped s" and pd: "length (page_directory s) = 1024" and ap: "-1 \<le> active_proc s" "active_proc s < 500"
    and sp: "spoiled_file s ino b j" and m: "m = wr (mem s) (esp s + probe_off s) xs" "length xs = 4"
  shows "\<exists>s1. set_up_program_paging (active_proc s + 1) (loading s\<lparr>mem := m\<rparr>) = Inr s1 \<and>
    s1 = loading s\<lparr>mem := m, page_directory := page_directory s1\<rparr> \<and>
    read_data ino 0 0x08048000 0x400000 s1 =
      Inr (-1, s1\<lparr>mem := wr m (image_base (active_proc s + 1)) (map (file_byte s b) [0..<4096 * j])\<rparr>) \<and>
    (\<forall>n write. n \<le> 0x3B8000 \<longrightarrow> 0 < n \<longrightarrow> phys write s1 0x08048000 n = Inr (image_base (active_proc s + 1)))"
proof -
  let ?p = "active_proc s + 1" and ?a = "esp s + probe_off s"
  note D = spoiled_fileD [OF sp]
  have p: "0 \<le> ?p" "?p < 510" using ap by auto
  obtain s1 where s1: "set_up_program_paging ?p (loading s\<lparr>mem := m\<rparr>) = Inr s1" and s1_eq: "s1 = loading s\<lparr>mem := m, page_directory := page_directory s1\<rparr>"
    and km1: "kernel_mapped s1"
    and window: "\<And>n write. n \<le> 0x3B8000 \<Longrightarrow> 0 < n \<Longrightarrow> phys write s1 0x08048000 n = Inr (image_base ?p)"
    using window_set [OF km pd p] by blast
  have k: "phys write s1 va n = Inr va" if "in_kernel_page va n" for "write" va n
    using phys_kernel [OF km1] that by (simp add: in_kernel_page_def)
  have keep: "m (a + of_nat k) = mem s (a + of_nat k)" if "disjoint_ranges a 4096 ?a 4" "k < 4096" for a k
    unfolding m(1) using that m(2) by (intro wr_outside) (auto simp: disjoint_ranges_def)
  have fields: "mem s1 = m" "inode_addr s1 = inode_addr s" "boot_block s1 = boot_block s" "block_addr s1 b = block_addr s b"
    by (subst s1_eq, simp add: block_addr_def fun_eq_iff)+
  have fb: "file_byte s1 b i = file_byte s b i" if "i < 4096 * j" for i
    using keep D(12) [of "i div 4096"] that by (simp add: file_byte_def fields div_less_iff_less_mult)
  have "rd m (inode_addr s + ino * 4096) 4096 = rd (mem s) (inode_addr s + ino * 4096) 4096"
    using keep D(8) by (intro rd_cong) simp
  then have "vload s1 (inode_addr s1 + ino * 4096) 4096 = Inr b" using D(1,2) by (simp add: vload_def k fields)
  moreover have "bad_from s1 b j 0x08048000 (image_base ?p)"
    using D(3,4,9,10,11,13,14) window [of "4096 * j" True] by (auto simp: bad_from_def k fields)
  ultimately have "read_data ino 0 0x08048000 0x400000 s1 =
      Inr (-1, s1\<lparr>mem := wr (mem s1) (image_base ?p) (map (file_byte s1 b) [0..<4096 * j])\<rparr>)"
    using D(4,5) by (intro read_data_bad_block [where n = "min 0x400000 (unat (ino_length b))"]) auto
  moreover have "map (file_byte s1 b) [0..<4096 * j] = map (file_byte s b) [0..<4096 * j]" using fb by (intro map_cong) auto
  ultimately show ?thesis using s1 s1_eq window fields by auto
qed

lemma run_program_spoiled:
  fixes s :: "'a proc_scheme"
  assumes km: "kernel_mapped s" and pd: "length (page_directory s) = 1024" and ap: "-1 \<le> active_proc s" "active_proc s < 500"
    and terms: "length (term_arr s) = 3" "unat (term_flag s) < 3"
    and sp: "spoiled_file s (de_inode d) b j" and m: "m = wr (mem s) (esp s + probe_off s) xs" "length xs = 4"
  shows "\<exists>t. run_program d args (s\<lparr>mem := m\<rparr>) = Inr (Return (-1), t) \<and> active_proc t = active_proc s + 1 \<and>
    process_counter t = process_counter s + 1 \<and> programs t = programs s + 1 \<and> pcbs t = pcbs s \<and> tss_esp0 t = tss_esp0 s \<and> iflag t = iflag s \<and>
    (\<forall>write n. n \<le> 0x3B8000 \<longrightarrow> 0 < n \<longrightarrow> phys write t 0x08048000 n = Inr (image_base (active_proc s + 1))) \<and>
    rd (mem t) (image_base (active_proc s + 1)) (4096 * j) = map (file_byte s b) [0..<4096 * j]"
proof -
  let ?p = "active_proc s + 1" and ?xs = "map (file_byte s b) [0..<4096 * j]"
  obtain s1 where s1: "set_up_program_paging ?p (loading s\<lparr>mem := m\<rparr>) = Inr s1" "s1 = loading s\<lparr>mem := m, page_directory := page_directory s1\<rparr>"
    "read_data (de_inode d) 0 0x08048000 0x400000 s1 = Inr (-1, s1\<lparr>mem := wr m (image_base ?p) ?xs\<rparr>)"
    "\<And>n write. n \<le> 0x3B8000 \<Longrightarrow> 0 < n \<Longrightarrow> phys write s1 0x08048000 n = Inr (image_base ?p)"
    using spoiled_load [OF km pd ap sp m] by blast
  define t where "t = s1\<lparr>mem := wr m (image_base ?p) ?xs\<rparr>"
  have ld: "upd_term (\<lambda>t. t\<lparr>num_program := num_program t + 1\<rparr>) (s\<lparr>mem := m, active_proc := ?p, process_counter := process_counter s + 1\<rparr>) = loading s\<lparr>mem := m\<rparr>"
    by (simp add: loading_def upd_term_def cur_term_def Let_def)
  have r: "run_program d args (s\<lparr>mem := m\<rparr>) = Inr (Return (-1), t)"
    unfolding run_program_def using s1(1,3) by (simp add: ld Let_def t_def)
  have "programs (loading s) = programs s + 1"
    using programs_upd [of "s\<lparr>active_proc := ?p, process_counter := process_counter s + 1\<rparr>"] terms
    by (simp add: loading_def Let_def) (simp add: programs_def)
  moreover have "active_proc s1 = ?p" "process_counter s1 = process_counter s + 1" "term_arr s1 = term_arr (loading s)" "pcbs s1 = pcbs s"
    "tss_esp0 s1 = tss_esp0 s" "iflag s1 = iflag s"
    by (subst s1(2), simp)+
  moreover have "phys write t va n = phys write s1 va n" for "write" va n
    by (rule tables_phys) (simp add: t_def tables_def)
  moreover have "rd (mem t) (image_base ?p) (4096 * j) = ?xs"
    using rd_wr_same [of ?xs m "image_base ?p"] spoiled_fileD(4) [OF sp] by (simp add: t_def)
  ultimately show ?thesis using r s1(4) by (simp add: t_def programs_def)
qed

section \<open>Ending the last program without a shell\<close>

lemma parse_shell_word: "parse_word s (lit ''shell'') 0 = Inr (bytes ''shell'', 5)"
  by (simp add: parse_word.simps vfetch_def lit_def bytes_def)

text \<open>The window of process -1 is the first 4 MB of memory.\<close>

lemma set_up_program_paging_minus: "set_up_program_paging (-1) s = Inr (s\<lparr>page_directory := (page_directory s)[32 := 0x87]\<rparr>)"
  by (simp add: set_up_program_paging_def int32_def Let_def)

text \<open>
  \<^verbatim>\<open>halt\<close> of a program without a parent, when no file is called \<^verbatim>\<open>shell\<close>: the program is counted down twice, the window is mapped to the
  first 4 MB of memory, and the control goes where the program was executed.
\<close>

lemma halt_without_shell:
  fixes s :: "'a proc_scheme"
  assumes ok: "pcb_ok (cur_pcb s)" and ap: "active_proc s = 0" and par: "parent_process_ptr (cur_pcb s) = 0"
    and pd: "length (page_directory s) = 1024" and terms: "length (term_arr s) = 3" "unat (term_flag s) < 3"
    and bb: "length (boot_block s) = 4096" and few: "programs s \<le> 6"
    and none: "\<forall>i < 63. entry_name (boot_block s) i \<noteq> bytes ''shell''"
  shows "\<exists>t. halt st s = Inr (ToExecRet, t) \<and> active_proc t = -1 \<and> process_counter t = process_counter s - 1 \<and>
    programs t = programs s - 2 \<and> page_directory t ! 32 = 0x87 \<and> tss_esp0 t = kstack_top (-1) \<and>
    esp t = pcb_esp (cur_pcb s) \<and> ebp t = pcb_ebp (cur_pcb s) \<and> \<not> iflag t"
proof -
  let ?a = "get_pcb s" and ?dec = "\<lambda>t. t\<lparr>num_program := num_program t - 1\<rparr>"
  define s1 where "s1 = upd_term ?dec (s\<lparr>active_proc := -1, process_counter := process_counter s - 1\<rparr>)"
  have f1: "active_proc s1 = -1" "process_counter s1 = process_counter s - 1" "boot_block s1 = boot_block s" "esp s1 = esp s" "pcbs s1 = pcbs s"
    "page_directory s1 = page_directory s" "length (term_arr s1) = 3" "term_flag s1 = term_flag s"
    using terms by (simp_all add: s1_def upd_term_def)
  have "programs (s\<lparr>active_proc := -1, process_counter := process_counter s - 1\<rparr>) = programs s" by (simp add: programs_def)
  then have p1: "programs s1 = programs s - 1"
    using programs_upd [of "s\<lparr>active_proc := -1, process_counter := process_counter s - 1\<rparr>" ?dec] terms by (simp add: s1_def)
  have ex: "execute (lit ''shell'') s1 = Inr (Return (-1), cli s1)"
    using execute_unknown [of s1 "lit ''shell''" "bytes ''shell''" 5 "[]" 0] parse_shell_word [of s1] few p1 bb none f1
    by (simp add: is_null_def lit_def) (simp add: bytes_def)
  define s2 where "s2 = (upd_term ?dec (cli s1))\<lparr>tss_esp0 := kstack_top (-1), page_directory := (page_directory s)[32 := 0x87]\<rparr>"
  have f2: "active_proc s2 = -1" "process_counter s2 = process_counter s - 1" "esp s2 = esp s" "pcbs s2 = pcbs s" "\<not> iflag s2"
    "page_directory s2 = (page_directory s)[32 := 0x87]" "tss_esp0 s2 = kstack_top (-1)"
    using f1 by (simp_all add: s2_def upd_term_def cli_def)
  have "programs s2 = programs (upd_term ?dec (cli s1))" by (simp add: s2_def programs_def)
  moreover have "programs (cli s1) = programs s1" by (simp add: programs_def cli_def)
  moreover have "programs (upd_term ?dec (cli s1)) = programs (cli s1) - 1"
    using programs_upd [of "cli s1" ?dec] f1 terms by (simp add: cli_def)
  ultimately have p2: "programs s2 = programs s - 2" using p1 by simp
  have cur: "get_pcb s2 = ?a" "cur_pcb s2 = cur_pcb s" by (simp_all add: get_pcb_def cur_pcb_def f2)
  obtain g where g: "close_all ?a [2..<8] s2 = upd_pcb g s2" "pcb_esp (g (cur_pcb s)) = pcb_esp (cur_pcb s)" "pcb_ebp (g (cur_pcb s)) = pcb_ebp (cur_pcb s)"
    using close_all_frame [of s2 "[2..<8]"] ok unfolding cur set_upt by blast
  let ?t = "(upd_pcb g s2)\<lparr>ebp := pcb_ebp (pcbs (upd_pcb g s2) ?a), esp := pcb_esp (pcbs (upd_pcb g s2) ?a)\<rparr>"
  have "set_up_program_paging (-1) ((upd_term ?dec (cli s1))\<lparr>tss_esp0 := kstack_top (-1)\<rparr>) = Inr s2"
    using f1 by (simp add: set_up_program_paging_minus s2_def upd_term_def cli_def)
  moreover have "active_proc ((upd_term ?dec (cli s1))\<lparr>tss_esp0 := kstack_top (-1)\<rparr>) = -1" "active_proc (upd_term ?dec (cli s1)) = -1" using f1 by (simp_all add: upd_term_def cli_def)
  ultimately have "halt_rest ?a (cli s1) = Inr (ToExecRet, ?t)"
    unfolding halt_rest_def Let_def close_all_def [symmetric] by (simp only: g(1) rbind_Inr)
  moreover have "halt st s = halt_rest ?a (cli s1)"
    using par ap ex by (simp add: halt_def cur_pcb_def Let_def s1_def)
  moreover have "programs (upd_pcb g s2) = programs s2" by (simp add: programs_def upd_pcb_def)
  moreover have "pcbs (upd_pcb g s2) ?a = g (cur_pcb s)" by (simp add: upd_pcb_def cur)
  ultimately show ?thesis using f2 p2 g(2,3) pd by (simp add: upd_pcb_def programs_def)
qed

section \<open>Properties\<close>

text \<open>
  Property C29: \<^verbatim>\<open>execute\<close> of a program file with a bad block fails too late. When the file has the magic number and some later block
  number is out of range, \<^verbatim>\<open>execute\<close> returns -1 to its caller, but the new program has been counted, no control block has
  been made for it, and the caller's window is mapped to the frame of the new process, which holds the blocks read so far.
\<close>

theorem execute_bad_image:
  fixes s :: "'a proc_scheme"
  assumes "kernel_mapped s" and "length (page_directory s) = 1024" and "-1 \<le> active_proc s" and "active_proc s < 500"
    and "length (term_arr s) = 3" and "unat (term_flag s) < 3" and "programs s < 6" and "length (boot_block s) = 4096"
    and "\<not> is_null command" and "parse_word s command 0 = Inr (name, k)" and "k < 128" and "name \<noteq> []"
    and "if active_proc s = -1 then args = [] else parse_word s command (k + 1) = Inr (args, l)"
    and "find (\<lambda>i. entry_name (boot_block s) i = take 32 name) [0..<63] = Some i"
    and "spoiled_file s (de_inode (direntries (boot_block s) i)) b j"
  shows "\<exists>t. execute command s = Inr (Return (-1), t) \<and> active_proc t = active_proc s + 1 \<and>
    process_counter t = process_counter s + 1 \<and> programs t = programs s + 1 \<and> pcbs t = pcbs s \<and> tss_esp0 t = tss_esp0 s \<and> \<not> iflag t \<and>
    phys False t 0x08048000 (4096 * j) = Inr (image_base (active_proc s + 1)) \<and>
    rd (mem t) (image_base (active_proc s + 1)) (4096 * j) = map (file_byte s b) [0..<4096 * j]"
proof -
  have c: "kernel_mapped (cli s)" "spoiled_file (cli s) (de_inode (direntries (boot_block s) i)) b j"
    using assms(1,15) by (simp_all add: cli_frame spoiled_file_cli)
  have f: "esp (cli s) = esp s" "probe_off (cli s) = probe_off s" "mem (cli s) = mem s" "active_proc (cli s) = active_proc s"
    "page_directory (cli s) = page_directory s" "term_arr (cli s) = term_arr s" "term_flag (cli s) = term_flag s" "pcbs (cli s) = pcbs s"
    "tss_esp0 (cli s) = tss_esp0 s" "process_counter (cli s) = process_counter s" "programs (cli s) = programs s" "\<not> iflag (cli s)"
    "file_byte (cli s) b = file_byte s b"
    by (simp_all add: file_byte_cli) (simp_all add: cli_def programs_def)
  have "phys False (cli s) (esp s + probe_off s) 4 = Inr (esp s + probe_off s)"
    using phys_kernel [OF c(1)] spoiled_fileD(7) [OF assms(15)] by (simp add: in_kernel_page_def)
  note ex = execute_probed(1) [OF assms(7-14) spoiled_probe [OF c, unfolded f] this]
  show ?thesis
    using run_program_spoiled [OF c(1) _ _ _ _ _ c(2), of _ "[0x7f, 0x45, 0x4c, 0x46]" args] assms(2-6) spoiled_fileD(3,4) [OF assms(15)]
    unfolding ex f by auto
qed

definition spoiled_mem :: mem where
  "spoiled_mem = exec_mem(0x501000 := 0x88, 0x501001 := 0x13, 0x501008 := 7)"

theorem execute_bad_image_witness:
  "\<exists>t. execute (lit ''shell a'') (shell_state\<lparr>mem := spoiled_mem\<rparr>) = Inr (Return (-1), t) \<and> active_proc t = 1 \<and> programs t = 2"
proof -
  let ?s = "shell_state\<lparr>mem := spoiled_mem\<rparr>" and ?b = "rd spoiled_mem 0x501000 4096"
  have km: "kernel_mapped ?s"
    using shell_state_mapped by (rule kernel_mapped_cong [rotated 4]) simp_all
  have i: "ino_length ?b = 5000" "ino_block ?b 0 = 0" "ino_block ?b 1 = 7"
    by (simp_all add: ino_length_def ino_block_def take_rd drop_rd le32_def spoiled_mem_def exec_mem_def small_mem_def image_mem_def)
  have b: "block_addr ?s ?b 0 = 0x502000" by (simp add: block_addr_def shell_state_fields i)
  have "map (file_byte ?s ?b) [0..<4] = [0x7f, 0x45, 0x4c, 0x46]"
    using b by (simp add: file_byte_def spoiled_mem_def exec_mem_def upt_rec)
  moreover have "disjoint_ranges 0x501000 4096 0x7FDF8C 4" "disjoint_ranges 0x502000 4096 0x7FDF8C 4" "disjoint_ranges 0x502000 4096 0x848000 4096"
    by (rule disjoint_ranges_apart; simp)+
  ultimately have "spoiled_file ?s 0 ?b 1"
    using b i by (simp add: spoiled_file_def shell_state_fields in_kernel_page_def image_base_def)
  moreover have "programs ?s = 1" using shell_programs(1) by (simp add: programs_def)
  moreover have "parse_word ?s (lit ''shell a'') (5 + 1) = Inr (bytes ''a'', 7)" using parse_shell(2) by simp
  ultimately show ?thesis
    using execute_bad_image [of ?s "lit ''shell a''" "bytes ''shell''" 5 "bytes ''a''" 7 0 ?b 1] km parse_shell(1) shell_entry
    by (auto simp: shell_state_fields)
qed

end
