(* ===== verification/System.thy ===== *)
theory System
  imports Schedule
begin

text \<open>
  What the interrupt handlers and the system calls keep of the system's state. The wrappers of \<^verbatim>\<open>isr_wrapper.S\<close>
  run a handler between saving and restoring the registers and change nothing of processes, page directory and interrupt masks
  (\<open>quiet\<close>); a system call that returns changes at most the caller's control block and the user's video page
  (\<open>own_effect\<close>); a call that starts or ends a program keeps the joint invariant \<open>stable\<close> of terminals, process
  counters, descriptor tables and page directory.
\<close>

section \<open>What handlers leave alone\<close>

text \<open>The state of processes, page directory and interrupt controllers that no interrupt handler changes.\<close>

definition fixed :: "'a proc_scheme \<Rightarrow> (int \<times> u8 \<times> (u32 \<Rightarrow> pcb_t) \<times> u32 \<times> u32 \<times> u32 \<times> u32) \<times> int list \<times> u32 list \<times> u8 \<times> u8" where
  "fixed s = (proc_part s, map num_program (term_arr s), page_directory s, master_mask s, slave_mask s)"

definition quiet :: "'a proc_scheme \<Rightarrow> 'a proc_scheme \<Rightarrow> bool" where
  "quiet s s' \<longleftrightarrow> (kbd_inv s \<longrightarrow> kbd_inv s' \<and> fixed s' = fixed s)"

lemma quiet_refl [simp]: "quiet s s"
  by (simp add: quiet_def)

lemma quiet_trans: "quiet s t \<Longrightarrow> quiet t u \<Longrightarrow> quiet s u"
  by (auto simp: quiet_def)

lemma quietI: "(kbd_inv s \<Longrightarrow> kbd_inv s') \<Longrightarrow> fixed s' = fixed s \<Longrightarrow> quiet s s'"
  by (simp add: quiet_def)

lemma fixed_ops [simp]:
  "fixed (putc c s) = fixed s" "fixed (erase_char s) = fixed s" "fixed (set_cursor_loc l s) = fixed s"
  "fixed (cli s) = fixed s" "fixed (sti s) = fixed s" "fixed (send_eoi i s) = fixed s" "fixed (outb b p s) = fixed s"
  "fixed (snd (inb p s)) = fixed s" "fixed (s\<lparr>mem := m\<rparr>) = fixed s" "fixed (s\<lparr>next_interrupt := n\<rparr>) = fixed s"
  "fixed (s\<lparr>term_flag := f\<rparr>) = fixed s" "fixed (map_term a b w s) = fixed s" "fixed (set_modifiers k s) = fixed s"
  "fixed (set_screen_xy x y s) = fixed s" "fixed (s\<lparr>dir_count := d\<rparr>) = fixed s" "fixed (store_global e s) = fixed s"
  by (simp_all add: fixed_def proc_part_def putc_def erase_char_def set_cursor_loc_def scroll_def send_eoi_def map_term_def
      set_modifiers_def set_screen_xy_def load_cr3_def store_global_def io_defs Let_def split: option.splits)

lemma fixed_fold_putc [simp]: "fixed (fold putc cs s) = fixed s"
  by (induction cs arbitrary: s) simp_all

lemma map_upd_same: "f y = f (xs ! i) \<Longrightarrow> map f (xs[i := y]) = map f xs"
  by (metis list_update_id map_update)

lemma fixed_upd_term: "num_program (f (cur_term s)) = num_program (cur_term s) \<Longrightarrow> fixed (upd_term f s) = fixed s"
  by (simp add: fixed_def proc_part_def upd_term_def map_upd_same cur_term_def)

lemma fixed_clear_screen: "clear_screen s = Inr s' \<Longrightarrow> fixed s' = fixed s"
  by (auto simp: clear_screen_eq) (simp add: fixed_def proc_part_def clear_def)

lemma fixed_puts: "puts p s = Inr (n, s') \<Longrightarrow> fixed s' = fixed s"
  using puts_prints by fastforce

lemma fixed_remove_op: "remove_op s = Inr s' \<Longrightarrow> fixed s' = fixed s"
  by (auto simp: remove_op_def Let_def rbind_eq_Inr fixed_upd_term split: if_splits)

lemma fixed_insert_op: "insert_op c s = Inr s' \<Longrightarrow> fixed s' = fixed s"
  by (auto simp: insert_op_def Let_def rbind_eq_Inr fixed_upd_term split: if_splits)

lemma cur_term_console [simp]:
  "cur_term (set_cursor_loc l s) = cur_term s" "cur_term (set_screen_xy x y s) = cur_term s" "cur_term (s\<lparr>mem := m\<rparr>) = cur_term s"
  "cur_term (putc c s) = cur_term s"
  by (simp_all add: cur_term_def kbd_part_terms [OF console_frame(1)] kbd_part_terms [OF console_frame(5)])
    (simp add: set_screen_xy_def)

lemma switch_term_fixed:
  assumes "switch_term t s = Inr (t', s')"
  shows "fixed s' = fixed s \<and> cur_term s' = cur_term s \<and> num_program t' = num_program t"
proof -
  obtain u where u: "clear_screen s = Inr u" by (simp add: clear_screen_eq)
  then have "cur_term u = cur_term s" using clear_screen_frame [OF u] by (simp add: kbd_part_def cur_term_def)
  then show ?thesis using assms fixed_clear_screen [OF u] by (auto simp: switch_term_def u Let_def)
qed

lemma fixed_change_term:
  assumes "change_term n s = Inr s'"
  shows "fixed s' = fixed s"
proof -
  let ?u = "(upd_term (\<lambda>t. save_term t s) s)\<lparr>term_flag := n\<rparr>"
  obtain t v where v: "switch_term (cur_term ?u) ?u = Inr (t, v)"
    and s': "s' = map_term (term_flag (upd_term (\<lambda>_. t) v)) (term_flag s)
       (le32 (take 4 (vid_buf (term_arr (upd_term (\<lambda>_. t) v) ! unat (term_flag s))))) (upd_term (\<lambda>_. t) v)"
    using assms by (auto simp: change_term_def Let_def rbind_eq_Inr)
  have "fixed (upd_term (\<lambda>_. t) v) = fixed v" using switch_term_fixed [OF v] by (intro fixed_upd_term) simp
  moreover have "fixed ?u = fixed s" by (simp add: fixed_upd_term save_term_def Let_def)
  ultimately show ?thesis using switch_term_fixed [OF v] by (simp add: s')
qed

lemma fixed_scancode: "scancode_decoder sc s = Inr (c, s') \<Longrightarrow> fixed s' = fixed s"
  by (auto simp: scancode_decoder_def Let_def rbind_eq_Inr dest!: fixed_change_term split: if_splits)

lemma fixed_kbd_handler: "kbd_intr_handler s = Inr s' \<Longrightarrow> fixed s' = fixed s"
  by (auto simp: kbd_intr_handler_def Let_def split_beta rbind_eq_Inr
      dest!: fixed_scancode fixed_remove_op fixed_insert_op fixed_clear_screen fixed_puts split: if_splits)

lemma quiet_kbd: "kbd_intr_handler s = Inr s' \<Longrightarrow> quiet s s'"
  using kbd_intr_handler_eq [of s] fixed_kbd_handler [of s s'] by (auto simp: quiet_def)

lemma kbd_inv_devices [simp]:
  "kbd_inv (s\<lparr>mem := m\<rparr>) = kbd_inv s" "kbd_inv (s\<lparr>next_interrupt := n\<rparr>) = kbd_inv s" "kbd_inv (outb b p s) = kbd_inv s"
  "kbd_inv (s\<lparr>dir_count := d\<rparr>) = kbd_inv s" "kbd_inv (store_global e s) = kbd_inv s"
  by (simp_all add: kbd_inv_def screen_inv_def store_global_def io_defs split: option.splits)

lemma quiet_rtc: "quiet s (rtc_handler s)"
  by (intro quietI) (simp_all add: rtc_handler_def Let_def split_beta)

lemma quiet_pit: "quiet s (pit_handler s)"
  by (intro quietI)
    (simp_all add: pit_handler_def Let_def fixed_def proc_part_def kbd_inv_def screen_inv_def send_eoi_def io_defs)

text \<open>
  The wrappers of \<^verbatim>\<open>isr_wrapper.S\<close>: save the registers, call the handler, and return to the interrupted code with its
  interrupt flag.
\<close>

definition irq_wrapper :: "('a sched_scheme \<Rightarrow> 'a sched_scheme res) \<Rightarrow> 'a sched_scheme \<Rightarrow> 'a sched_scheme res" where
  "irq_wrapper handler s = rbind (handler s) (\<lambda>s'. Inr (s'\<lparr>iflag := iflag s\<rparr>))"

definition rtc_wrapper :: "'a sched_scheme \<Rightarrow> 'a sched_scheme res" where
  "rtc_wrapper = irq_wrapper (\<lambda>s. Inr (rtc_handler s))"

definition kbd_wrapper :: "'a sched_scheme \<Rightarrow> 'a sched_scheme res" where
  "kbd_wrapper = irq_wrapper kbd_intr_handler"

definition pit_wrapper :: "'a sched_scheme \<Rightarrow> 'a sched_scheme res" where
  "pit_wrapper = irq_wrapper (\<lambda>s. Inr (pit_handler s))"

definition wrappers :: "('a sched_scheme \<Rightarrow> 'a sched_scheme res) set" where
  "wrappers = {pit_wrapper, rtc_wrapper, kbd_wrapper}"

lemma fixed_iflag [simp]: "fixed (s\<lparr>iflag := f\<rparr>) = fixed s" "kbd_inv (s\<lparr>iflag := f\<rparr>) = kbd_inv s"
  by (simp_all add: fixed_def proc_part_def kbd_inv_def screen_inv_def)

lemma irq_wrapper_quiet:
  assumes "\<And>t. h s = Inr t \<Longrightarrow> quiet s t" and "irq_wrapper h s = Inr s'"
  shows "quiet s s'" and "iflag s' = iflag s"
  using assms by (auto simp: irq_wrapper_def rbind_eq_Inr quiet_def)

lemma wrappers_quiet:
  assumes "h \<in> wrappers" and "h s = Inr s'"
  shows "quiet s s'" and "iflag s' = iflag s"
proof -
  have "\<exists>g. irq_wrapper g s = Inr s' \<and> (\<forall>t. g s = Inr t \<longrightarrow> quiet s t)"
    using assms quiet_pit [of s] quiet_rtc [of s] quiet_kbd [of s]
    by (auto simp: wrappers_def pit_wrapper_def rtc_wrapper_def kbd_wrapper_def)
  then show "quiet s s'" "iflag s' = iflag s" using irq_wrapper_quiet by blast+
qed

text \<open>No handler can fail.\<close>

lemma wrappers_complete:
  assumes "h \<in> wrappers" and "kbd_inv s"
  shows "\<exists>s'. h s = Inr s'"
  using assms kbd_intr_handler_eq [OF assms(2)]
  by (auto simp: wrappers_def pit_wrapper_def rtc_wrapper_def kbd_wrapper_def irq_wrapper_def)

text \<open>
  What a busy wait of the kernel relies on: handlers that complete where the invariant holds and keep what the waiting code
  has established. The wait then ends at the latest with the first handler that makes its condition true.
\<close>

locale interrupt_service =
  fixes handlers :: "('s \<Rightarrow> 's res) set" and inv :: "'s \<Rightarrow> bool" and keeps :: "'s \<Rightarrow> 's \<Rightarrow> bool"
  assumes completes: "h \<in> handlers \<Longrightarrow> inv s \<Longrightarrow> \<exists>s'. h s = Inr s'"
    and serves: "h \<in> handlers \<Longrightarrow> h s = Inr s' \<Longrightarrow> keeps s s'"
    and keeps_reflexive: "keeps s s"
    and keeps_transitive: "keeps s t \<Longrightarrow> keeps t u \<Longrightarrow> keeps s u"
    and keeps_inv: "keeps s t \<Longrightarrow> inv s \<Longrightarrow> inv t"
begin

lemma wait_keeps: "set hs \<subseteq> handlers \<Longrightarrow> spin_until ready hs s = Inr s' \<Longrightarrow> keeps s s'"
proof (induction hs arbitrary: s)
  case Nil
  then show ?case by (simp add: keeps_reflexive split: if_splits)
next
  case (Cons h hs)
  show ?case
  proof (cases "ready s")
    case False
    with Cons.prems obtain t where t: "h s = Inr t" "spin_until ready hs t = Inr s'" by (auto simp: rbind_eq_Inr)
    then show ?thesis using Cons serves [of h s t] keeps_transitive [of s t s'] by simp
  qed (use Cons.prems keeps_reflexive in simp)
qed

lemma wait_ends:
  assumes wake: "\<And>t t'. w t = Inr t' \<Longrightarrow> ready t'"
  shows "set hs \<subseteq> handlers \<Longrightarrow> w \<in> set hs \<Longrightarrow> inv s \<Longrightarrow> \<exists>s'. spin_until ready hs s = Inr s'"
proof (induction hs arbitrary: s)
  case (Cons h hs)
  obtain t where t: "h s = Inr t" using completes [of h s] Cons.prems by auto
  show ?case
  proof (cases "h = w")
    case True
    then show ?thesis using wake [of s t] t by (simp add: spin_until_ready)
  next
    case False
    have "inv t" using Cons.prems(1,3) t serves [of h s t] keeps_inv [of s t] by simp
    then show ?thesis using Cons False t by simp
  qed
qed simp

end

interpretation irq: interrupt_service wrappers kbd_inv quiet
proof
  show "h \<in> wrappers \<Longrightarrow> kbd_inv s \<Longrightarrow> \<exists>s'. h s = Inr s'" for h and s :: "'a sched_scheme" by (rule wrappers_complete)
  show "h \<in> wrappers \<Longrightarrow> h s = Inr s' \<Longrightarrow> quiet s s'" for h and s s' :: "'a sched_scheme" by (rule wrappers_quiet(1))
  show "quiet s t \<Longrightarrow> quiet t u \<Longrightarrow> quiet s u" for s t u :: "'a sched_scheme" by (rule quiet_trans)
  show "quiet s t \<Longrightarrow> kbd_inv s \<Longrightarrow> kbd_inv t" for s t :: "'a sched_scheme" by (simp add: quiet_def)
qed simp

section \<open>System calls that return\<close>

lemma vops_mem:
  "vmemset a c n s = Inr s' \<Longrightarrow> \<exists>m. s' = s\<lparr>mem := m\<rparr>" "vstore a xs s = Inr s' \<Longrightarrow> \<exists>m. s' = s\<lparr>mem := m\<rparr>"
  "vwrite a b s = Inr s' \<Longrightarrow> \<exists>m. s' = s\<lparr>mem := m\<rparr>"
  by (auto simp: vmemset_def vstore_def vwrite_def rbind_eq_Inr)

lemma term_read_loop_mem: "term_read_loop line buf i s = Inr (k, s') \<Longrightarrow> \<exists>m. s' = s\<lparr>mem := m\<rparr>"
proof (induction line buf i s rule: term_read_loop.induct)
  case (1 line buf i s)
  note eq = "1.prems" [unfolded term_read_loop.simps [of line buf i s]]
  show ?case
  proof (cases "length line \<le> i \<or> line ! i = 10")
    case True
    then show ?thesis using eq by (auto split: if_splits intro: exI [of _ "mem s"])
  next
    case False
    then obtain t where t: "vwrite (buf + of_nat i) (line ! i) s = Inr t" "term_read_loop line buf (Suc i) t = Inr (k, s')"
      using eq by (auto simp: rbind_eq_Inr)
    then obtain m where "s' = t\<lparr>mem := m\<rparr>" using "1.IH" False by blast
    with vops_mem(3) [OF t(1)] show ?thesis by auto
  qed
qed

lemma quiet_mem [simp]: "quiet s (s\<lparr>mem := m\<rparr>)"
  by (simp add: quiet_def)

lemma quiet_unset: "quiet s (unset_kbd_ready s)"
  unfolding unset_kbd_ready_def
  by (auto simp: quiet_def fixed_upd_term term_ok_def intro!: kbd_inv_upd dest: kbd_inv_cur)

lemma quiet_term_read:
  assumes "set hs \<subseteq> wrappers" and "term_read hs fd buf n s = Inr (r, s')"
  shows "quiet s s'"
proof (cases "buf = 0 \<or> n < 0")
  case True
  then show ?thesis using assms(2) by (simp add: term_read_def)
next
  case False
  then obtain t u k where t: "spin_until (\<lambda>s. is_kbd_ready s \<noteq> 0) hs s = Inr t"
    "vmemset buf 0 KBD_BUF_SIZE (unset_kbd_ready t) = Inr u"
    "term_read_loop (get_kbd_buf (unset_kbd_ready t)) buf 0 u = Inr (k, s')"
    using assms(2) by (auto simp: term_read_def rbind_eq_Inr Let_def)
  obtain m where "s' = unset_kbd_ready t\<lparr>mem := m\<rparr>" using vops_mem(1) [OF t(2)] term_read_loop_mem [OF t(3)] by auto
  then have "quiet (unset_kbd_ready t) s'" by simp
  then show ?thesis using irq.wait_keeps [OF assms(1) t(1)] quiet_unset [of t] by (blast intro: quiet_trans)
qed

lemma quiet_rtc_read: "set hs \<subseteq> wrappers \<Longrightarrow> rtc_read hs fd buf n s = Inr (r, s') \<Longrightarrow> quiet s s'"
  using irq.wait_keeps [of hs "\<lambda>s. next_interrupt s \<noteq> 0" "s\<lparr>next_interrupt := 0\<rparr>" s']
  by (auto simp: rtc_read_def rbind_eq_Inr quiet_def)

lemma quiet_dir_read:
  assumes "fs_dir_read fd buf n s = Inr (r, s')"
  shows "quiet s s'"
proof -
  obtain d t u where t: "vmemset buf 0 FILENAME_LEN (store_global d s) = Inr t"
    and u: "\<exists>xs. vstore buf xs t = Inr u" and s': "s' = u\<lparr>dir_count := dir_count u + 1\<rparr> \<or> s' = u\<lparr>dir_count := dir_count u + 1, dir_count := 0\<rparr>"
    using assms unfolding fs_dir_read_def rbind_eq_Inr Let_def split_beta by (fastforce split: if_splits)
  obtain m where m: "u = store_global d s\<lparr>mem := m\<rparr>" using vops_mem(1) [OF t] vops_mem(2) u by force
  show ?thesis using s' by (intro quietI) (auto simp: m)
qed

lemma quiet_putc: "quiet s (putc c s)"
proof (rule quietI)
  assume inv: "kbd_inv s"
  then have "screen_inv (putc c s)" by (intro screen_inv_putc) (simp add: kbd_inv_def)
  with inv show "kbd_inv (putc c s)" by (rule kbd_inv_part [OF _ console_frame(1)])
qed simp

lemma quiet_term_write_loop: "term_write_loop buf n i s = Inr (r, s') \<Longrightarrow> quiet s s'"
proof (induction buf n i s rule: term_write_loop.induct)
  case (1 buf n i s)
  obtain c where c: "vread s (buf + of_nat i) = Inr c" "(if c = 0 then Inr (int i, s) else if int (Suc i) < n
      then term_write_loop buf n (Suc i) (putc c s) else Inr (int (Suc i), putc c s)) = Inr (r, s')"
    using "1.prems" [unfolded term_write_loop.simps [of buf n i s] Let_def] by (auto simp: rbind_eq_Inr)
  show ?case
  proof (cases "c \<noteq> 0 \<and> int (Suc i) < n")
    case True
    then have "quiet (putc c s) s'" using "1.IH" [OF c(1) _ refl refl] c(2) by simp
    then show ?thesis by (rule quiet_trans [OF quiet_putc])
  next
    case False
    then show ?thesis using c(2) quiet_putc by (auto split: if_splits)
  qed
qed

lemma quiet_write_ops:
  "term_write fd buf n s = Inr (r, s') \<Longrightarrow> quiet s s'" "rtc_write fd buf n s = Inr (r, s') \<Longrightarrow> quiet s s'"
  by (auto simp: term_write_def split: if_splits dest: quiet_term_write_loop)
    (auto simp: rtc_write_def rtc_write_byte_def rbind_eq_Inr Let_def split_beta quiet_def split: if_splits dest!: vops_mem)

text \<open>
  A system call that returns may change the control block of the calling process, which stays well-formed, and the
  user's view of the video page; of all the rest it is quiet.
\<close>

definition others :: "'a proc_scheme \<Rightarrow> int \<times> u8 \<times> u32 \<times> u32 \<times> int list \<times> u8 \<times> u8" where
  "others s = (active_proc s, process_counter s, esp s, tss_esp0 s, map num_program (term_arr s), master_mask s, slave_mask s)"

definition own_effect :: "'a proc_scheme \<Rightarrow> 'a proc_scheme \<Rightarrow> bool" where
  "own_effect s s' \<longleftrightarrow> (kbd_inv s \<longrightarrow> pcb_ok (cur_pcb s) \<longrightarrow>
     kbd_inv s' \<and> others s' = others s \<and> (\<exists>p. pcbs s' = (pcbs s)(get_pcb s := p) \<and> pcb_ok p) \<and>
     (page_directory s' = page_directory s \<or> (\<exists>e. page_directory s' = (page_directory s)[34 := e])))"

lemma own_effect_quiet: "quiet s s' \<Longrightarrow> own_effect s s'"
  by (auto simp: own_effect_def quiet_def fixed_def others_def proc_part_def cur_pcb_def intro: exI [of _ "cur_pcb s"])

lemma own_effect_upd:
  assumes "pcb_ok (cur_pcb s) \<Longrightarrow> pcb_ok (f (cur_pcb s))"
  shows "own_effect s (upd_pcb f s)"
  using assms by (auto simp: own_effect_def others_def upd_pcb_def kbd_inv_def screen_inv_def)

lemma own_effect_mem_upd:
  assumes "pcb_ok (cur_pcb s) \<Longrightarrow> pcb_ok (f (cur_pcb s))"
  shows "own_effect s (upd_pcb f (s\<lparr>mem := m\<rparr>))"
  using assms by (auto simp: own_effect_def others_def upd_pcb_def kbd_inv_def screen_inv_def)

lemma own_effect_read:
  fixes s s' :: "'a sched_scheme"
  assumes hs: "set hs \<subseteq> wrappers" and r: "sys_read hs fd buf n s = Inr (r, s')"
  shows "own_effect s s'"
proof (cases "n < 0 \<or> fd < 0 \<or> fd > 7 \<or> fd = 1 \<or> buf = 0 \<or> in_use_flag (file_array (cur_pcb s) ! nat fd) = 0")
  case True
  then have "s' = s" using r by (auto simp: sys_read_def split: if_splits)
  then show ?thesis by (simp add: own_effect_quiet)
next
  case False
  let ?d = "file_array (cur_pcb s) ! nat fd"
  show ?thesis
  proof (cases "fop_table ?d = File_table")
    case True
    then obtain k t where t: "read_data (inode_type ?d) (offset ?d) buf (word_of_int n) s = Inr (k, t)"
      and s': "s' = upd_fd (nat fd) (\<lambda>d. d\<lparr>offset := offset d + word_of_int k\<rparr>) t"
      using False r by (auto simp: sys_read_def fs_file_read_def rbind_eq_Inr Let_def)
    have "pcb_ok ((cur_pcb s)\<lparr>file_array := (file_array (cur_pcb s))[nat fd := ?d\<lparr>offset := offset ?d + word_of_int k\<rparr>]\<rparr>)"
      if "pcb_ok (cur_pcb s)"
      using pcb_ok_fd [OF that, of "nat fd"] that False True
      by (intro pcb_ok_set) (auto simp: fd_ok_def split: if_splits)
    then show ?thesis using read_data_mem [OF t] unfolding s' upd_fd_def by (auto intro!: own_effect_mem_upd)
  next
    case other: False
    then show ?thesis
      using False r by (auto simp: sys_read_def split: fops.splits
          dest: quiet_dir_read quiet_rtc_read [OF hs] quiet_term_read [OF hs] intro!: own_effect_quiet)
  qed
qed

lemma own_effect_write: "sys_write fd buf n s = Inr (r, s') \<Longrightarrow> own_effect s s'"
  by (auto simp: sys_write_def Let_def split: if_splits fops.splits dest: quiet_write_ops intro!: own_effect_quiet)

lemma own_effect_open:
  assumes "sys_open name s = Inr (r, s')"
  shows "own_effect s s'"
proof (cases "s' = s")
  case False
  then obtain d where d: "open_dentry d s = (r, s')"
    using assms by (auto simp: sys_open_def rbind_eq_Inr split: if_splits option.splits)
  have "own_effect s (snd (open_dentry d s))"
  proof (cases "de_filetype d \<le> 2 \<and> pcb_ok (cur_pcb s)")
    case True
    then obtain f where "open_dentry d s = (fst (spec_open (entry_file d) (fds (cur_pcb s))), upd_pcb f s)" "pcb_ok (f (cur_pcb s))"
      using open_dentry_refines by blast
    then show ?thesis by (simp add: own_effect_upd)
  next
    case False
    then have "de_filetype d \<noteq> 0 \<and> de_filetype d \<noteq> 1 \<and> de_filetype d \<noteq> 2 \<or> \<not> pcb_ok (cur_pcb s)"
      by (auto simp: word_le_nat_alt)
    then show ?thesis
      by (auto simp: open_dentry_def Let_def own_effect_quiet own_effect_upd) (auto simp: own_effect_def)
  qed
  with d show ?thesis by simp
qed (simp add: own_effect_quiet)

lemma own_effect_close: "own_effect s (snd (sys_close fd s))"
proof (cases "pcb_ok (cur_pcb s)")
  case True
  obtain f where "sys_close fd s = (fst (spec_close fd (fds (cur_pcb s))), upd_pcb f s)" "pcb_ok (f (cur_pcb s))"
    using sys_close_refines [OF True] by blast
  then show ?thesis by (simp add: own_effect_upd)
qed (simp add: own_effect_def)

lemma own_effect_getargs: "getargs buf n s = Inr (r, s') \<Longrightarrow> own_effect s s'"
  by (auto simp: getargs_def rbind_eq_Inr split: if_splits dest!: vops_mem intro!: own_effect_quiet)

lemma vid_loop_tables:
  fixes s :: "'a paging_scheme"
  shows "\<exists>v. fold (\<lambda>i s. s\<lparr>vid_page_table := (vid_page_table s)[i := BLANK]\<rparr>) is s = s\<lparr>vid_page_table := v\<rparr>"
proof (induction "is" arbitrary: s)
  case Nil
  show ?case by (auto intro: exI [of _ "vid_page_table s"])
next
  case (Cons i "is")
  show ?case using Cons.IH [of "s\<lparr>vid_page_table := (vid_page_table s)[i := BLANK]\<rparr>"] by simp
qed

lemma own_effect_vidmap:
  assumes "vidmap screen_start s = Inr (r, s')"
  shows "own_effect s s'"
proof (cases "s' = s")
  case False
  define t where "t = snd (vidmap_helper s)"
  obtain m where t': "s' = t\<lparr>mem := m\<rparr>"
    using assms False by (auto simp: vidmap_def rbind_eq_Inr split_beta t_def split: if_splits dest!: vops_mem)
  obtain x where "fold (\<lambda>i s. s\<lparr>vid_page_table := (vid_page_table s)[i := BLANK]\<rparr>) [0..<1024] s = s\<lparr>vid_page_table := x\<rparr>"
    using vid_loop_tables by blast
  then have "t = s\<lparr>vid_page_table := x[0 := 0xB8017], page_directory := (page_directory s)[34 := sym s Sym_vid_page_table OR 0x17],
      cr3 := sym s Sym_page_directory\<rparr>"
    by (simp add: t_def vidmap_helper_def Let_def load_cr3_def)
  then show ?thesis
    by (auto simp: t' own_effect_def others_def cur_pcb_def kbd_inv_def screen_inv_def intro: exI [of _ "pcbs s (get_pcb s)"])
qed (simp add: own_effect_quiet)

section \<open>The invariant\<close>

text \<open>The entry of the page directory that maps the window of process \<open>p\<close>.\<close>

definition window_entry :: "int \<Rightarrow> u32" where
  "window_entry p = push_bit 22 (of_nat (nat p + 1)) OR 0x87"

definition dir_ok :: "'a paging_scheme \<Rightarrow> bool" where
  "dir_ok s \<longleftrightarrow> length (page_directory s) = 1024 \<and> page_directory s ! 1 = 0x400083 \<and>
     (\<forall>i < 1024. i \<noteq> 32 \<and> i \<noteq> 34 \<longrightarrow> \<not> bit (page_directory s ! i) 2)"

definition procs_ok :: "'a proc_scheme \<Rightarrow> bool" where
  "procs_ok s \<longleftrightarrow> (\<forall>p. 0 \<le> p \<and> p \<le> active_proc s \<longrightarrow> pcb_ok (pcbs s (KSTACK_TO_PCB p))) \<and>
     (\<forall>p. 0 \<le> p \<and> p \<le> 5 \<longrightarrow> length (file_array (pcbs s (KSTACK_TO_PCB p))) = 8)"

definition stable :: "'a proc_scheme \<Rightarrow> bool" where
  "stable s \<longleftrightarrow> kbd_inv s \<and> counters_ok s \<and> procs_ok s \<and> dir_ok s"

definition at_user_level :: "'a proc_scheme \<Rightarrow> bool" where
  "at_user_level s \<longleftrightarrow> 0 \<le> active_proc s \<and> tss_esp0 s = kstack_top (active_proc s) \<and>
     page_directory s ! 32 = window_entry (active_proc s) \<and> iflag s \<and>
     irq_delivered s 0 \<and> irq_delivered s 1 \<and> irq_delivered s 8"

definition machine_ok :: "'a proc_scheme \<Rightarrow> bool" where
  "machine_ok s \<longleftrightarrow> stable s \<and> at_user_level s"

lemma dir_ok_upd: "dir_ok s \<Longrightarrow> page_directory s' = (page_directory s)[i := e] \<Longrightarrow> i = 32 \<or> i = 34 \<Longrightarrow> dir_ok s'"
  by (auto simp: dir_ok_def nth_list_update)

lemma programs_sum:
  assumes "length (term_arr s) = 3"
  shows "programs s = sum_list (map num_program (term_arr s))"
proof -
  obtain a b c where "term_arr s = [a, b, c]" using assms by (auto simp: eval_nat_numeral length_Suc_conv)
  then show ?thesis by (simp add: programs_def)
qed

lemma counters_others:
  assumes "counters_ok s" and "kbd_inv s'" and "active_proc s' = active_proc s" and "process_counter s' = process_counter s"
    and "map num_program (term_arr s') = map num_program (term_arr s)"
  shows "counters_ok s'"
proof -
  have "length (term_arr s) = 3" "length (term_arr s') = 3" using assms(1,2) by (simp_all add: counters_ok_def kbd_inv_def)
  then have "programs s' = programs s" using assms(5) by (simp add: programs_sum)
  then show ?thesis using assms(1-4) unfolding counters_ok_def kbd_inv_def by simp
qed

text \<open>Control blocks of different processes do not share an address.\<close>

lemma KSTACK_TO_PCB_inj: "0 \<le> p \<Longrightarrow> p < 1000 \<Longrightarrow> 0 \<le> q \<Longrightarrow> q < 1000 \<Longrightarrow> KSTACK_TO_PCB p = KSTACK_TO_PCB q \<Longrightarrow> p = q"
proof -
  assume *: "0 \<le> p" "p < 1000" "0 \<le> q" "q < 1000" "KSTACK_TO_PCB p = KSTACK_TO_PCB q"
  then have "0x7FE000 - (p + 1) * 0x2000 = 0x7FE000 - (q + 1) * (0x2000 :: int)"
    using uint_kstack(1) [OF *(1,2)] uint_kstack(1) [OF *(3,4)] by metis
  then show "p = q" by simp
qed

lemma procs_ok_upd:
  assumes "procs_ok s" and "pcbs s' = (pcbs s)(a := x)" and "pcb_ok x" and "active_proc s' = active_proc s"
  shows "procs_ok s'"
  using assms by (auto simp: procs_ok_def pcb_ok_def)

lemma own_effect_stable:
  assumes "own_effect s s'" and "stable s" and "pcb_ok (cur_pcb s)"
  shows "stable s'" and "others s' = others s" and "page_directory s' ! 32 = page_directory s ! 32"
proof -
  have e: "kbd_inv s'" "others s' = others s" "\<exists>p. pcbs s' = (pcbs s)(get_pcb s := p) \<and> pcb_ok p"
    "page_directory s' = page_directory s \<or> (\<exists>e. page_directory s' = (page_directory s)[34 := e])"
    using assms by (simp_all add: own_effect_def stable_def)
  show "others s' = others s" by fact
  show "page_directory s' ! 32 = page_directory s ! 32" using e(4) by (auto simp: nth_list_update)
  have "counters_ok s'" using assms(2) e(1,2) counters_others [of s s'] by (simp add: stable_def others_def)
  moreover have "procs_ok s'" using assms(2) e(2,3) procs_ok_upd [of s s'] by (auto simp: stable_def others_def)
  moreover have "dir_ok s'" using assms(2) e(4) dir_ok_upd [of s s' 34] by (auto simp: stable_def dir_ok_def)
  ultimately show "stable s'" using e(1) by (simp add: stable_def)
qed

lemma quiet_stable:
  assumes "quiet s s'" and "stable s"
  shows "stable s'" and "others s' = others s" and "page_directory s' = page_directory s" and "pcbs s' = pcbs s"
proof -
  have f: "kbd_inv s'" "fixed s' = fixed s" using assms by (simp_all add: quiet_def stable_def)
  show "others s' = others s" "page_directory s' = page_directory s" "pcbs s' = pcbs s"
    using f(2) by (simp_all add: fixed_def others_def proc_part_def)
  then show "stable s'"
    using assms(2) f(1) counters_others [of s s'] by (simp add: stable_def others_def procs_ok_def dir_ok_def)
qed

section \<open>Starting and ending programs\<close>

lemma parse_word_length: "parse_word s command i = Inr (w, j) \<Longrightarrow> i \<le> 128 \<Longrightarrow> j = i + length w \<and> j \<le> 128"
proof (induction s command i arbitrary: w rule: parse_word.induct)
  case (1 s command i)
  note eq = "1.prems"(1) [unfolded parse_word.simps [of s command i]]
  show ?case
  proof (cases "i < 128")
    case True
    then obtain c where c: "vfetch s command i = Inr c" using eq by (cases "vfetch s command i") simp_all
    show ?thesis
    proof (cases "c = 10 \<or> c = 32 \<or> c = 0")
      case True
      then show ?thesis using eq \<open>i < 128\<close> c by auto
    next
      case False
      then obtain v where "parse_word s command (Suc i) = Inr (v, j)" "w = c # v" using eq True c by (auto simp: rbind_eq_Inr)
      with "1.IH" [OF True c False] True show ?thesis by simp
    qed
  qed (use eq "1.prems"(2) in simp)
qed

lemma parse_word_short: "parse_word s command i = Inr (w, j) \<Longrightarrow> length w < 1024"
  using parse_word_length [of s command i w j] by (cases "i \<le> 128") (auto simp: parse_word.simps)

text \<open>Either \<^verbatim>\<open>execute\<close> refuses, leaving everything but the screen, the memory and the interrupt flag, or it goes on to run the program.\<close>

lemma execute_either:
  assumes "execute command s = Inr (c, s')"
  shows "c = Return (-1) \<and> quiet s s' \<or>
    programs s < 6 \<and> (\<exists>d args m. run_program d args (cli s\<lparr>mem := m\<rparr>) = Inr (c, s') \<and> length args < 1024)"
proof (cases "programs s < 6")
  case False
  have "quiet s (fold putc cs s)" for cs
    by (induction cs arbitrary: s) (auto intro: quiet_putc quiet_trans)
  then show ?thesis using False assms exceeded_text [of s] by (auto simp: execute_def programs_def)
next
  case True
  have q: "quiet s (cli s\<lparr>mem := m\<rparr>)" "quiet s (cli s)" for m by (simp_all add: quiet_def)
  define find_program where "find_program = (\<lambda>(w :: u8 list) v.
    rbind (read_dentry_by_name (Obj (w @ [0])) (cli s)) (\<lambda>(r, d).
      case d of None \<Rightarrow> Inr (Return (-1), cli s)
      | Some e \<Rightarrow>
          if r = -1 then Inr (Return (-1), cli s)
          else rbind (read_data (de_inode e) 0 (esp (cli s) + probe_off (cli s)) 4 (cli s)) (\<lambda>(r, t).
                 if r = -1 then Inr (Return (-1), t)
                 else rbind (vload t (esp (cli s) + probe_off (cli s)) 4) (\<lambda>probe.
                   if probe ! 0 \<noteq> 0x7f \<or> probe ! 1 \<noteq> 0x45 \<or> probe ! 2 \<noteq> 0x4c \<or> probe ! 3 \<noteq> 0x46
                   then Inr (Return (-1), t) else run_program e v t))))"
  have eq: "execute command s = (if is_null command then Inr (Return (-1), s)
      else rbind (parse_word (cli s) command 0) (\<lambda>(w, i).
        if 128 \<le> i then Inl OutOfBounds
        else rbind (if active_proc (cli s) \<noteq> -1 then parse_word (cli s) command (i + 1) else Inr ([], i + 1)) (\<lambda>(v, _).
               find_program w v)))"
  proof -
    have "\<not> 6 \<le> num_program (term_arr s ! 0) + num_program (term_arr s ! 1) + num_program (term_arr s ! 2)"
      using True by (simp add: programs_def)
    then show ?thesis unfolding execute_def Let_def find_program_def by (simp only: if_False)
  qed
  have found: "c = Return (-1) \<and> quiet s s' \<or> (\<exists>d m. run_program d v (cli s\<lparr>mem := m\<rparr>) = Inr (c, s'))"
    if "find_program w v = Inr (c, s')" for w v
    using that q by (auto simp: find_program_def rbind_eq_Inr dest!: read_data_mem split: if_splits option.splits)
  show ?thesis
  proof (cases "is_null command")
    case False
    then obtain w v k i where "find_program w v = Inr (c, s')"
      and "(if active_proc (cli s) \<noteq> -1 then parse_word (cli s) command (i + 1) else Inr ([], i + 1)) = Inr (v, k)"
      using assms unfolding eq by (auto simp: rbind_eq_Inr split: if_splits)
    moreover have "length v < 1024"
      using calculation(2) parse_word_short [of "cli s" command "i + 1" v k] by (auto split: if_splits)
    ultimately show ?thesis using True found [of w v] by blast
  qed (use assms eq in auto)
qed

text \<open>A program that is run: one more process, with its control block, its window and its kernel stack.\<close>

lemma run_program_stable:
  fixes s :: "'a sched_scheme"
  assumes st: "stable s" and few: "programs s < 6" and r: "run_program d args s = Inr (c, s')" and args: "length args < 1024"
    and c: "\<And>x. c \<noteq> Return x"
  shows "stable s' \<and> active_proc s' = active_proc s + 1 \<and> tss_esp0 s' = kstack_top (active_proc s') \<and>
    page_directory s' ! 32 = window_entry (active_proc s') \<and> iflag s' \<and> master_mask s' = master_mask s \<and> slave_mask s' = slave_mask s"
proof -
  let ?p = "active_proc s + 1"
  have ap: "0 \<le> ?p" "?p \<le> 5" using st few by (auto simp: stable_def counters_ok_def)
  then have p: "0 \<le> ?p" "?p < 510" by auto
  obtain s1 x s2 e where s1: "set_up_program_paging ?p (loading s) = Inr s1"
    and s2: "read_data (de_inode d) 0 0x08048000 0x400000 s1 = Inr (x, s2)"
    and s': "s' = sti ((create_pcb args s2)\<lparr>tss_esp0 := kstack_top (active_proc (create_pcb args s2))\<rparr>)"
    using r c unfolding run_program_def Let_def
    by (fastforce simp: loading_def [symmetric, unfolded Let_def] rbind_eq_Inr split: if_splits)
  have s1': "s1 = (loading s)\<lparr>page_directory := (page_directory s)[32 := window_entry ?p]\<rparr>"
    using s1 by (simp add: set_up_program_paging_eq [OF p] window_entry_def)
  obtain m where s2': "s2 = s1\<lparr>mem := m\<rparr>" using read_data_mem [OF s2] by blast
  have f2: "active_proc s2 = ?p" "pcbs s2 = pcbs s" "page_directory s2 = (page_directory s)[32 := window_entry ?p]"
    "master_mask s2 = master_mask s" "slave_mask s2 = slave_mask s"
    by (simp_all add: s2' s1')
  have "kbd_inv (loading s)"
    unfolding loading_def Let_def
    using st kbd_inv_cur [of s] by (intro kbd_inv_upd) (auto simp: stable_def kbd_inv_def cur_term_def term_ok_def screen_inv_def)
  then have k2: "kbd_inv s2" by (simp add: s2' s1' kbd_inv_def screen_inv_def)
  have "kbd_inv (create_pcb args s2)"
    unfolding create_pcb_eq Let_def
    using k2 kbd_inv_cur [of s2] by (intro kbd_inv_upd) (auto simp: kbd_inv_def cur_term_def term_ok_def screen_inv_def)
  then have k: "kbd_inv s'" by (simp add: s' kbd_inv_def screen_inv_def sti_def)
  have f: "active_proc s' = ?p" "pcbs s' = (pcbs s)(KSTACK_TO_PCB ?p := new_pcb args s2)"
    "page_directory s' = (page_directory s)[32 := window_entry ?p]" "tss_esp0 s' = kstack_top ?p" "iflag s'"
    "master_mask s' = master_mask s" "slave_mask s' = slave_mask s"
    by (simp_all add: s' create_pcb_eq Let_def upd_term_def sti_def f2)
  have new: "pcb_ok (new_pcb args s2)"
    using new_pcb_ok(1) [OF args, of s2] st ap by (simp add: f2 stable_def procs_ok_def)
  have "pcb_ok (pcbs s' (KSTACK_TO_PCB q))" if "0 \<le> q" "q \<le> ?p" for q
  proof (cases "q = ?p")
    case False
    then show ?thesis using that st new by (simp add: procs_ok_def stable_def f)
  qed (simp add: f new)
  moreover have "length (file_array (new_pcb args s2)) = 8" using new by (simp add: pcb_ok_def)
  ultimately have "procs_ok s'" using st by (simp add: procs_ok_def stable_def f)
  moreover have "dir_ok s'" using st dir_ok_upd [OF _ f(3)] by (simp add: stable_def)
  moreover have "counters_ok s'" using run_program_counters [OF _ few r] st by (simp add: stable_def)
  moreover have "page_directory s' ! 32 = window_entry ?p" using st f(3) by (simp add: stable_def dir_ok_def)
  ultimately show ?thesis using k f by (simp add: stable_def)
qed

text \<open>\<^verbatim>\<open>execute\<close> from user level: refused without effect on the processes, or a new program runs.\<close>

lemma irq_masks: "master_mask s' = master_mask s \<Longrightarrow> slave_mask s' = slave_mask s \<Longrightarrow> irq_delivered s' n = irq_delivered s n"
  by (simp add: irq_delivered_def)

definition lines_on :: "'a pic_scheme \<Rightarrow> bool" where
  "lines_on s \<longleftrightarrow> irq_delivered s 0 \<and> irq_delivered s 1 \<and> irq_delivered s 8"

lemma lines_on_masks: "master_mask s' = master_mask s \<Longrightarrow> slave_mask s' = slave_mask s \<Longrightarrow> lines_on s' = lines_on s"
  by (simp add: lines_on_def irq_masks [of s' s])

lemma execute_stable:
  fixes s :: "'a sched_scheme"
  assumes "execute command s = Inr (c, s')" and "stable s" and "lines_on s" and "\<And>x. c \<noteq> Return x"
  shows "stable s' \<and> at_user_level s' \<and> active_proc s' = active_proc s + 1"
proof -
  obtain d args m where r: "run_program d args (cli s\<lparr>mem := m\<rparr>) = Inr (c, s')" "length args < 1024" "programs s < 6"
    using execute_either [OF assms(1)] assms(4) by auto
  let ?t = "cli s\<lparr>mem := m\<rparr>"
  have "quiet s ?t" by (simp add: quiet_def)
  then have st: "stable ?t" using assms(2) by (rule quiet_stable)
  have few: "programs ?t < 6" using r(3) by (simp add: programs_def cli_def)
  have a: "active_proc ?t = active_proc s" "master_mask ?t = master_mask s" "slave_mask ?t = slave_mask s" by (simp_all add: cli_def)
  note run = run_program_stable [OF st few r(1,2) assms(4), unfolded a]
  then have "lines_on s'" using assms(3) lines_on_masks [of s' s] by simp
  moreover have "0 \<le> active_proc s'" using run assms(2) by (simp add: stable_def counters_ok_def)
  ultimately show ?thesis using run by (simp add: at_user_level_def lines_on_def)
qed

lemma halt_rest_stable:
  fixes s :: "'a sched_scheme"
  assumes r: "halt_rest a s = Inr (c, s')" and inv: "kbd_inv s" "dir_ok s" "procs_ok s"
    and ap: "0 \<le> active_proc s" "active_proc s < 510" and a: "get_pcb s = a" "pcb_ok (pcbs s a)"
  shows "c = ToExecRet \<and> kbd_inv s' \<and> dir_ok s' \<and> procs_ok s' \<and> active_proc s' = active_proc s \<and>
    process_counter s' = process_counter s \<and> tss_esp0 s' = kstack_top (active_proc s) \<and>
    page_directory s' ! 32 = window_entry (active_proc s) \<and>
    master_mask s' = master_mask s \<and> slave_mask s' = slave_mask s \<and>
    term_arr s' = (term_arr s)[unat (term_flag s) := (cur_term s)\<lparr>num_program := num_program (cur_term s) - 1\<rparr>] \<and>
    term_flag s' = term_flag s"
proof -
  define s0 where "s0 = (upd_term (\<lambda>t. t\<lparr>num_program := num_program t - 1\<rparr>) s)\<lparr>tss_esp0 := kstack_top (active_proc s)\<rparr>"
  define s1 where "s1 = s0\<lparr>page_directory := (page_directory s)[32 := window_entry (active_proc s)]\<rparr>"
  have ap0: "active_proc (upd_term f s) = active_proc s" for f by (simp add: upd_term_def)
  have p: "set_up_program_paging (active_proc s) s0 = Inr s1"
    using ap by (simp add: set_up_program_paging_eq window_entry_def s1_def s0_def upd_term_def)
  have cur: "get_pcb s1 = a" "cur_pcb s1 = pcbs s a"
    using a(1) by (simp_all add: s1_def s0_def get_pcb_def cur_pcb_def upd_term_def)
  obtain f where f: "close_all a [2..<8] s1 = upd_pcb f s1" "pcb_ok (f (pcbs s a))"
    using close_all_frame [of s1 "[2..<8]"] a(2) unfolding cur set_upt by blast
  define s2 where "s2 = upd_pcb f s1"
  have e: "active_proc s0 = active_proc s" by (simp add: s0_def upd_term_def)
  have "halt_rest a s = Inr (ToExecRet, s2\<lparr>ebp := pcb_ebp (pcbs s2 a), esp := pcb_esp (pcbs s2 a)\<rparr>)"
    unfolding halt_rest_def Let_def close_all_def [symmetric] ap0 s0_def [symmetric] e p rbind_Inr f(1) s2_def [symmetric] ..
  then have s': "c = ToExecRet" "s' = s2\<lparr>ebp := pcb_ebp (pcbs s2 a), esp := pcb_esp (pcbs s2 a)\<rparr>"
    using r by simp_all
  have "kbd_inv (upd_term (\<lambda>t. t\<lparr>num_program := num_program t - 1\<rparr>) s)"
    using inv(1) kbd_inv_cur [OF inv(1)] by (intro kbd_inv_upd) (auto simp: term_ok_def)
  then have "kbd_inv s'" by (simp add: s' s2_def s1_def s0_def upd_pcb_def kbd_inv_def screen_inv_def)
  moreover have pd: "page_directory s' = (page_directory s)[32 := window_entry (active_proc s)]"
    by (simp add: s' s2_def s1_def upd_pcb_def)
  then have "dir_ok s'" "page_directory s' ! 32 = window_entry (active_proc s)"
    using inv(2) dir_ok_upd [OF _ pd] by (simp_all add: dir_ok_def)
  moreover have "procs_ok s'"
    using inv(3) f(2) cur by (intro procs_ok_upd [of s s' a "f (pcbs s a)"]) (simp_all add: s' s2_def s1_def s0_def upd_pcb_def upd_term_def)
  ultimately show ?thesis
    by (simp add: s' s2_def s1_def s0_def upd_pcb_def upd_term_def cur_term_def)
qed

text \<open>\<^verbatim>\<open>halt\<close>: a fresh shell, or the way back to the parent.\<close>

definition has_parent :: "'a proc_scheme \<Rightarrow> bool" where
  "has_parent s \<longleftrightarrow> parent_process_ptr (pcbs s (KSTACK_TO_PCB (active_proc s))) \<noteq> 0 \<and> 1 \<le> active_proc s \<and> 1 < num_program (cur_term s)"

definition one_less :: "'a proc_scheme \<Rightarrow> 'a proc_scheme" where
  "one_less s = s\<lparr>active_proc := active_proc s - 1, process_counter := process_counter s - 1\<rparr>"

lemma one_less_fields [simp]:
  "active_proc (one_less s) = active_proc s - 1" "cur_term (one_less s) = cur_term s" "pcbs (one_less s) = pcbs s"
  "get_pcb (one_less s) = get_pcb s" "kbd_inv (one_less s) = kbd_inv s" "dir_ok (one_less s) = dir_ok s"
  "programs (one_less s) = programs s" "process_counter (one_less s) = process_counter s - 1"
  "term_arr (one_less s) = term_arr s" "term_flag (one_less s) = term_flag s"
  "master_mask (one_less s) = master_mask s" "slave_mask (one_less s) = slave_mask s"
  by (simp_all add: one_less_def cur_term_def get_pcb_def kbd_inv_def screen_inv_def dir_ok_def programs_def)

lemma one_less_counters:
  assumes "stable s" and "0 \<le> active_proc s"
  shows "stable (upd_term (\<lambda>t. t\<lparr>num_program := num_program t - 1\<rparr>) (one_less s))"
proof -
  let ?u = "upd_term (\<lambda>t. t\<lparr>num_program := num_program t - 1\<rparr>) (one_less s)"
  have len: "length (term_arr (one_less s)) = 3" "unat (term_flag (one_less s)) < 3"
    using assms(1) by (simp_all add: stable_def counters_ok_def)
  have "counters_ok ?u"
    using assms programs_upd [OF len, of "\<lambda>t. t\<lparr>num_program := num_program t - 1\<rparr>"] len
    by (auto simp: stable_def counters_ok_def) (auto simp: upd_term_def)
  moreover have "kbd_inv ?u"
    using assms(1) kbd_inv_cur [of s] by (intro kbd_inv_upd) (auto simp: stable_def term_ok_def)
  moreover have "procs_ok ?u" "dir_ok ?u"
    using assms(1) by (auto simp: stable_def procs_ok_def dir_ok_def upd_term_def one_less_def)
  ultimately show ?thesis by (simp add: stable_def)
qed

lemma halt_rest_exec_ret: "halt_rest a s = Inr (c, s') \<Longrightarrow> c = ToExecRet"
  unfolding halt_rest_def Let_def rbind_eq_Inr by blast

lemma halt_stable:
  fixes s :: "'a sched_scheme"
  assumes h: "halt st s = Inr (c, s')" and st: "stable s" and ap: "0 \<le> active_proc s" and lines: "lines_on s"
    and cur: "get_pcb s = KSTACK_TO_PCB (active_proc s)"
  shows "\<And>x. c \<noteq> Return x"
    and "c \<noteq> ToExecRet \<Longrightarrow> stable s' \<and> at_user_level s' \<and> active_proc s' = active_proc s"
    and "c = ToExecRet \<Longrightarrow> has_parent s \<Longrightarrow> stable s' \<and> at_user_level (sti s') \<and> active_proc s' = active_proc s - 1"
proof -
  let ?u = "upd_term (\<lambda>t. t\<lparr>num_program := num_program t - 1\<rparr>) (one_less s)" and ?a = "get_pcb s"
  let ?restart = "parent_process_ptr (pcbs s ?a) = 0 \<or> active_proc s - 1 = -1 \<or> num_program (cur_term s) \<le> 1"
  have eq: "halt st s = (if ?restart then rbind (execute (lit ''shell'') ?u) (\<lambda>(c, s). case c of Return _ \<Rightarrow> halt_rest ?a s | _ \<Rightarrow> Inr (c, s))
      else halt_rest ?a (one_less s))"
    by (simp add: halt_def Let_def one_less_def [symmetric])
  have cases: "halt_rest ?a w = Inr (c, s') \<Longrightarrow> c = ToExecRet" for w using halt_rest_exec_ret .
  have restart: "c = ToExecRet \<or> ?restart \<and> execute (lit ''shell'') ?u = Inr (c, s') \<and> (\<forall>x. c \<noteq> Return x)"
  proof (cases ?restart)
    case True
    then obtain d v where d: "execute (lit ''shell'') ?u = Inr (d, v)" "(case d of Return _ \<Rightarrow> halt_rest ?a v | _ \<Rightarrow> Inr (d, v)) = Inr (c, s')"
      using h unfolding eq by (auto simp: rbind_eq_Inr)
    with True cases [of v] show ?thesis by (cases d) auto
  next
    case False
    then show ?thesis using h cases [of "one_less s"] unfolding eq by simp
  qed
  then show "c \<noteq> Return x" for x by auto
  show "stable s' \<and> at_user_level s' \<and> active_proc s' = active_proc s" if c: "c \<noteq> ToExecRet"
  proof -
    have d: "execute (lit ''shell'') ?u = Inr (c, s')" "\<And>x. c \<noteq> Return x" using restart c by auto
    moreover have "lines_on ?u" using lines lines_on_masks [of ?u s] by (simp add: upd_term_def)
    moreover have "active_proc ?u = active_proc s - 1" by (simp add: upd_term_def)
    ultimately show ?thesis using execute_stable [OF d(1) one_less_counters [OF st ap] _ d(2)] by simp
  qed
  show "stable s' \<and> at_user_level (sti s') \<and> active_proc s' = active_proc s - 1" if c: "c = ToExecRet" and par: "has_parent s"
  proof -
    have "\<not> ?restart" using par cur by (auto simp: has_parent_def)
    then have r: "halt_rest ?a (one_less s) = Inr (c, s')" using h unfolding eq by simp
    have pre: "kbd_inv (one_less s)" "dir_ok (one_less s)" "procs_ok (one_less s)" "pcb_ok (pcbs (one_less s) ?a)"
      "0 \<le> active_proc (one_less s)" "active_proc (one_less s) < 510"
      using st ap cur par by (auto simp: stable_def procs_ok_def has_parent_def counters_ok_def)
    note hr = halt_rest_stable [OF r pre(1-3,5,6) one_less_fields(4) pre(4)]
    have len: "length (term_arr s) = 3" "unat (term_flag s) < 3" using st by (simp_all add: stable_def counters_ok_def)
    have "programs s' = programs ?u"
      using hr by (simp add: programs_def upd_term_def)
    then have "counters_ok s'"
      using one_less_counters [OF st ap] hr by (simp add: stable_def counters_ok_def) (simp add: upd_term_def)
    moreover have "lines_on (sti s')" using hr lines lines_on_masks [of "sti s'" s] by (simp add: sti_def)
    ultimately show ?thesis using hr pre(5) by (simp add: stable_def at_user_level_def lines_on_def) (simp add: sti_def)
  qed
qed

end
