(* ===== verification/Machine.thy ===== *)
theory Machine
  imports System
begin

text \<open>
  The running machine: user level interrupted by the timer, the clock, the keyboard and its own system calls, in any order. A
  step is a handler run to its end, a system call, or a store of the running program. The invariant \<open>machine_ok\<close> of
  the reachable states gives what the kernel promises: isolation of the programs, typed descriptors, interrupts that
  are served, and at most six programs.
\<close>

section \<open>The machine\<close>

text \<open>
  A step of the machine at user level: an interrupt on a delivered line, a system call of the running program that comes
  back, starts a program or ends the running one, or a store of the program. A call that faults, and so ends in an
  exception handler, is no step. Two ways a call can go wrong without a fault are left out: \<^verbatim>\<open>execute\<close> that
  returns after it has counted the new program (a file with a block number out of range), and \<^verbatim>\<open>halt\<close>
  of a program without parent whose new shell does not start (theory \<open>Failures\<close>).
\<close>

inductive machine_step :: "'a sched_scheme \<Rightarrow> 'a sched_scheme \<Rightarrow> bool" where
  timer: "iflag s \<Longrightarrow> irq_delivered s 0 \<Longrightarrow> pit_wrapper s = Inr s' \<Longrightarrow> machine_step s s'"
| keyboard: "iflag s \<Longrightarrow> irq_delivered s 1 \<Longrightarrow> kbd_wrapper s = Inr s' \<Longrightarrow> machine_step s s'"
| clock: "iflag s \<Longrightarrow> irq_delivered s 8 \<Longrightarrow> rtc_wrapper s = Inr s' \<Longrightarrow> machine_step s s'"
| call_returns: "set interrupts \<subseteq> wrappers \<Longrightarrow> syscall_asm_linkage interrupts eax ebx ecx edx s = Inr (Return r, s') \<Longrightarrow>
    active_proc s' = active_proc s \<Longrightarrow> machine_step s s'"
| call_starts: "set interrupts \<subseteq> wrappers \<Longrightarrow> syscall_asm_linkage interrupts eax ebx ecx edx s = Inr (ToUser pc sp, s') \<Longrightarrow>
    machine_step s s'"
| call_ends: "set interrupts \<subseteq> wrappers \<Longrightarrow> syscall_asm_linkage interrupts eax ebx ecx edx s = Inr (ToExecRet, s') \<Longrightarrow>
    has_parent s \<Longrightarrow> machine_step s (sti s')"
| store: "mmu True True s va = Inr pa \<Longrightarrow> machine_step s (s\<lparr>mem := (mem s)(pa := b)\<rparr>)"

inductive reachable :: "'a sched_scheme \<Rightarrow> 'a sched_scheme \<Rightarrow> bool" for s0 where
  start: "reachable s0 s0"
| step: "reachable s0 s \<Longrightarrow> machine_step s s' \<Longrightarrow> reachable s0 s'"

lemma stable_counters: "stable s \<Longrightarrow> counters_ok s"
  by (simp add: stable_def)

text \<open>The state a system call starts in.\<close>

definition in_call :: "'a proc_scheme \<Rightarrow> 'a proc_scheme" where
  "in_call s = s\<lparr>esp := tss_esp0 s - 48\<rparr>"

lemma in_call_fields [simp]:
  "active_proc (in_call s) = active_proc s" "pcbs (in_call s) = pcbs s" "page_directory (in_call s) = page_directory s"
  "master_mask (in_call s) = master_mask s" "slave_mask (in_call s) = slave_mask s" "tss_esp0 (in_call s) = tss_esp0 s"
  "stable (in_call s) = stable s" "lines_on (in_call s) = lines_on s" "cur_term (in_call s) = cur_term s"
  "map num_program (term_arr (in_call s)) = map num_program (term_arr s)" "process_counter (in_call s) = process_counter s"
  by (simp_all add: in_call_def stable_def kbd_inv_def screen_inv_def counters_ok_def programs_def procs_ok_def dir_ok_def
      lines_on_def irq_delivered_def cur_term_def)

lemma machine_okD:
  assumes "machine_ok s"
  shows "stable s" "0 \<le> active_proc s" "active_proc s \<le> 5" "lines_on s" "iflag s" "tss_esp0 s = kstack_top (active_proc s)"
    "page_directory s ! 32 = window_entry (active_proc s)"
    "get_pcb (in_call s) = KSTACK_TO_PCB (active_proc s)" "pcb_ok (cur_pcb (in_call s))"
proof -
  show ok: "stable s" "0 \<le> active_proc s" "active_proc s \<le> 5" "lines_on s" "iflag s" "tss_esp0 s = kstack_top (active_proc s)"
    "page_directory s ! 32 = window_entry (active_proc s)"
    using assms by (simp_all add: machine_ok_def at_user_level_def lines_on_def stable_def counters_ok_def)
  then show g: "get_pcb (in_call s) = KSTACK_TO_PCB (active_proc s)"
    using stack_block [of "active_proc s" 48] by (simp add: get_pcb_def in_call_def)
  then show "pcb_ok (cur_pcb (in_call s))" using ok by (simp add: cur_pcb_def stable_def procs_ok_def)
qed

lemma machine_okI:
  assumes "stable s" and "0 \<le> active_proc s" and "lines_on s" and "iflag s" and "tss_esp0 s = kstack_top (active_proc s)"
    and "page_directory s ! 32 = window_entry (active_proc s)"
  shows "machine_ok s"
  using assms by (simp add: machine_ok_def at_user_level_def lines_on_def)

lemma quiet_machine_ok:
  assumes "quiet s s'" and "machine_ok s" and "iflag s'"
  shows "machine_ok s'"
proof -
  note q = quiet_stable [OF assms(1) machine_okD(1) [OF assms(2)]]
  have "lines_on s'" using q(2) machine_okD(4) [OF assms(2)] lines_on_masks [of s' s] by (simp add: others_def)
  then show ?thesis using q machine_okD(2,6,7) [OF assms(2)] assms(3) by (intro machine_okI) (simp_all add: others_def)
qed

text \<open>The calls that only come back.\<close>

lemma linkage_returns:
  assumes hs: "set interrupts \<subseteq> wrappers" and l: "syscall_asm_linkage interrupts eax ebx ecx edx s = Inr (Return r, s')"
    and st: "stable s" and h: "\<And>t. halt (ucast ebx) (in_call s) \<noteq> Inr (Return r, t)" and ap: "active_proc s' = active_proc s"
  shows "\<exists>t. own_effect (in_call s) t \<and> s' = t\<lparr>iflag := iflag s\<rparr>"
proof -
  let ?s = "in_call s"
  let ?ret = "\<lambda>(r :: int, s :: 'a sched_scheme). Inr (Return r, s) :: (control \<times> 'a sched_scheme) res"
  obtain c t where t: "(if sint eax < 1 \<or> sint eax > 8 then Inr (Return (-1), ?s)
                else if eax = 1 then halt (ucast ebx) ?s
                else if eax = 2 then execute (Ptr ebx) ?s
                else if eax = 3 then rbind (sys_read interrupts (sint ebx) ecx (sint edx) ?s) ?ret
                else if eax = 4 then rbind (sys_write (sint ebx) ecx (sint edx) ?s) ?ret
                else if eax = 5 then rbind (sys_open (Ptr ebx) ?s) ?ret
                else if eax = 6 then ?ret (sys_close (sint ebx) ?s)
                else if eax = 7 then rbind (getargs ebx (sint ecx) ?s) ?ret
                else rbind (vidmap ebx ?s) ?ret) = Inr (c, t)" and "iret (iflag s) (c, t) = (Return r, s')"
    using l unfolding syscall_asm_linkage_def Let_def in_call_def [symmetric] by (auto simp: rbind_eq_Inr)
  then have c: "c = Return r" "s' = t\<lparr>iflag := iflag s\<rparr>" by (simp_all add: iret_def split: control.splits)
  have "own_effect ?s t"
  proof (cases "eax = 2")
    case True
    then have e: "execute (Ptr ebx) ?s = Inr (Return r, t)" using t c(1) by simp
    have "active_proc t = active_proc s" using c(2) ap by simp
    have "run_program d args (cli ?s\<lparr>mem := m\<rparr>) \<noteq> Inr (Return r, t)" if few: "programs ?s < 6" for d args m
    proof
      assume r: "run_program d args (cli ?s\<lparr>mem := m\<rparr>) = Inr (Return r, t)"
      have "quiet ?s (cli ?s\<lparr>mem := m\<rparr>)" by (simp add: quiet_def)
      moreover have "stable ?s" using st by simp
      ultimately have "counters_ok (cli ?s\<lparr>mem := m\<rparr>)" by (rule stable_counters [OF quiet_stable(1)])
      moreover have "programs (cli ?s\<lparr>mem := m\<rparr>) < 6" using few by (simp add: programs_def cli_def)
      ultimately have "active_proc t = active_proc (cli ?s\<lparr>mem := m\<rparr>) + 1" using run_program_counters r by blast
      with \<open>active_proc t = active_proc s\<close> show False by (simp add: cli_def)
    qed
    then have "quiet ?s t" using execute_either [OF e] by blast
    then show ?thesis by (rule own_effect_quiet)
  next
    case False
    then show ?thesis
      using t c(1) h own_effect_quiet [OF quiet_refl, of ?s] own_effect_close [of ?s "sint ebx"]
      by (auto simp: rbind_eq_Inr split_beta split: if_splits
          dest: own_effect_read [OF hs] own_effect_write own_effect_open own_effect_getargs own_effect_vidmap)
  qed
  with c(2) show ?thesis by blast
qed

lemma linkage_leaves:
  assumes "syscall_asm_linkage interrupts eax ebx ecx edx s = Inr (c, s')" and "\<And>r. c \<noteq> Return r"
  shows "halt (ucast ebx) (in_call s) = Inr (c, s') \<or> execute (Ptr ebx) (in_call s) = Inr (c, s')"
proof -
  obtain d t where t: "(if sint eax < 1 \<or> sint eax > 8 then Inr (Return (-1), in_call s)
                else if eax = 1 then halt (ucast ebx) (in_call s)
                else if eax = 2 then execute (Ptr ebx) (in_call s)
                else if eax = 3 then rbind (sys_read interrupts (sint ebx) ecx (sint edx) (in_call s)) (\<lambda>(r, s). Inr (Return r, s))
                else if eax = 4 then rbind (sys_write (sint ebx) ecx (sint edx) (in_call s)) (\<lambda>(r, s). Inr (Return r, s))
                else if eax = 5 then rbind (sys_open (Ptr ebx) (in_call s)) (\<lambda>(r, s). Inr (Return r, s))
                else if eax = 6 then (\<lambda>(r, s). Inr (Return r, s)) (sys_close (sint ebx) (in_call s))
                else if eax = 7 then rbind (getargs ebx (sint ecx) (in_call s)) (\<lambda>(r, s). Inr (Return r, s))
                else rbind (vidmap ebx (in_call s)) (\<lambda>(r, s). Inr (Return r, s))) = Inr (d, t)" and "iret (iflag s) (d, t) = (c, s')"
    using assms(1) unfolding syscall_asm_linkage_def Let_def in_call_def [symmetric] by (auto simp: rbind_eq_Inr)
  then have "d = c" "t = s'" using assms(2) by (auto simp: iret_def split: control.splits)
  then show ?thesis using t assms(2) by (auto simp: rbind_eq_Inr split_beta split: if_splits)
qed

text \<open>The calls that leave their caller.\<close>

lemma call_starts_ok:
  fixes s s' :: "'a sched_scheme"
  assumes l: "syscall_asm_linkage interrupts eax ebx ecx edx s = Inr (ToUser pc sp, s')" and ok: "machine_ok s"
  shows "machine_ok s' \<and> (active_proc s' = active_proc s \<or> active_proc s' = active_proc s + 1)"
proof -
  note D = machine_okD [OF ok]
  consider "halt (ucast ebx) (in_call s) = Inr (ToUser pc sp, s')" | "execute (Ptr ebx) (in_call s) = Inr (ToUser pc sp, s')"
    using linkage_leaves [OF l] by auto
  then show ?thesis
  proof cases
    case 1
    from halt_stable(2) [OF 1] D show ?thesis by (simp add: machine_ok_def)
  next
    case 2
    from execute_stable [OF 2] D show ?thesis by (simp add: machine_ok_def)
  qed
qed

lemma call_ends_ok:
  fixes s t :: "'a sched_scheme"
  assumes l: "syscall_asm_linkage interrupts eax ebx ecx edx s = Inr (ToExecRet, t)" and ok: "machine_ok s" and "has_parent s"
  shows "machine_ok (sti t) \<and> active_proc (sti t) = active_proc s - 1"
proof -
  note D = machine_okD [OF ok]
  have par: "has_parent (in_call s)" using assms(3) by (simp add: has_parent_def)
  have "execute (Ptr ebx) (in_call s) \<noteq> Inr (ToExecRet, t)"
    using execute_counters [of "in_call s" "Ptr ebx" ToExecRet t] stable_counters [of "in_call s"] D(1) by auto
  then have "halt (ucast ebx) (in_call s) = Inr (ToExecRet, t)" using linkage_leaves [OF l] by simp
  from halt_stable(3) [OF this] D par have h: "stable t" "at_user_level (sti t)" "active_proc t = active_proc s - 1" by simp_all
  have "stable (sti t)" using h(1) by (simp add: stable_def sti_def kbd_inv_def screen_inv_def counters_ok_def programs_def procs_ok_def dir_ok_def)
  then show ?thesis using h(2,3) by (simp add: machine_ok_def) (simp add: sti_def)
qed

text \<open>Every step keeps the invariant.\<close>

lemma machine_step_ok:
  fixes s s' :: "'a sched_scheme"
  assumes "machine_step s s'" and ok: "machine_ok s"
  shows "machine_ok s'"
  using assms(1)
proof cases
  case timer
  then show ?thesis using wrappers_quiet [of pit_wrapper s s'] quiet_machine_ok [OF _ ok] by (simp add: wrappers_def)
next
  case keyboard
  then show ?thesis using wrappers_quiet [of kbd_wrapper s s'] quiet_machine_ok [OF _ ok] by (simp add: wrappers_def)
next
  case clock
  then show ?thesis using wrappers_quiet [of rtc_wrapper s s'] quiet_machine_ok [OF _ ok] by (simp add: wrappers_def)
next
  case (call_returns interrupts eax ebx ecx edx r)
  note D = machine_okD [OF ok]
  have "halt (ucast ebx) (in_call s) \<noteq> Inr (Return r, t)" for t
    using halt_stable(1) [of "ucast ebx" "in_call s" "Return r" t] D by auto
  then obtain t where t: "own_effect (in_call s) t" "s' = t\<lparr>iflag := iflag s\<rparr>"
    using linkage_returns [OF call_returns(1,2) D(1) _ call_returns(3)] by blast
  have e: "stable t" "others t = others (in_call s)" "page_directory t ! 32 = page_directory s ! 32"
    using own_effect_stable [OF t(1)] D(1,9) by simp_all
  have st: "stable s'"
    using e(1) by (simp add: t(2) stable_def kbd_inv_def screen_inv_def counters_ok_def programs_def procs_ok_def dir_ok_def)
  have "lines_on s'" using D(4) e(2) lines_on_masks [of s' s] by (simp add: t(2) others_def)
  then show ?thesis using st D(2,5-7) e(2,3) by (intro machine_okI) (simp_all add: t(2) others_def)
next
  case (call_starts interrupts eax ebx ecx edx pc sp)
  then show ?thesis using call_starts_ok [OF _ ok] by blast
next
  case (call_ends interrupts eax ebx ecx edx t)
  then show ?thesis using call_ends_ok [OF _ ok] by blast
next
  case (store va pa b)
  then show ?thesis using quiet_machine_ok [OF quiet_mem ok, of "(mem s)(pa := b)"] machine_okD(5) [OF ok] by simp
qed

lemma reachable_ok: "reachable s0 s \<Longrightarrow> machine_ok s0 \<Longrightarrow> machine_ok s"
  by (induction rule: reachable.induct) (auto intro: machine_step_ok)

section \<open>Consequences\<close>

lemma machine_kernel_mapped:
  assumes "machine_ok s"
  shows "kernel_mapped s"
  unfolding kernel_mapped_def
proof (intro allI impI)
  fix va :: u32 and w
  assume "unat va div 0x400000 = 1"
  moreover have "page_directory s ! 1 = 0x400083" using machine_okD(1) [OF assms] by (simp add: stable_def dir_ok_def)
  ultimately show "mmu False w s va = Inr va" using kernel_page_entry by (simp add: mmu_def drop_bit_22_eq)
qed

lemma machine_user_access:
  assumes ok: "machine_ok s" and m: "mmu True w s va = Inr pa"
  shows "unat va div 0x400000 = 34 \<or>
    unat va div 0x400000 = 32 \<and> unat pa = 0x400000 * (nat (active_proc s) + 1) + unat va mod 0x400000"
proof -
  note D = machine_okD [OF ok]
  let ?i = "unat va div 0x400000"
  have "entry_ok True w (page_directory s ! ?i)" using m by (auto simp: mmu_def Let_def drop_bit_22_eq split: if_splits)
  then have "bit (page_directory s ! ?i) 2" by (simp add: entry_ok_def)
  then have i: "?i = 32 \<or> ?i = 34" using D(1) pd_index_bound [of va] unfolding stable_def dir_ok_def by blast
  have k: "nat (active_proc s) + 1 < 1024" using D(3) by simp
  have "unat pa = 0x400000 * (nat (active_proc s) + 1) + unat va mod 0x400000" if "?i = 32"
  proof -
    have "mmu True w s va = Inr (frame_of 22 (window_entry (active_proc s)) va)"
      using that D(7) program_entry(1,2) [OF k] by (simp add: mmu_def Let_def drop_bit_22_eq window_entry_def)
    then show ?thesis using m frame_of_22 [OF program_entry(3) [OF k] k, of va] by (simp add: window_entry_def)
  qed
  with i show ?thesis by blast
qed

text \<open>
  The video region, once \<^verbatim>\<open>vidmap\<close> has opened it, is not confined to the video page: a terminal switch puts the first
  word \<open>w\<close> of the old terminal's saved text, not an address, into the table, so user level can access the physical page that
  word happens to name.
\<close>

lemma switched_terminal_page:
  assumes "tables_ok s" and "page_directory s ! 34 = sym s Sym_vid_page_table OR 0x17" and "old_flag \<noteq> new_flag"
    and "unat va div 4096 = 34 * 1024 + unat old_flag"
  shows "mmu True True (map_term new_flag old_flag w s) va = Inr (frame_of 12 (w OR 7) va)"
proof -
  have al: "take_bit 12 (sym s Sym_vid_page_table) = 0" "sym s Sym_page_table \<noteq> sym s Sym_vid_page_table"
    "length (vid_page_table s) = 1024"
    using assms(1) by (simp_all add: tables_ok_def linked_def)
  have o: "unat old_flag < 256" "unat new_flag < 256" "unat old_flag \<noteq> unat new_flag" using assms(3) unsigned_less [of old_flag] unsigned_less [of new_flag] by (auto simp: word_unat_eq_iff)
  have k: "(34 * 1024 + n) div 1024 = 34" "(34 * 1024 + n) mod 1024 = n" if "n < 256" for n :: nat
    using that div_mult_self3 [of 1024 34 n] mod_mult_self3 [of 34 1024 n] by simp_all
  have i: "unat va div 0x400000 = 34" "unat va div 4096 mod 1024 = unat old_flag"
    using div_mult2_eq [of "unat va" 4096 1024] unfolding assms(4) k [OF o(1)] by simp_all
  have e: "entry_ok True True (w OR 7)" by (simp add: entry_ok_def bit_or_iff)
  let ?t = "map_term new_flag old_flag w s"
  have t: "page_directory ?t ! 34 = sym s Sym_vid_page_table OR 0x17" "sym ?t = sym s" "vid_page_table ?t ! unat old_flag = w OR 7"
    using o al(3) assms(2) by (simp_all add: map_term_def load_cr3_def Let_def)
  have "table_entry ?t (sym s Sym_vid_page_table) (unat old_flag) = w OR 7"
    using al(2) by (simp add: table_entry_def t)
  with e show ?thesis
    unfolding mmu_def Let_def drop_bit_22_eq pt_index i t(1) entry_ok_flags(9) [OF al(1)] using entry_ok_flags(3,6) [OF al(1)] by simp
qed

text \<open>The timer can always interrupt.\<close>

lemma machine_timer:
  assumes "machine_ok s"
  shows "\<exists>s'. pit_wrapper s = Inr s' \<and> machine_step s s'"
  using wrappers_complete [of pit_wrapper s] machine_okD [OF assms] machine_step.timer [of s]
  by (auto simp: wrappers_def stable_def lines_on_def)

text \<open>A program that waits for the clock goes on when the clock interrupts.\<close>

lemma clock_wait_ends:
  assumes "kbd_inv s" and "set hs \<subseteq> wrappers" and "rtc_wrapper \<in> set hs"
  shows "\<exists>s'. rtc_read hs fd buf nbytes s = Inr (0, s')"
proof -
  have "next_interrupt t' \<noteq> 0" if "rtc_wrapper t = Inr t'" for t t' :: "'a sched_scheme"
    using that rtc_handler_ready [of t] by (auto simp: rtc_wrapper_def irq_wrapper_def)
  then show ?thesis
    using irq.wait_ends [of rtc_wrapper "\<lambda>s. next_interrupt s \<noteq> 0" hs "s\<lparr>next_interrupt := 0\<rparr>"] assms
    by (auto simp: rtc_read_def)
qed

text \<open>How the number of processes moves.\<close>

lemma machine_step_active:
  fixes s s' :: "'a sched_scheme"
  assumes "machine_step s s'" and ok: "machine_ok s"
  shows "active_proc s' = active_proc s \<or> active_proc s' = active_proc s + 1 \<or> active_proc s' = active_proc s - 1"
  using assms(1)
proof cases
  case (call_starts interrupts eax ebx ecx edx pc sp)
  then show ?thesis using call_starts_ok [OF _ ok] by blast
next
  case (call_ends interrupts eax ebx ecx edx t)
  then show ?thesis using call_ends_ok [OF _ ok] by blast
qed (use ok in \<open>auto dest!: wrappers_quiet(1) [rotated] quiet_stable(2) simp: wrappers_def others_def machine_okD\<close>)

section \<open>The specification of process life\<close>

text \<open>The specification: between one and six programs run; a step starts one, ends one, or leaves their number alone.\<close>

inductive process_life :: "int \<Rightarrow> int \<Rightarrow> bool" where
  runs: "1 \<le> n \<Longrightarrow> n \<le> 6 \<Longrightarrow> process_life n n"
| starts: "1 \<le> n \<Longrightarrow> n < 6 \<Longrightarrow> process_life n (n + 1)"
| ends: "1 < n \<Longrightarrow> n \<le> 6 \<Longrightarrow> process_life n (n - 1)"

inductive_simps process_life_iff: "process_life n m"

lemma machine_programs: "machine_ok s \<Longrightarrow> programs s = active_proc s + 1 \<and> 1 \<le> programs s \<and> programs s \<le> 6"
  using machine_okD(1-3) [of s] by (simp add: stable_def counters_ok_def)

lemma machine_step_life:
  fixes s s' :: "'a sched_scheme"
  assumes "machine_step s s'" and "machine_ok s"
  shows "process_life (programs s) (programs s')"
proof -
  have m: "machine_ok s'" using assms by (rule machine_step_ok)
  have "programs s' = programs s \<or> programs s' = programs s + 1 \<or> programs s' = programs s - 1"
    using machine_step_active [OF assms] machine_programs [OF m] machine_programs [OF assms(2)] by auto
  then show ?thesis
    using machine_programs [OF m] machine_programs [OF assms(2)] by (auto simp: process_life_iff)
qed

text \<open>A program that is started by a system call, and ends with its first one.\<close>

lemma program_starts_and_ends:
  fixes s :: "'a sched_scheme"
  assumes ok: "machine_ok s" and st: "startable (Ptr cmd) args b L (in_call s)"
    and tp: "term_pcb (cur_term s) \<noteq> 0" "1 \<le> num_program (cur_term s)"
  shows "\<exists>s' s''. machine_step s s' \<and> machine_step s' s'' \<and> programs s' = programs s + 1 \<and> active_proc s' = active_proc s + 1 \<and>
    rd (mem s') (image_base (active_proc s')) L = map (file_byte s b) [0..<L] \<and>
    programs s'' = programs s \<and> active_proc s'' = active_proc s \<and>
    (\<forall>a. a \<noteq> KSTACK_TO_PCB (active_proc s + 1) \<longrightarrow> pcbs s'' a = pcbs s a)"
proof -
  note D = machine_okD [OF ok]
  obtain s' where e: "execute (Ptr cmd) (in_call s) = Inr (ToUser (le32 (map (file_byte (in_call s) b) [24..<28])) 0x83FFFFC, s')"
    and started: "started args b L (in_call s) s'" using execute_startable [OF st] by blast
  have terms: "length (term_arr s) = 3" "unat (term_flag s) < 3" using D(1) by (simp_all add: stable_def counters_ok_def)
  have f: "active_proc s' = active_proc s + 1" "parent_process_ptr (pcbs s' (KSTACK_TO_PCB (active_proc s + 1))) = term_pcb (cur_term s)"
    "term_flag s' = term_flag (in_call s)"
    "term_arr s' = (term_arr (in_call s))[unat (term_flag (in_call s)) :=
       (cur_term s)\<lparr>num_program := num_program (cur_term s) + 1, term_pcb := KSTACK_TO_PCB (active_proc s + 1)\<rparr>]"
    "rd (mem s') (image_base (active_proc s + 1)) L = map (file_byte (in_call s) b) [0..<L]"
    using started by (simp_all add: started_def Let_def)
  have "syscall_asm_linkage [] 2 cmd 0 0 s = Inr (ToUser (le32 (map (file_byte (in_call s) b) [24..<28])) 0x83FFFFC, s')"
    using e by (simp add: syscall_asm_linkage_def Let_def in_call_def [symmetric] iret_def)
  then have step: "machine_step s s'" using machine_step.call_starts [of "[]"] by simp
  have ok': "machine_ok s'" using machine_step_ok [OF step ok] .
  have "cur_term s' = (cur_term s)\<lparr>num_program := num_program (cur_term s) + 1, term_pcb := KSTACK_TO_PCB (active_proc s + 1)\<rparr>"
    using terms by (simp add: cur_term_def f(3,4)) (simp add: in_call_def cur_term_def)
  then have par: "has_parent s'" using f(1,2) tp D(2) by (simp add: has_parent_def)
  have pre: "0 \<le> active_proc (in_call s)" "term_pcb (cur_term (in_call s)) \<noteq> 0" "1 \<le> num_program (cur_term (in_call s))"
    using D(2) tp by simp_all
  obtain t where h: "syscall_asm_linkage [] 1 0 0 0 s' = Inr (ToExecRet, t)" "active_proc t = active_proc s" "programs t = programs (in_call s)"
    "\<forall>a. a \<noteq> KSTACK_TO_PCB (active_proc s + 1) \<longrightarrow> pcbs t a = pcbs s a"
    using execute_then_halt [OF st e pre, of "[]" 0 0 0 True] by auto
  have "machine_step s' (sti t)" using machine_step.call_ends [OF _ h(1) par] by simp
  moreover have "programs s' = programs s + 1" using machine_programs [OF ok] machine_programs [OF ok'] f(1) by simp
  moreover have "active_proc (sti t) = active_proc s" "programs (sti t) = programs s" "pcbs (sti t) = pcbs t"
    using h(2,3) by (simp_all add: sti_def programs_def in_call_def)
  moreover have "file_byte (in_call s) b = file_byte s b" by (intro ext) (simp add: file_byte_def block_addr_def in_call_def)
  ultimately show ?thesis using step f(1,5) h(4) by (intro exI [of _ s'] exI [of _ "sti t"]) simp
qed

section \<open>A machine\<close>

text \<open>The shell of \<open>shell_state\<close> at user level, with a command in its memory.\<close>

definition run_state :: sched where
  "run_state = proc.extend
     (shell_state\<lparr>mem := wr exec_mem 0x449000 (bytes ''shell a'' @ [0]),
        page_directory := (page_directory shell_state)[32 := window_entry 0], master_mask := 0, slave_mask := 0, iflag := True\<rparr>)
     \<lparr>pit_counter = 0, curr_exec_term = 0, next_exec_term = 0\<rparr>"

lemma run_state_fields:
  "term_arr run_state = term_arr shell_state" "term_flag run_state = 0" "active_proc run_state = 0" "process_counter run_state = 1"
  "pcbs run_state = (\<lambda>_. reset_pcb)" "tss_esp0 run_state = kstack_top 0" "iflag run_state" "master_mask run_state = 0"
  "slave_mask run_state = 0" "page_directory run_state = (page_directory shell_state)[32 := window_entry 0]"
  "screen_x run_state = screen_x shell_state" "screen_y run_state = screen_y shell_state"
  by (simp_all add: run_state_def proc.defs shell_state_fields)

lemma shell_state_directory: "page_directory shell_state = (replicate 1024 2)[0 := 0x402003, 1 := 0x400083]"
  "screen_x shell_state = 0" "screen_y shell_state = 0"
  by (simp_all add: shell_state_def reset_proc_def kbd.defs reset_kbd_def fs.defs reset_fs_def)

lemma run_state_ok: "machine_ok run_state"
proof (rule machine_okI)
  have "kbd_inv run_state"
    using reset_term_ok by (simp add: kbd_inv_def screen_inv_def run_state_fields shell_state_fields shell_state_directory term_ok_def)
  moreover have "counters_ok run_state"
    using shell_programs(2) by (simp add: counters_ok_def programs_def run_state_fields shell_state_fields)
  moreover have "procs_ok run_state" using reset_pcb_ok(1) by (simp add: procs_ok_def run_state_fields pcb_ok_def)
  moreover have "dir_ok run_state"
    by (auto simp: dir_ok_def run_state_fields shell_state_directory nth_list_update)
  ultimately show "stable run_state" by (simp add: stable_def)
  show "lines_on run_state" by (simp add: lines_on_def irq_delivered_def run_state_fields)
qed (simp_all add: run_state_fields shell_state_directory)

text \<open>The command is read through the window, and its program file is the one of \<open>shell_state\<close>.\<close>

lemma run_state_more:
  "mem run_state = wr exec_mem 0x449000 (bytes ''shell a'' @ [0])" "boot_block run_state = image_boot_block"
  "inode_addr run_state = 0x501000" "data_block_addr run_state = 0x502000" "probe_off run_state = -64"
  "tss_esp0 run_state - 48 = 0x7FDFCC"
  by (simp_all add: run_state_def proc.defs shell_state_fields kstack_top_def)

lemma run_state_mem: "\<not> (0x449000 \<le> unat x \<and> unat x < 0x449008) \<Longrightarrow> mem run_state x = exec_mem x"
  unfolding run_state_more by (rule wr_outside) (auto simp: in_range_def bytes_def unat_sub_if' word_le_nat_alt)

lemma run_state_command:
  assumes "i < 8"
  shows "vread (in_call run_state) (0x08049000 + of_nat i) = Inr ((bytes ''shell a'' @ [0]) ! i)"
proof -
  have "\<forall>i \<in> set [0..<8]. vread (in_call run_state) (0x08049000 + of_nat i) = Inr ((bytes ''shell a'' @ [0]) ! i)"
    by (simp add: upt_rec vread_def mmu_def in_call_def run_state_more run_state_fields shell_state_directory window_entry_def
        entry_ok_def frame_of_def wr_def bytes_def)
  with assms show ?thesis by simp
qed

lemma run_state_parse:
  "parse_word (in_call run_state) (Ptr 0x08049000) 0 = Inr (bytes ''shell'', 5)"
  "parse_word (in_call run_state) (Ptr 0x08049000) 6 = Inr (bytes ''a'', 7)"
  using run_state_command [of 0] run_state_command [of 1] run_state_command [of 2] run_state_command [of 3]
    run_state_command [of 4] run_state_command [of 5] run_state_command [of 6] run_state_command [of 7]
  by (simp_all add: parse_word.simps vfetch_def bytes_def)

lemma run_state_file: "program_file (in_call run_state) 0 exec_inode 100"
proof -
  let ?s = "in_call run_state"
  have f: "boot_block ?s = image_boot_block" "inode_addr ?s = 0x501000" "data_block_addr ?s = 0x502000" "active_proc ?s = 0"
    "probe_off ?s = -64" "esp ?s = 0x7FDFCC" "mem ?s = mem run_state"
    using run_state_more run_state_fields by (simp_all add: in_call_def)
  have rd: "rd (mem run_state) a n = rd exec_mem a n" if "0x501000 \<le> unat a" "unat a + n \<le> 0x600000" for a n
  proof (rule rd_cong)
    fix i :: nat
    assume "i < n"
    then have "unat (a + of_nat i) = unat a + i" using that by (intro u32_less_add_eq) simp
    then show "mem run_state (a + of_nat i) = exec_mem (a + of_nat i)" using that by (intro run_state_mem) simp
  qed
  have b: "block_addr ?s exec_inode 0 = 0x502000" by (simp add: block_addr_def f exec_inode_fields)
  have fb: "file_byte ?s exec_inode i = file_byte shell_state exec_inode i" if "i < 4" for i
  proof -
    have "block_addr shell_state exec_inode 0 = 0x502000" by (simp add: block_addr_def shell_state_fields exec_inode_fields)
    moreover have "mem run_state (0x502000 + of_nat i) = exec_mem (0x502000 + of_nat i)"
      using rd [of "0x502000" 4] nth_rd [OF that, of "mem run_state" "0x502000"] nth_rd [OF that, of exec_mem "0x502000"] by simp
    ultimately show ?thesis using that b by (simp add: file_byte_def f shell_state_fields)
  qed
  have "map (file_byte ?s exec_inode) [0..<4] = map (file_byte shell_state exec_inode) [0..<4]"
    by (rule map_cong [OF refl]) (simp add: fb)
  moreover have "map (file_byte shell_state exec_inode) [0..<4] = [0x7f, 0x45, 0x4c, 0x46]"
    using shell_state_file by (simp only: program_file_def)
  ultimately have "map (file_byte ?s exec_inode) [0..<4] = [0x7f, 0x45, 0x4c, 0x46]" by simp
  moreover have "exec_inode = rd (mem run_state) 0x501000 4096" using rd [of "0x501000" 4096] by (simp add: exec_inode_def)
  moreover have "disjoint_ranges 0x501000 4096 0x7FDF8C 4" "disjoint_ranges 0x502000 4096 0x7FDF8C 4"
    "disjoint_ranges 0x502000 4096 0x848000 100"
    by (rule disjoint_ranges_apart; simp)+
  moreover have "0 \<le> sint (ino_block exec_inode 0) \<and> sint (ino_block exec_inode 0) < sint (bb_data_count image_boot_block)"
    by (simp add: exec_inode_fields)
  ultimately show ?thesis
    unfolding program_file_def
    by (simp only: f exec_inode_fields)
      (auto simp: in_kernel_page_def image_base_def b exec_inode_fields)
qed

lemma run_state_startable: "startable (Ptr 0x08049000) (bytes ''a'') exec_inode 100 (in_call run_state)"
proof -
  have "kernel_mapped (in_call run_state)"
    using machine_kernel_mapped [OF run_state_ok] by (rule kernel_mapped_cong [rotated 4]) (simp_all add: in_call_def)
  moreover have "parse_word (in_call run_state) (Ptr 0x08049000) (5 + 1) = Inr (bytes ''a'', 7)" using run_state_parse(2) by simp
  moreover have "programs (in_call run_state) = 1" "boot_block (in_call run_state) = image_boot_block"
    using run_state_more by (simp_all add: in_call_def programs_def run_state_fields shell_state_fields reset_term_def)
  ultimately show ?thesis
    unfolding startable_def
    using run_state_parse(1) shell_entry run_state_file
    by (intro conjI exI [of _ "bytes ''shell''"] exI [of _ 5] exI [of _ 7] exI [of _ 0])
      (simp_all add: in_call_def run_state_fields shell_state_fields shell_state_directory reset_pcb_def is_null_def)
qed

lemma run_state_store:
  "mmu True True run_state 0x08048000 = Inr 0x448000"
  "machine_step run_state (run_state\<lparr>mem := (mem run_state)(0x448000 := 1)\<rparr>)"
proof -
  show m: "mmu True True run_state 0x08048000 = Inr 0x448000"
    by (simp add: mmu_def run_state_fields shell_state_directory window_entry_def entry_ok_def frame_of_def)
  then show "machine_step run_state (run_state\<lparr>mem := (mem run_state)(0x448000 := 1)\<rparr>)" by (rule machine_step.store)
qed

lemma run_state_reaches: "reachable run_state (run_state\<lparr>mem := (mem run_state)(0x448000 := 1)\<rparr>)"
  using reachable.step [OF reachable.start run_state_store(2)] .

section \<open>Properties\<close>













end
