(* ===== verification/Preempt.thy ===== *)
theory Preempt
  imports Machine Kernel
begin

text \<open>
  A system call that is interrupted while it works: \<^verbatim>\<open>term_write\<close> of \<^verbatim>\<open>dev_term.c\<close>, with interrupt handlers running
  before each character it fetches. The handlers share the screen with the writer; what the writer relies on is that they keep
  the invariant of the terminals, the page directory, and all memory outside the video page.
\<close>

section \<open>What handlers do to memory\<close>

text \<open>Memory outside the 4 KB video page.\<close>

definition beyond_video :: "'a hw_scheme \<Rightarrow> mem" where
  "beyond_video s = (\<lambda>a. if in_range 0xB8000 4096 a then 0 else mem s a)"

lemma beyond_mem: "mem t = mem s \<Longrightarrow> beyond_video t = beyond_video s"
  by (simp add: beyond_video_def cong: if_cong)

text \<open>That memory and the layout of the file system image.\<close>

definition surroundings :: "'a fs_scheme \<Rightarrow> mem \<times> u8 list \<times> u32 \<times> u32" where
  "surroundings s = (beyond_video s, fs_part s)"

lemma fs_part_ops [simp]:
  "fs_part (set_cursor_loc l s) = fs_part s" "fs_part (set_screen_xy x y s) = fs_part s" "fs_part (cli s) = fs_part s"
  "fs_part (sti s) = fs_part s" "fs_part (send_eoi i s) = fs_part s" "fs_part (snd (inb p s)) = fs_part s" "fs_part (outb d p s) = fs_part s"
  "fs_part (upd_term f s) = fs_part s" "fs_part (s\<lparr>term_flag := n\<rparr>) = fs_part s" "fs_part (map_term a b w s) = fs_part s"
  "fs_part (set_modifiers k s) = fs_part s" "fs_part (s\<lparr>iflag := fl\<rparr>) = fs_part s" "fs_part (s\<lparr>next_interrupt := ni\<rparr>) = fs_part s"
  by (simp_all add: fs_part_def set_cursor_loc_def set_screen_xy_def send_eoi_def upd_term_def map_term_def load_cr3_def
      set_modifiers_def putc_def erase_char_def scroll_def clear_def io_defs Let_def)

lemma fs_part_console [simp]: "fs_part (putc c s) = fs_part s" "fs_part (erase_char s) = fs_part s" "fs_part (clear s) = fs_part s"
  by (simp_all add: fs_part_def putc_def erase_char_def scroll_def clear_def set_cursor_loc_def io_defs Let_def)

lemma surroundings_mem: "mem t = mem s \<Longrightarrow> fs_part t = fs_part s \<Longrightarrow> surroundings t = surroundings s"
  by (simp add: surroundings_def beyond_mem [of t s])

lemma surroundings_same_outside:
  assumes "same_outside_screen (mem s) (mem t)" and "fs_part t = fs_part s"
  shows "surroundings t = surroundings s"
proof -
  have "in_range VIDEO 4000 a \<Longrightarrow> in_range VIDEO 4096 a" for a by (auto simp: in_range_def)
  then have "beyond_video t a = beyond_video s a" for a using assms(1) by (auto simp: beyond_video_def same_outside_screen_def)
  then have "beyond_video t = beyond_video s" by (rule ext)
  then show ?thesis using assms(2) by (simp add: surroundings_def)
qed

lemma surroundings_ops [simp]:
  "surroundings (set_cursor_loc l s) = surroundings s" "surroundings (set_screen_xy x y s) = surroundings s"
  "surroundings (cli s) = surroundings s" "surroundings (sti s) = surroundings s" "surroundings (send_eoi i s) = surroundings s"
  "surroundings (snd (inb p s)) = surroundings s" "surroundings (outb d p s) = surroundings s"
  "surroundings (upd_term f s) = surroundings s" "surroundings (s\<lparr>term_flag := n\<rparr>) = surroundings s"
  "surroundings (map_term a b w s) = surroundings s" "surroundings (set_modifiers k s) = surroundings s"
  "surroundings (s\<lparr>iflag := fl\<rparr>) = surroundings s" "surroundings (s\<lparr>next_interrupt := ni\<rparr>) = surroundings s"
  by (rule surroundings_mem; simp?; simp add: set_cursor_loc_def set_screen_xy_def send_eoi_def upd_term_def map_term_def load_cr3_def
      set_modifiers_def io_defs Let_def)+

lemma surroundings_putc: "screen_inv s \<Longrightarrow> surroundings (putc c s) = surroundings s"
  by (intro surroundings_same_outside putc_outside) simp_all

lemma surroundings_fold_putc: "screen_inv s \<Longrightarrow> surroundings (fold putc cs s) = surroundings s"
  by (induction cs arbitrary: s) (simp_all add: surroundings_putc screen_inv_putc)

lemma surroundings_clear_screen:
  assumes "clear_screen s = Inr s'"
  shows "surroundings s' = surroundings s"
proof -
  have "surroundings (clear s) = surroundings s" by (intro surroundings_same_outside) (simp add: clear_def clear_loop_outside, simp)
  moreover have "surroundings ((clear s)\<lparr>screen_x := 0, screen_y := 0\<rparr>) = surroundings (clear s)" by (rule surroundings_mem) (simp_all add: fs_part_def)
  ultimately show ?thesis using assms surroundings_fold_putc [of "(clear s)\<lparr>screen_x := 0, screen_y := 0\<rparr>"]
    by (auto simp: clear_screen_eq screen_inv_def)
qed

lemma surroundings_erase:
  assumes "screen_inv s"
  shows "surroundings (erase_char s) = surroundings s"
proof -
  obtain i where "i < 2000" "mem (erase_char s) = put_cell (int i) 32 (mem s)"
  proof -
    let ?t = "if screen_x s = 0 then if screen_y s > 0 then s\<lparr>screen_x := 79, screen_y := screen_y s - 1\<rparr> else s
         else s\<lparr>screen_x := screen_x s - 1\<rparr>"
    have "0 \<le> 80 * screen_y ?t + screen_x ?t" "80 * screen_y ?t + screen_x ?t < 2000" using assms by (auto simp: screen_inv_def)
    moreover have "mem (erase_char s) = put_cell (80 * screen_y ?t + screen_x ?t) 32 (mem s)" by (simp add: erase_char_def Let_def)
    ultimately show ?thesis using that [of "nat (80 * screen_y ?t + screen_x ?t)"] by simp
  qed
  then show ?thesis by (intro surroundings_same_outside) (simp_all add: put_cell_outside)
qed

lemma surroundings_puts: "puts p s = Inr (n, s') \<Longrightarrow> screen_inv s \<Longrightarrow> surroundings s' = surroundings s"
  using puts_prints surroundings_fold_putc by fastforce

lemma upd_term_screen [simp]: "screen_inv (upd_term f s) = screen_inv s"
  by (simp add: upd_term_def screen_inv_def)

lemma surroundings_line_ops:
  assumes "screen_inv s"
  shows "remove_op s = Inr s' \<Longrightarrow> surroundings s' = surroundings s" and "insert_op c s = Inr s' \<Longrightarrow> surroundings s' = surroundings s"
  using assms by (auto simp: remove_op_def insert_op_def Let_def rbind_eq_Inr surroundings_putc surroundings_erase split: if_splits)

lemma restore_loop_beyond: "\<not> in_range 0xB8000 4096 a \<Longrightarrow> restore_loop buf i m a = m a"
proof (induction buf i m rule: restore_loop.induct)
  case (1 buf i m)
  show ?case
  proof (cases "i < 4096")
    case True
    then have "a \<noteq> VMEM + of_nat i" using "1.prems" by (auto simp: in_range_iff)
    then show ?thesis using 1 True by (simp add: restore_loop.simps [of buf i m] Let_def fun_upd_def)
  qed (simp add: restore_loop.simps)
qed

lemma surroundings_switch_term:
  assumes "switch_term t s = Inr (t', s')"
  shows "surroundings s' = surroundings s"
proof -
  obtain u where u: "clear_screen s = Inr u" by (simp add: clear_screen_eq)
  define v where "v = set_cursor_loc (word_of_int (cursor_x t' + cursor_y t' * 80)) (set_screen_xy (cursor_x t') (cursor_y t') u)"
  have s': "s' = v\<lparr>mem := restore_loop (vid_buf t') 0 (mem v)\<rparr>" using assms by (auto simp: switch_term_def u Let_def v_def)
  have "beyond_video s' = beyond_video v" by (rule ext) (simp add: beyond_video_def s' restore_loop_beyond)
  then have "surroundings s' = surroundings v" by (simp add: surroundings_def s' fs_part_def)
  then show ?thesis using surroundings_clear_screen [OF u] by (simp add: v_def)
qed

lemma surroundings_change_term: "change_term n s = Inr s' \<Longrightarrow> surroundings s' = surroundings s"
  by (auto simp: change_term_def Let_def rbind_eq_Inr dest!: surroundings_switch_term)

lemma surroundings_kbd:
  assumes "kbd_intr_handler s = Inr s'" and "kbd_inv s"
  shows "surroundings s' = surroundings s"
proof -
  let ?s = "snd (inb 0x60 (cli s))"
  obtain c s1 where s1: "scancode_decoder (fst (inb 0x60 (cli s))) ?s = Inr (c, s1)" "kbd_inv s1"
    using scancode_decoder_eq [of ?s "fst (inb 0x60 (cli s))"] assms(2) by auto
  have b: "surroundings s1 = surroundings s"
    using s1(1) by (auto simp: scancode_decoder_def Let_def rbind_eq_Inr dest!: surroundings_change_term split: if_splits)
  have inv: "screen_inv s1" using s1(2) by (simp add: kbd_inv_def)
  show ?thesis
    using assms(1) b by (auto simp: kbd_intr_handler_def Let_def split_beta s1(1) rbind_eq_Inr
        dest!: surroundings_clear_screen surroundings_line_ops [OF inv] surroundings_puts [OF _ inv] split: if_splits)
qed

section \<open>A loop that is interrupted\<close>

text \<open>The handlers that run at one point, in order.\<close>

fun serve :: "('s \<Rightarrow> 's res) list \<Rightarrow> 's \<Rightarrow> 's res" where
  "serve [] s = Inr s"
| "serve (h # hs) s = rbind (h s) (serve hs)"

text \<open>
  The loop of \<^verbatim>\<open>term_write\<close>: \<open>get i\<close> fetches character \<open>i\<close>, \<open>put\<close> writes it, and the handlers \<open>irqs i\<close> run
  before the fetch.
\<close>

function preempted_output :: "(nat \<Rightarrow> ('s \<Rightarrow> 's res) list) \<Rightarrow> (nat \<Rightarrow> 's \<Rightarrow> u8 res) \<Rightarrow> (u8 \<Rightarrow> 's \<Rightarrow> 's) \<Rightarrow> int \<Rightarrow> nat \<Rightarrow> 's \<Rightarrow> (int \<times> 's) res" where
  "preempted_output irqs get put nbytes i s =
     rbind (serve (irqs i) s) (\<lambda>s.
     rbind (get i s) (\<lambda>c.
       if c = 0 then Inr (int i, s)
       else let s = put c s; i = Suc i
            in if int i < nbytes then preempted_output irqs get put nbytes i s else Inr (int i, s)))"
  by pat_completeness auto
termination
  by (relation "measure (\<lambda>(irqs, get, put, nbytes, i, s). nat (nbytes - int i))") auto

declare preempted_output.simps [simp del]

definition term_write_preempted :: "(nat \<Rightarrow> ('a kbd_scheme \<Rightarrow> 'a kbd_scheme res) list) \<Rightarrow> int \<Rightarrow> u32 \<Rightarrow> int \<Rightarrow> 'a kbd_scheme \<Rightarrow> (int \<times> 'a kbd_scheme) res" where
  "term_write_preempted irqs fd buf nbytes s =
     (if buf = 0 \<or> nbytes < 0 then Inr (-1, s)
      else preempted_output irqs (\<lambda>i s. vread s (buf + of_nat i)) putc nbytes 0 s)"

text \<open>Without interrupts it is \<^verbatim>\<open>term_write\<close> as one step.\<close>

lemma preempted_loop_none: "preempted_output (\<lambda>_. []) (\<lambda>i s. vread s (buf + of_nat i)) putc n i s = term_write_loop buf n i s"
proof (induction buf n i s rule: term_write_loop.induct)
  case (1 buf n i s)
  show ?case
    by (subst preempted_output.simps, subst term_write_loop.simps)
      (auto simp: Let_def rbind_def 1 split: sum.splits)
qed

lemma term_write_preempted_none: "term_write_preempted (\<lambda>_. []) fd buf n s = term_write fd buf n s"
  by (simp add: term_write_preempted_def term_write_def preempted_loop_none)

context interrupt_service begin

lemma serve_completes: "set hs \<subseteq> handlers \<Longrightarrow> inv s \<Longrightarrow> \<exists>s'. serve hs s = Inr s' \<and> keeps s s'"
proof (induction hs arbitrary: s)
  case Nil
  then show ?case by (simp add: keeps_reflexive)
next
  case (Cons h hs)
  obtain t where t: "h s = Inr t" "keeps s t" using completes [of h s] serves [of h s] Cons.prems by auto
  with Cons obtain u where "serve hs t = Inr u" "keeps t u" using keeps_inv [of s t] by auto
  with t show ?case using keeps_transitive [of s t u] by auto
qed

lemma serve_invisible:
  assumes "\<And>h s s'. h \<in> handlers \<Longrightarrow> inv s \<Longrightarrow> h s = Inr s' \<Longrightarrow> Q s \<Longrightarrow> Q s'"
  shows "set hs \<subseteq> handlers \<Longrightarrow> inv s \<Longrightarrow> serve hs s = Inr s' \<Longrightarrow> Q s \<Longrightarrow> Q s'"
proof (induction hs arbitrary: s)
  case (Cons h hs)
  then obtain t where t: "h s = Inr t" "serve hs t = Inr s'" by (auto simp: rbind_eq_Inr)
  then show ?case using Cons assms [of h s t] serves [of h s t] keeps_inv [of s t] by auto
qed simp

end

text \<open>
  A console the handlers share with the program: writing to it is no worse interference than a handler. The predicate \<open>P\<close>
  follows what has been written; it is kept by the handlers and carried on by each character.
\<close>

locale preemptible_console = interrupt_service handlers inv keeps
  for handlers :: "('s \<Rightarrow> 's res) set" and inv :: "'s \<Rightarrow> bool" and keeps :: "'s \<Rightarrow> 's \<Rightarrow> bool" +
  fixes put :: "u8 \<Rightarrow> 's \<Rightarrow> 's"
  assumes put_keeps: "keeps s (put c s)"
begin

lemma output_follows:
  assumes hs: "\<And>i. set (irqs i) \<subseteq> handlers" and inv: "inv s0"
    and get: "\<And>i t. i < length xs \<Longrightarrow> keeps s0 t \<Longrightarrow> get i t = Inr (xs ! i)" and nz: "0 \<notin> set xs"
    and stop: "\<And>t. int (length xs) < n \<or> xs = [] \<Longrightarrow> keeps s0 t \<Longrightarrow> get (length xs) t = Inr 0" and n: "xs = [] \<or> int (length xs) \<le> n"
    and P: "\<And>ys h s s'. h \<in> handlers \<Longrightarrow> inv s \<Longrightarrow> h s = Inr s' \<Longrightarrow> P ys s \<Longrightarrow> P ys s'"
      "\<And>ys c s. inv s \<Longrightarrow> P ys s \<Longrightarrow> P (ys @ [c]) (put c s)"
  shows "i \<le> length xs \<Longrightarrow> i < length xs \<or> xs = [] \<or> int i < n \<Longrightarrow> keeps s0 s \<Longrightarrow> P (take i xs) s \<Longrightarrow>
    \<exists>s'. preempted_output irqs get put n i s = Inr (int (length xs), s') \<and> keeps s0 s' \<and> P xs s'"
proof (induction "length xs - i" arbitrary: i s)
  case 0
  have s: "inv s" using keeps_inv [OF 0(4) inv] .
  obtain t where t: "serve (irqs i) s = Inr t" "keeps s t" using serve_completes [OF hs s] by blast
  have k: "keeps s0 t" using 0(4) t(2) by (rule keeps_transitive)
  have "P (take i xs) t" by (rule serve_invisible [where Q = "P (take i xs)", OF _ hs s t(1) 0(5)]) (rule P(1))
  then have "P xs t" using 0 by simp
  moreover have "get i t = Inr 0" using 0 stop [OF _ k] by auto
  ultimately show ?case using 0 t k by (simp add: preempted_output.simps [of _ _ _ _ i])
next
  case (Suc m)
  then have i: "i < length xs" by simp
  have s: "inv s" using keeps_inv [OF Suc.prems(3) inv] .
  obtain t where t: "serve (irqs i) s = Inr t" "keeps s t" using serve_completes [OF hs s] by blast
  have k: "keeps s0 t" using Suc.prems(3) t(2) by (rule keeps_transitive)
  have "P (take i xs) t" by (rule serve_invisible [where Q = "P (take i xs)", OF _ hs s t(1) Suc.prems(4)]) (rule P(1))
  then have Pt: "P (take (Suc i) xs) (put (xs ! i) t)"
    using P(2) [of t "take i xs" "xs ! i"] keeps_inv [OF k inv] i by (simp add: take_Suc_conv_app_nth)
  have k': "keeps s0 (put (xs ! i) t)" using k put_keeps by (rule keeps_transitive)
  have eq: "preempted_output irqs get put n i s = (if int (Suc i) < n then preempted_output irqs get put n (Suc i) (put (xs ! i) t)
      else Inr (int (Suc i), put (xs ! i) t))"
    using t(1) get [OF i k] nz nth_mem [OF i] by (subst preempted_output.simps) (auto simp: Let_def)
  show ?case
  proof (cases "int (Suc i) < n")
    case True
    then show ?thesis using Suc.hyps(1) [of "Suc i"] Suc.hyps(2) i k' Pt eq by simp
  next
    case False
    then have "Suc i = length xs" using n i by auto
    then show ?thesis using False eq k' Pt by simp
  qed
qed

end

text \<open>A console whose picture no handler of the service touches shows exactly what was written.\<close>

locale transparent_console = preemptible_console handlers inv keeps put + char_console put inv abs spec
  for handlers :: "('s \<Rightarrow> 's res) set" and inv :: "'s \<Rightarrow> bool" and keeps :: "'s \<Rightarrow> 's \<Rightarrow> bool" and put :: "u8 \<Rightarrow> 's \<Rightarrow> 's"
    and abs :: "'s \<Rightarrow> 'v" and spec :: "u8 \<Rightarrow> 'v \<Rightarrow> 'v" +
  assumes invisible: "h \<in> handlers \<Longrightarrow> inv s \<Longrightarrow> h s = Inr s' \<Longrightarrow> abs s' = abs s"
begin

lemma output_shows:
  assumes "\<And>i. set (irqs i) \<subseteq> handlers" and "inv s0" and "\<And>i t. i < length xs \<Longrightarrow> keeps s0 t \<Longrightarrow> get i t = Inr (xs ! i)" and "0 \<notin> set xs"
    and "\<And>t. int (length xs) < n \<or> xs = [] \<Longrightarrow> keeps s0 t \<Longrightarrow> get (length xs) t = Inr 0" and "xs = [] \<or> int (length xs) \<le> n"
  shows "\<exists>s'. preempted_output irqs get put n 0 s0 = Inr (int (length xs), s') \<and> keeps s0 s' \<and> abs s' = fold spec xs (abs s0)"
proof -
  have P: "h \<in> handlers \<Longrightarrow> inv s \<Longrightarrow> h s = Inr s' \<Longrightarrow> abs s = fold spec ys (abs s0) \<Longrightarrow> abs s' = fold spec ys (abs s0)" for ys h s s'
    by (simp add: invisible)
  have Q: "inv s \<Longrightarrow> abs s = fold spec ys (abs s0) \<Longrightarrow> abs (put c s) = fold spec (ys @ [c]) (abs s0)" for ys c s
    by (simp add: put_refines)
  have start: "0 \<le> length xs" "0 < length xs \<or> xs = [] \<or> int 0 < n" "abs s0 = fold spec (take 0 xs) (abs s0)" by auto
  show ?thesis
    by (rule output_follows [where P = "\<lambda>ys s. abs s = fold spec ys (abs s0)" and i = 0 and s = s0,
          OF assms P Q start(1,2) keeps_reflexive start(3)])
qed

end

section \<open>The terminal under interrupts\<close>

text \<open>What a handler, or a character written, may change: only what \<open>quiet\<close> allows, and neither memory beyond the video page
nor the layout of the file system.\<close>

definition undisturbed :: "'a proc_scheme \<Rightarrow> 'a proc_scheme \<Rightarrow> bool" where
  "undisturbed s s' \<longleftrightarrow> quiet s s' \<and> (kbd_inv s \<longrightarrow> surroundings s' = surroundings s)"

lemma undisturbed_wrapper:
  assumes "h \<in> wrappers" and "h s = Inr s'"
  shows "undisturbed s s'"
proof -
  have "surroundings (pit_handler s) = surroundings s" "surroundings (rtc_handler s) = surroundings s"
    by (rule surroundings_mem; simp add: pit_handler_def rtc_handler_def send_eoi_def fs_part_def io_defs Let_def split_beta)+
  then have "surroundings s' = surroundings s" if "kbd_inv s"
    using assms that surroundings_kbd [of s] unfolding wrappers_def
    by (auto simp: pit_wrapper_def rtc_wrapper_def kbd_wrapper_def irq_wrapper_def rbind_eq_Inr)
  then show ?thesis using wrappers_quiet(1) [OF assms] by (simp add: undisturbed_def)
qed

lemma undisturbed_trans: "undisturbed s t \<Longrightarrow> undisturbed t u \<Longrightarrow> undisturbed s u"
  by (auto simp: undisturbed_def quiet_def)

lemma undisturbed_putc: "undisturbed s (putc c s)"
  using quiet_putc [of s c] by (simp add: undisturbed_def surroundings_putc kbd_inv_def)

interpretation tty: preemptible_console wrappers kbd_inv undisturbed putc
proof
  show "h \<in> wrappers \<Longrightarrow> kbd_inv s \<Longrightarrow> \<exists>s'. h s = Inr s'" for h and s :: "'a sched_scheme" by (rule wrappers_complete)
  show "h \<in> wrappers \<Longrightarrow> h s = Inr s' \<Longrightarrow> undisturbed s s'" for h and s s' :: "'a sched_scheme" by (rule undisturbed_wrapper)
  show "undisturbed s t \<Longrightarrow> undisturbed t u \<Longrightarrow> undisturbed s u" for s t u :: "'a sched_scheme" by (rule undisturbed_trans)
  show "undisturbed s t \<Longrightarrow> kbd_inv s \<Longrightarrow> kbd_inv t" for s t :: "'a sched_scheme" by (simp add: undisturbed_def quiet_def)
  show "undisturbed s (putc c s)" for s :: "'a sched_scheme" and c by (rule undisturbed_putc)
qed (simp add: undisturbed_def)

text \<open>The timer and the clock never touch the screen.\<close>

lemma clock_handlers_invisible:
  assumes "h \<in> {pit_wrapper, rtc_wrapper}" and "h s = Inr s'"
  shows "screen_abs s' = screen_abs s"
  using assms by (auto simp: pit_wrapper_def rtc_wrapper_def irq_wrapper_def)
    (rule screen_abs_cong; simp add: pit_handler_def rtc_handler_def send_eoi_def io_defs Let_def split_beta)+

interpretation ticking: transparent_console "{pit_wrapper, rtc_wrapper}" kbd_inv undisturbed putc screen_abs vt_putc
proof
  have sub: "{pit_wrapper, rtc_wrapper} \<subseteq> wrappers" by (simp add: wrappers_def)
  show "h \<in> {pit_wrapper, rtc_wrapper} \<Longrightarrow> kbd_inv s \<Longrightarrow> \<exists>s'. h s = Inr s'" for h and s :: "'a sched_scheme"
    using sub wrappers_complete [of h s] by blast
  show "h \<in> {pit_wrapper, rtc_wrapper} \<Longrightarrow> h s = Inr s' \<Longrightarrow> undisturbed s s'" for h and s s' :: "'a sched_scheme"
    using sub undisturbed_wrapper [of h s s'] by blast
  show "h \<in> {pit_wrapper, rtc_wrapper} \<Longrightarrow> kbd_inv s \<Longrightarrow> h s = Inr s' \<Longrightarrow> screen_abs s' = screen_abs s" for h and s s' :: "'a sched_scheme"
    by (rule clock_handlers_invisible)
  show "kbd_inv s \<Longrightarrow> kbd_inv (putc c s)" for s :: "'a sched_scheme" and c using quiet_putc [of s c] by (simp add: quiet_def)
  show "kbd_inv s \<Longrightarrow> screen_abs (putc c s) = vt_putc c (screen_abs s)" for s :: "'a sched_scheme" and c
    by (rule con.put_refines) (simp add: kbd_inv_def)
qed (auto intro: tty.keeps_reflexive tty.keeps_transitive tty.keeps_inv tty.put_keeps)

section \<open>A program's buffer\<close>

text \<open>A byte in the window of the running process is in its frame, beyond the video page; no handler can change it.\<close>

lemma window_byte:
  assumes "0 \<le> p" "p \<le> 5" and "page_directory s ! 32 = window_entry p" and "unat va div 0x400000 = 32"
  shows "mmu False False s va = Inr (frame_of 22 (window_entry p) va)" and "\<not> in_range 0xB8000 4096 (frame_of 22 (window_entry p) va)"
proof -
  have k: "nat p + 1 < 1024" using assms(1,2) by simp
  show "mmu False False s va = Inr (frame_of 22 (window_entry p) va)"
    using assms(3,4) program_entry(1,2) [OF k] by (simp add: mmu_def Let_def drop_bit_22_eq window_entry_def)
  have "0x400000 \<le> unat (frame_of 22 (window_entry p) va)"
    using frame_of_22 [OF program_entry(3) [OF k] k, of va] assms(1) by (simp add: window_entry_def)
  moreover have "unat (0xB8000 + of_nat i :: u32) < 0x400000" if "i < 4096" for i
    using u32_less_add_eq [of "0xB8000" i] that by simp
  ultimately have beyond: "frame_of 22 (window_entry p) va \<noteq> 0xB8000 + of_nat i" if "i < 4096" for i
    using that by (metis not_le)
  show "\<not> in_range 0xB8000 4096 (frame_of 22 (window_entry p) va)"
  proof
    assume "in_range 0xB8000 4096 (frame_of 22 (window_entry p) va)"
    then obtain i where "i < 4096" "frame_of 22 (window_entry p) va = 0xB8000 + of_nat i" by (auto simp: in_range_iff)
    then show False using beyond by blast
  qed
qed

lemma buffer_kept:
  fixes s t :: "'a sched_scheme"
  assumes ok: "machine_ok s" and u: "undisturbed s t" and va: "unat va div 0x400000 = 32"
  shows "vread t va = vread s va"
proof -
  note D = machine_okD [OF ok]
  have inv: "kbd_inv s" using D(1) by (simp add: stable_def)
  have b: "beyond_video t = beyond_video s" and "fixed t = fixed s" using u inv by (simp_all add: undisturbed_def quiet_def surroundings_def)
  then have pd: "page_directory t ! 32 = window_entry (active_proc s)" using D(7) by (simp add: fixed_def)
  note w = window_byte [OF D(2,3) D(7) va] window_byte [OF D(2,3) pd va]
  then have "mem t (frame_of 22 (window_entry (active_proc s)) va) = mem s (frame_of 22 (window_entry (active_proc s)) va)"
    using fun_cong [OF b, of "frame_of 22 (window_entry (active_proc s)) va"] by (simp add: beyond_video_def)
  then show ?thesis using w by (simp add: vread_def)
qed

text \<open>The text \<open>xs\<close> in the buffer: its characters, and a null byte after them when the count goes further.\<close>

definition text_at :: "u32 \<Rightarrow> int \<Rightarrow> u8 list \<Rightarrow> 'a paging_scheme \<Rightarrow> bool" where
  "text_at buf n xs s \<longleftrightarrow> 0x8000000 \<le> unat buf \<and> unat buf + length xs < 0x8400000 \<and> 0 \<notin> set xs \<and>
     (xs = [] \<or> int (length xs) \<le> n) \<and>
     (\<forall>i < length xs. vread s (buf + of_nat i) = Inr (xs ! i)) \<and>
     (int (length xs) < n \<or> xs = [] \<longrightarrow> vread s (buf + of_nat (length xs)) = Inr 0)"

lemma text_at_kept:
  fixes s t :: "'a sched_scheme"
  assumes ok: "machine_ok s" and tx: "text_at buf n xs s" and u: "undisturbed s t"
  shows "i < length xs \<Longrightarrow> vread t (buf + of_nat i) = Inr (xs ! i)"
    and "int (length xs) < n \<or> xs = [] \<Longrightarrow> vread t (buf + of_nat (length xs)) = Inr 0"
proof -
  have "vread t (buf + of_nat i) = vread s (buf + of_nat i)" if "i \<le> length xs" for i
  proof (rule buffer_kept [OF ok u])
    have b: "0x8000000 \<le> unat buf" "unat buf + length xs < 0x8400000" using tx by (simp_all add: text_at_def)
    then have "unat (buf + of_nat i) = unat buf + i" using that by (intro u32_less_add_eq) simp
    then show "unat (buf + of_nat i) div 0x400000 = 32" using b that by (simp add: nat_div_eq)
  qed
  then show "i < length xs \<Longrightarrow> vread t (buf + of_nat i) = Inr (xs ! i)"
    "int (length xs) < n \<or> xs = [] \<Longrightarrow> vread t (buf + of_nat (length xs)) = Inr 0"
    using tx by (simp_all add: text_at_def)
qed

lemma write_completes:
  fixes s :: "'a sched_scheme"
  assumes ok: "machine_ok s" and tx: "text_at buf n xs s" and hs: "\<And>i. set (irqs i) \<subseteq> wrappers" and n: "0 \<le> n"
  shows "\<exists>s'. term_write_preempted irqs fd buf n s = Inr (int (length xs), s') \<and> undisturbed s s'"
proof -
  have inv: "kbd_inv s" using machine_okD(1) [OF ok] by (simp add: stable_def)
  have nz: "0 \<notin> set xs" "xs = [] \<or> int (length xs) \<le> n" and b: "buf \<noteq> 0" using tx by (auto simp: text_at_def)
  have start: "0 \<le> length xs" "0 < length xs \<or> xs = [] \<or> int 0 < n" by auto
  have "\<exists>s'. preempted_output irqs (\<lambda>i s. vread s (buf + of_nat i)) putc n 0 s = Inr (int (length xs), s') \<and> undisturbed s s' \<and> True"
    by (rule tty.output_follows [where P = "\<lambda>_ _. True", OF hs inv text_at_kept(1) [OF ok tx] nz(1) text_at_kept(2) [OF ok tx] nz(2)
          TrueI TrueI start tty.keeps_reflexive TrueI])
  then show ?thesis using b n by (simp add: term_write_preempted_def)
qed

lemma write_shows:
  fixes s :: "'a sched_scheme"
  assumes ok: "machine_ok s" and tx: "text_at buf n xs s" and hs: "\<And>i. set (irqs i) \<subseteq> {pit_wrapper, rtc_wrapper}" and n: "0 \<le> n"
  shows "\<exists>s'. term_write_preempted irqs fd buf n s = Inr (int (length xs), s') \<and> undisturbed s s' \<and>
    screen_abs s' = fold vt_putc xs (screen_abs s)"
proof -
  have inv: "kbd_inv s" using machine_okD(1) [OF ok] by (simp add: stable_def)
  have nz: "0 \<notin> set xs" "xs = [] \<or> int (length xs) \<le> n" and b: "buf \<noteq> 0" using tx by (auto simp: text_at_def)
  show ?thesis
    using ticking.output_shows [OF hs inv text_at_kept(1) [OF ok tx] nz(1) text_at_kept(2) [OF ok tx] nz(2)] b n
    by (simp add: term_write_preempted_def)
qed

lemma machine_in_call: "machine_ok (in_call s) = machine_ok s"
proof -
  have "irq_delivered (in_call s) k = irq_delivered s k" for k by (simp add: irq_delivered_def)
  then show ?thesis by (simp add: machine_ok_def at_user_level_def) (simp add: in_call_def)
qed

section \<open>Properties\<close>



end
