(* ===== verification/Preempt_Read.thy ===== *)
theory Preempt_Read
  imports Preempt
begin

text \<open>
  The other long system call that runs with interrupts on: \<^verbatim>\<open>read_data\<close> of \<^verbatim>\<open>filesystem.c\<close>, with interrupt handlers running
  before each round of its loop. The reader shares nothing with the handlers but memory, and the handlers write the video page only.
\<close>

section \<open>The loop\<close>

function read_rounds :: "(nat \<Rightarrow> ('a fs_scheme \<Rightarrow> 'a fs_scheme res) list) \<Rightarrow> nat \<Rightarrow> u8 list \<Rightarrow> u32 \<Rightarrow> u32 \<Rightarrow> int \<Rightarrow> int \<Rightarrow> 'a fs_scheme \<Rightarrow> (int \<times> 'a fs_scheme) res" where
  "read_rounds irqs k inode_local off buf left_length read_byte s =
     (if \<not> read_byte \<le> left_length then Inr (read_byte, s)
      else rbind (serve (irqs k) s) (\<lambda>s.
           rbind (read_round inode_local off buf left_length read_byte s) (\<lambda>((last, read_byte), s).
             if last then Inr (read_byte, s)
             else read_rounds irqs (Suc k) inode_local off buf left_length read_byte s)))"
  by pat_completeness auto
termination
proof (relation "measure (\<lambda>(irqs, k, b, off, buf, left, r, s). nat (left + 1 - r))", goal_cases)
  case (2 irqs k b off buf left r s s1 x y z last r')
  then show ?case using read_round_advances [of b off buf left r s1] by auto
qed simp

declare read_rounds.simps [simp del]

definition read_data_preempted :: "(nat \<Rightarrow> ('a fs_scheme \<Rightarrow> 'a fs_scheme res) list) \<Rightarrow> u32 \<Rightarrow> u32 \<Rightarrow> u32 \<Rightarrow> u32 \<Rightarrow> 'a fs_scheme \<Rightarrow> (int \<times> 'a fs_scheme) res" where
  "read_data_preempted irqs inode off buf len s =
     rbind (vload s (inode_addr s + inode * of_nat FOUR_KB) FOUR_KB) (\<lambda>inode_local.
       if len = 0 \<or> buf = 0 \<or> off > ino_length inode_local then Inr (-1, s)
       else let left_length = sint (if len + off > ino_length inode_local
                                    then ino_length inode_local - off else len)
            in read_rounds irqs 0 inode_local off buf left_length 0 s)"

text \<open>Without interrupts it is \<^verbatim>\<open>read_data\<close>.\<close>

lemma read_rounds_none: "read_rounds (\<lambda>_. []) k b off buf left r s = read_data_loop b off buf left r s"
proof (induction "\<lambda>_ :: nat. [] :: ('a fs_scheme \<Rightarrow> 'a fs_scheme res) list" k b off buf left r s rule: read_rounds.induct)
  case (1 k b off buf left r s)
  then show ?case
    by (subst read_rounds.simps, subst read_data_loop_rounds) (auto simp: rbind_def split: sum.split)
qed

lemma read_data_preempted_none: "read_data_preempted (\<lambda>_. []) inode off buf len s = read_data inode off buf len s"
  by (simp add: read_data_preempted_def read_data_def read_rounds_none cong: if_cong)

section \<open>What the handlers leave to the reader\<close>

text \<open>Addresses of the kernel page and of the window are translated by the page directory alone.\<close>

lemma phys_kept:
  fixes s t :: "'a sched_scheme"
  assumes ok: "machine_ok s" and pd: "page_directory t = page_directory s"
    and va: "\<And>i. i < n \<Longrightarrow> unat (va + of_nat i) div 0x400000 \<in> {1, 32}"
  shows "phys write t va n = phys write s va n"
proof -
  note D = machine_okD [OF ok]
  have "mmu False write t x = mmu False write s x" if "unat x div 0x400000 \<in> {1, 32}" for x
  proof (cases "unat x div 0x400000 = 1")
    case True
    have k: "page_directory s ! 1 = 0x400083" using D(1) by (simp add: stable_def dir_ok_def)
    then show ?thesis using True pd kernel_page_entry by (simp add: mmu_def drop_bit_22_eq)
  next
    case False
    then have x: "unat x div 0x400000 = 32" using that by simp
    have "page_directory t ! 32 = window_entry (active_proc s)" using D(7) pd by simp
    then have "mmu False False t x = mmu False False s x"
      using window_byte(1) [OF D(2,3) D(7) x] window_byte(1) [OF D(2,3) _ x] by simp
    then show ?thesis by (cases "write") (simp_all add: mmu_kernel_write)
  qed
  then have "mmu False write t (va + of_nat i) = mmu False write s (va + of_nat i)" if "i < n" for i using va [OF that] by simp
  from this this [of 0] show ?thesis
    by (cases "n = 0") (auto simp: phys_def list_all_iff intro!: rbind_cong)
qed

lemma read_ok_kept:
  fixes s t :: "'a sched_scheme"
  assumes ok: "machine_ok s" and rd: "read_ok s b L buf pb n" and u: "page_directory t = page_directory s" "fs_part t = fs_part s"
    and buf: "0x8000000 \<le> unat buf" "unat buf + n \<le> 0x8400000"
    and blk: "\<And>i. i \<le> L div 4096 \<Longrightarrow> in_kernel_page (block_addr s b i) 4096"
  shows "read_ok t b L buf pb n"
proof -
  have "phys True t buf n = phys True s buf n"
  proof (rule phys_kept [OF ok u(1)])
    fix i assume "i < n"
    then have "unat (buf + of_nat i) = unat buf + i" using buf by (intro u32_less_add_eq) simp
    then show "unat (buf + of_nat i) div 0x400000 \<in> {1, 32}" using buf \<open>i < n\<close> by (simp add: nat_div_eq)
  qed
  moreover have f: "boot_block t = boot_block s" "block_addr t b = block_addr s b"
    using u(2) by (auto simp: fs_part_def block_addr_def)
  moreover have "phys False t (block_addr s b i) 4096 = phys False s (block_addr s b i) 4096" if "i \<le> L div 4096" for i
  proof (rule phys_kept [OF ok u(1)])
    fix k :: nat assume "k < 4096"
    then have "unat (block_addr s b i + of_nat k) = unat (block_addr s b i) + k"
      using blk [OF that] by (intro u32_less_add_eq) (simp add: in_kernel_page_def)
    then show "unat (block_addr s b i + of_nat k) div 0x400000 \<in> {1, 32}"
      using blk [OF that] \<open>k < 4096\<close> by (simp add: in_kernel_page_def nat_div_eq)
  qed
  ultimately show ?thesis using rd by (simp add: read_ok_def)
qed

text \<open>What is written to a range hides the differences within it.\<close>

lemma beyond_wr:
  assumes "beyond_video t = beyond_video (s\<lparr>mem := wr (mem s) pb xs\<rparr>)" and "length xs \<le> length ys"
  shows "beyond_video (t\<lparr>mem := wr (mem t) pb ys\<rparr>) = beyond_video (s\<lparr>mem := wr (mem s) pb ys\<rparr>)"
proof
  fix a
  have "mem t a = wr (mem s) pb xs a" if "\<not> in_range 0xB8000 4096 a"
    using fun_cong [OF assms(1), of a] that by (simp add: beyond_video_def)
  moreover have "wr (mem s) pb xs a = mem s a" if "\<not> in_range pb (length ys) a"
    using that assms(2) by (intro wr_outside) (auto simp: in_range_def)
  ultimately show "beyond_video (t\<lparr>mem := wr (mem t) pb ys\<rparr>) a = beyond_video (s\<lparr>mem := wr (mem s) pb ys\<rparr>) a"
    by (auto simp: beyond_video_def wr_def in_range_def)
qed

section \<open>The read completes\<close>

lemma read_rounds_complete:
  fixes s :: "'a sched_scheme"
  assumes ok: "machine_ok s" and hs: "\<And>k. set (irqs k) \<subseteq> wrappers" and rd: "read_ok s b L buf pb n" and off: "unat off + n \<le> L"
    and buf: "0x8000000 \<le> unat buf" "unat buf + n \<le> 0x8400000"
    and blk: "\<And>i. i \<le> L div 4096 \<Longrightarrow> in_kernel_page (block_addr s b i) 4096"
  shows "length xs \<le> n \<Longrightarrow> (unat off + length xs) mod 4096 = 0 \<or> n - length xs + (unat off + length xs) mod 4096 < 4096 \<Longrightarrow>
    undisturbed (s\<lparr>mem := wr (mem s) pb xs\<rparr>) u \<Longrightarrow>
    \<exists>s'. read_rounds irqs k b off buf (int n) (int (length xs)) u = Inr (int n, s') \<and>
      undisturbed (s\<lparr>mem := wr (mem s) pb (xs @ map (file_byte s b) [unat off + length xs..<unat off + n])\<rparr>) s'"
proof (induction "n - length xs" arbitrary: xs u k rule: less_induct)
  case less
  have inv: "kbd_inv (s\<lparr>mem := m\<rparr>)" for m
    using machine_okD(1) [OF ok] by (simp add: stable_def kbd_inv_def screen_inv_def)
  have surr: "surroundings (s\<lparr>mem := m\<rparr>) = (beyond_video (s\<lparr>mem := m\<rparr>), fs_part s)" for m
    by (simp add: surroundings_def fs_part_def)
  have "kbd_inv u" using less.prems(3) inv by (simp add: undisturbed_def quiet_def)
  then obtain t where t: "serve (irqs k) u = Inr t" "undisturbed u t" using tty.serve_completes [OF hs] by blast
  have ut: "undisturbed (s\<lparr>mem := wr (mem s) pb xs\<rparr>) t" using less.prems(3) t(2) by (rule undisturbed_trans)
  have kt: "kbd_inv t" "fixed t = fixed s" "beyond_video t = beyond_video (s\<lparr>mem := wr (mem s) pb xs\<rparr>)" "fs_part t = fs_part s"
    using ut inv surr by (auto simp: undisturbed_def quiet_def surroundings_def)
  have pd: "page_directory t = page_directory s" using kt(2) by (simp add: fixed_def)
  have rdt: "read_ok t b L buf pb n" by (rule read_ok_kept [OF ok rd pd kt(4) buf blk])
  have away: "\<not> in_range 0xB8000 4096 (block_addr s b (j div 4096) + of_nat (j mod 4096))" if "j \<le> L" for j
  proof
    assume "in_range 0xB8000 4096 (block_addr s b (j div 4096) + of_nat (j mod 4096))"
    then obtain i where i: "i < 4096" "block_addr s b (j div 4096) + of_nat (j mod 4096) = 0xB8000 + of_nat i" by (auto simp: in_range_iff)
    have kp: "in_kernel_page (block_addr s b (j div 4096)) 4096" using that by (intro blk div_le_mono)
    have "j mod 4096 < 4096" by simp
    then have "unat (block_addr s b (j div 4096)) + j mod 4096 < 4294967296" using kp unfolding in_kernel_page_def by linarith
    then have "unat (block_addr s b (j div 4096) + of_nat (j mod 4096)) = unat (block_addr s b (j div 4096)) + j mod 4096"
      by (rule u32_less_add_eq)
    moreover have "unat (0xB8000 + of_nat i :: u32) = 0xB8000 + i" using i(1) u32_less_add_eq [of "0xB8000" i] by simp
    ultimately show False using i kp by (simp add: in_kernel_page_def)
  qed
  have fb: "file_byte t b j = file_byte s b j" if "j < unat off + n" for j
  proof -
    have j: "j \<le> L" "j div 4096 \<le> L div 4096" using that off by (simp_all add: div_le_mono)
    have "disjoint_ranges (block_addr s b (j div 4096)) 4096 pb n" using rd j(2) by (simp add: read_ok_def)
    then have "\<not> in_range pb n (block_addr s b (j div 4096) + of_nat (j mod 4096))"
      by (simp add: disjoint_ranges_def)
    then have "\<not> in_range pb (length xs) (block_addr s b (j div 4096) + of_nat (j mod 4096))"
      using less.prems(1) unfolding in_range_def by linarith
    moreover have "block_addr t b = block_addr s b" using kt(4) by (auto simp: fs_part_def block_addr_def)
    ultimately show ?thesis
      using fun_cong [OF kt(3), of "block_addr s b (j div 4096) + of_nat (j mod 4096)"] away [OF j(1)]
      by (simp add: file_byte_def beyond_video_def wr_outside)
  qed
  have pb: "\<not> in_range 0xB8000 4096 (pb + of_nat i)" if "i < n" for i
  proof -
    note D = machine_okD [OF ok]
    have "unat (buf + of_nat i) = unat buf + i" using buf that by (intro u32_less_add_eq) simp
    then have va: "unat (buf + of_nat i) div 0x400000 = 32" using buf that by (simp add: nat_div_eq)
    have "mmu False True s (buf + of_nat i) = Inr (pb + of_nat i)"
      using rd that phys_eq [of n True s buf pb] by (simp add: read_ok_def)
    then have "pb + of_nat i = frame_of 22 (window_entry (active_proc s)) (buf + of_nat i)"
      using window_byte(1) [OF D(2,3,7) va] by (simp add: mmu_kernel_write)
    then show ?thesis using window_byte(2) [OF D(2,3,7) va] by simp
  qed
  have held: "mem t (pb + of_nat i) = xs ! i" if "i < length xs" for i
    using fun_cong [OF kt(3), of "pb + of_nat i"] pb [of i] that less.prems(1) rd
    by (simp add: beyond_video_def wr_inside read_ok_def)
  have "wr (mem t) pb xs = mem t"
  proof
    fix x
    show "wr (mem t) pb xs x = mem t x" using held [of "unat (x - pb)"] by (simp add: wr_def)
  qed
  then have mt: "t\<lparr>mem := wr (mem t) pb xs\<rparr> = t" by simp
  let ?q = "(unat off + length xs) mod 4096"
  note round = read_round_eq [OF rdt off less.prems(1), unfolded mt]
  have step: "undisturbed (s\<lparr>mem := wr (mem s) pb ys\<rparr>) (t\<lparr>mem := wr (mem t) pb ys\<rparr>)" if "length xs \<le> length ys" for ys
  proof -
    have "surroundings (t\<lparr>mem := wr (mem t) pb ys\<rparr>) = surroundings (s\<lparr>mem := wr (mem s) pb ys\<rparr>)"
      using beyond_wr [OF kt(3) that] kt(4) by (simp add: surroundings_def fs_part_def)
    moreover have "kbd_inv (t\<lparr>mem := wr (mem t) pb ys\<rparr>)" using kt(1) by (simp add: kbd_inv_def screen_inv_def)
    ultimately show ?thesis using kt(2) by (simp add: undisturbed_def quiet_def)
  qed
  note rounds = read_rounds.simps [of irqs k b off buf "int n" "int (length xs)" u]
  show ?case
  proof (cases "n - length xs + ?q < 4096")
    case True
    let ?ys = "xs @ map (file_byte s b) [unat off + length xs..<unat off + n]"
    have m: "map (file_byte t b) [unat off + length xs..<unat off + n] = map (file_byte s b) [unat off + length xs..<unat off + n]"
      using fb by (intro map_cong) auto
    have "read_rounds irqs k b off buf (int n) (int (length xs)) u = Inr (int n, t\<lparr>mem := wr (mem t) pb ?ys\<rparr>)"
      unfolding m [symmetric] using True less.prems(1) t(1) round by (simp add: rounds)
    then show ?thesis using step [of ?ys] by simp
  next
    case False
    then have q: "?q = 0" and big: "\<not> n - length xs < 4096" using less.prems(2) by auto
    let ?k = "unat off + length xs"
    let ?ys = "xs @ map (file_byte s b) [?k..<?k + 4096]"
    have m: "map (file_byte t b) [?k..<?k + 4096] = map (file_byte s b) [?k..<?k + 4096]"
      using fb big by (intro map_cong) auto
    have "read_rounds irqs k b off buf (int n) (int (length xs)) u =
        read_rounds irqs (Suc k) b off buf (int n) (int (length ?ys)) (t\<lparr>mem := wr (mem t) pb ?ys\<rparr>)"
      unfolding m [symmetric] using False less.prems(1) t(1) round q by (simp add: rounds)
    moreover have "\<exists>s'. read_rounds irqs (Suc k) b off buf (int n) (int (length ?ys)) (t\<lparr>mem := wr (mem t) pb ?ys\<rparr>) = Inr (int n, s') \<and>
        undisturbed (s\<lparr>mem := wr (mem s) pb (?ys @ map (file_byte s b) [unat off + length ?ys..<unat off + n])\<rparr>) s'"
    proof (rule less.hyps)
      have "(unat off + length ?ys) mod 4096 = (?k + 4096) mod 4096" by (simp add: add.assoc)
      then show "(unat off + length ?ys) mod 4096 = 0 \<or> n - length ?ys + (unat off + length ?ys) mod 4096 < 4096" using q by simp
    qed (use big step in auto)
    moreover have "?ys @ map (file_byte s b) [unat off + length ?ys..<unat off + n] = xs @ map (file_byte s b) [?k..<unat off + n]"
      using big upt_add_eq_append [of ?k "?k + 4096" "unat off + n - (?k + 4096)"] by (simp add: add.assoc flip: map_append)
    ultimately show ?thesis by simp
  qed
qed

section \<open>Properties\<close>



end
