(* ===== verification/Selftest.thy ===== *)
theory Selftest
  imports Boot Preempt
begin

text \<open>
  The kernel's own tests, \<^verbatim>\<open>tests.c\<close>, and what the model says about their outcomes. Strings of the tests' messages that are
  arguments of \<^verbatim>\<open>%s\<close> are addresses, given as parameters; local arrays are addresses on the kernel stack; a local variable
  that is read before it is set is a parameter.
\<close>

section \<open>Definitions\<close>

abbreviation (input) PASS :: int where "PASS \<equiv> 1"
abbreviation (input) FAIL :: int where "FAIL \<equiv> 0"

text \<open>The macros \<^verbatim>\<open>TEST_HEADER\<close> (function name, file name, line) and \<^verbatim>\<open>TEST_OUTPUT\<close> (name, \<open>''PASS''\<close>, \<open>''FAIL''\<close>).\<close>

definition TEST_HEADER :: "u32 \<Rightarrow> u32 \<Rightarrow> u32 \<Rightarrow> 'a kern_scheme \<Rightarrow> 'a kern_scheme res" where
  "TEST_HEADER func file_name line = say (''[TEST %s] Running %s at %s:%d'' @ newline) [func, func, file_name, line]"

definition TEST_OUTPUT :: "u32 \<Rightarrow> u32 \<Rightarrow> u32 \<Rightarrow> int \<Rightarrow> 'a kern_scheme \<Rightarrow> 'a kern_scheme res" where
  "TEST_OUTPUT test_name pass fail result =
     say (''[TEST %s] Result = %s'' @ newline) [test_name, if result \<noteq> 0 then pass else fail]"

text \<open>
  \<^verbatim>\<open>int $15\<close> goes through gate 15. A gate that is not present raises the exception for that, vector 11, instead.
\<close>

definition assertion_failure :: "'a kern_scheme \<Rightarrow> 'a kern_scheme outcome res" where
  "assertion_failure s = exception_code (vector_symbol (if present (idt s ! 15) = 1 then 15 else 11)) s"

text \<open>\<^verbatim>\<open>idt_test\<close>: its result, unless an exception handler spins.\<close>

function idt_test_loop :: "nat \<Rightarrow> int \<Rightarrow> 'a kern_scheme \<Rightarrow> (int \<times> 'a kern_scheme outcome) res" where
  "idt_test_loop i result s =
     (if i < 10
      then if length (idt s) \<le> i then Inl OutOfBounds
           else if offset_15_00 (idt s ! i) = 0 \<and> offset_31_16 (idt s ! i) = 0
           then rbind (assertion_failure s) (\<lambda>r.
                  case r of Spins s \<Rightarrow> Inr (result, Spins s) | Returns s \<Rightarrow> idt_test_loop (Suc i) FAIL s)
           else idt_test_loop (Suc i) result s
      else Inr (result, Returns s))"
  by pat_completeness auto
termination
  by (relation "measure (\<lambda>(i, result, s). 10 - i)") auto

declare idt_test_loop.simps [simp del]

definition idt_test :: "u32 \<Rightarrow> u32 \<Rightarrow> u32 \<Rightarrow> 'a kern_scheme \<Rightarrow> (int \<times> 'a kern_scheme outcome) res" where
  "idt_test func file_name line s = rbind (TEST_HEADER func file_name line s) (idt_test_loop 0 PASS)"

text \<open>\<^verbatim>\<open>paging_test\<close>: the local variable \<^verbatim>\<open>i\<close> is at the address \<open>a\<close>.\<close>

definition paging_test :: "u32 \<Rightarrow> 'a kern_scheme \<Rightarrow> (int \<times> 'a kern_scheme) res" where
  "paging_test a s =
     rbind (vstore a (bytes32 0xB8000) s) (\<lambda>s.
     let invalid_addr = 0; valid_addr = a in
     rbind (vload s valid_addr 4) (\<lambda>page_fault_test.
     rbind (say (''Test %d '' @ newline) [valid_addr] s) (\<lambda>s.
     rbind (vload s invalid_addr 4) (\<lambda>page_fault_test.
     rbind (say ''Test %d'' [invalid_addr] s) (\<lambda>s. Inr (0, s))))))"

definition dev_by_zero :: "u32 res" where
  "dev_by_zero = (let i = 5; j = 0 in if j = 0 then Inl DivideError else Inr (i div j))"

text \<open>\<^verbatim>\<open>terminal_test\<close>: \<open>buf\<close> is the address of the local array and \<open>j0\<close> what the variable \<^verbatim>\<open>j\<close> holds when it is not set.\<close>

definition terminal_test :: "('a kern_scheme \<Rightarrow> 'a kern_scheme res) list \<Rightarrow> u32 \<Rightarrow> u32 \<Rightarrow> 'a kern_scheme \<Rightarrow> (int \<times> 'a kern_scheme) res" where
  "terminal_test interrupts buf j0 s =
     rbind (term_read interrupts 0 buf 128 s) (\<lambda>(n, s).
     let i = word_of_int n :: u32 in
     rbind (if i > 0 then rbind (term_write 0 buf 128 s) (\<lambda>(n, s). Inr (word_of_int n, s)) else Inr (j0, s)) (\<lambda>(j, s).
     rbind (say (''read buf:%d, wrtie buf:%d'' @ newline) [i, j] s) (\<lambda>s. Inr (if i = j then 1 else 0, s))))"

definition launch_tests :: "u32 \<Rightarrow> u32 \<Rightarrow> u32 \<Rightarrow> ('a kern_scheme \<Rightarrow> 'a kern_scheme res) list \<Rightarrow> u32 \<Rightarrow> u32 \<Rightarrow> 'a kern_scheme \<Rightarrow> 'a kern_scheme res" where
  "launch_tests test_name pass fail interrupts buf j0 s =
     rbind (terminal_test interrupts buf j0 s) (\<lambda>(result, s).
     rbind (TEST_OUTPUT test_name pass fail result s) (\<lambda>s. Inr (set_cursor_loc (word_of_int (get_screen_loc s)) s)))"

text \<open>
  \<^verbatim>\<open>fs_test\<close>: the loop over the directory has fuel, since a directory count of the file system image may keep it going for ever;
  then the bytes of a file that are not null.
\<close>

fun fs_test_list :: "nat \<Rightarrow> u32 \<Rightarrow> 'a kern_scheme \<Rightarrow> 'a kern_scheme res" where
  "fs_test_list 0 buf s = Inl Hang"
| "fs_test_list (Suc fuel) buf s =
     rbind (fs_dir_read 0 buf 32 s) (\<lambda>(n, s).
       if n \<noteq> 0 then rbind (say (''%s'' @ newline) [buf] s) (fs_test_list fuel buf) else Inr s)"

fun fs_test_show :: "nat list \<Rightarrow> u32 \<Rightarrow> 'a kern_scheme \<Rightarrow> 'a kern_scheme res" where
  "fs_test_show [] buff s = Inr s"
| "fs_test_show (i # is) buff s =
     rbind (vread s (buff + of_nat i)) (\<lambda>c. fs_test_show is buff (if c \<noteq> 0 then putc c s else s))"

definition fs_test :: "nat \<Rightarrow> u32 \<Rightarrow> u32 \<Rightarrow> 'a kern_scheme \<Rightarrow> (int \<times> 'a kern_scheme) res" where
  "fs_test fuel buf buff s =
     rbind (say (''DIR READ TEST '' @ newline) [] s) (\<lambda>s.
     rbind (fs_test_list fuel buf s) (\<lambda>s.
     rbind (clear_screen s) (\<lambda>s.
     rbind (say (''TEST NON TEXT FILE  '' @ newline) [] s) (\<lambda>s.
     rbind (fs_file_open (lit ''pingpong'') s) (\<lambda>(_, s).
     rbind (vmemset buff 0 9999 s) (\<lambda>s.
     rbind (fs_file_read 0 buff 9999 s) (\<lambda>(_, s).
     rbind (fs_test_show [0..<9999] buff s) (\<lambda>s.
     let s = putc 10 s in Inr (1, set_cursor_loc (word_of_int (get_screen_loc s)) s)))))))))"

section \<open>The test of the descriptor table\<close>

lemma gate_offset_zero: "gate_offset d = 0 \<longleftrightarrow> offset_15_00 d = 0 \<and> offset_31_16 d = 0"
proof
  assume z: "gate_offset d = 0"
  have "offset_15_00 d = ucast (gate_offset d)" "offset_31_16 d = ucast (drop_bit 16 (gate_offset d))"
    by (rule bit_word_eqI; auto simp: gate_offset_def bit_simps)+
  then show "offset_15_00 d = 0 \<and> offset_31_16 d = 0" using z by simp
qed (simp add: gate_offset_def)

text \<open>The loop passes a table whose first ten gates have handlers, and never comes back from any other.\<close>

lemma idt_test_loop_verdict:
  assumes "10 \<le> length (idt s)"
  shows "i \<le> 10 \<Longrightarrow> if \<forall>j. i \<le> j \<and> j < 10 \<longrightarrow> gate_offset (idt s ! j) \<noteq> 0
     then idt_test_loop i r s = Inr (r, Returns s)
     else \<exists>msg. msg \<noteq> [] \<and> idt_test_loop i r s = Inr (r, Spins (fold putc msg s))"
proof (induction "10 - i" arbitrary: i)
  case 0
  then have "i = 10" by simp
  then show ?case by (auto simp: idt_test_loop.simps [of 10])
next
  case (Suc n)
  then have i: "i < 10" "\<not> length (idt s) \<le> i" using assms by auto
  show ?case
  proof (cases "gate_offset (idt s ! i) = 0")
    case True
    obtain msg where "msg \<noteq> []" "assertion_failure s = Inr (Spins (fold putc msg s))"
      using exception_code_spins unfolding assertion_failure_def by blast
    then show ?thesis using True i gate_offset_zero [of "idt s ! i"] by (auto simp: idt_test_loop.simps [of i])
  next
    case False
    have "(\<forall>j. i \<le> j \<and> j < 10 \<longrightarrow> gate_offset (idt s ! j) \<noteq> 0) \<longleftrightarrow> (\<forall>j. Suc i \<le> j \<and> j < 10 \<longrightarrow> gate_offset (idt s ! j) \<noteq> 0)"
      using False by (metis Suc_leD le_antisym not_less_eq_eq)
    moreover have "idt_test_loop i r s = idt_test_loop (Suc i) r s"
      using False i gate_offset_zero [of "idt s ! i"] by (subst idt_test_loop.simps) auto
    ultimately show ?thesis using Suc.hyps(1) [of "Suc i"] Suc.hyps(2) i by simp
  qed
qed

lemma length_init_idt: "length (idt (init_idt s)) = length (idt s)"
  unfolding init_idt_def idt_after_loop_def [symmetric] Let_def by simp

text \<open>
  After \<^verbatim>\<open>init_idt\<close> the test passes when the first ten handlers have addresses. Gate 15 is not present then: a failure would be
  reported as a missing segment (vector 11), and no failure is ever returned.
\<close>

lemma idt_test_after_init:
  fixes s t :: "'a kern_scheme"
  assumes "length (idt s) = 256" and "idt t = idt (init_idt s)"
  shows "(\<forall>v < 10. sym s (vector_symbol v) \<noteq> 0) \<longleftrightarrow> idt_test_loop 0 PASS t = Inr (PASS, Returns t)"
    and "idt_test_loop 0 PASS t \<noteq> Inr (FAIL, Returns u)" and "assertion_failure t = exp_np t"
proof -
  note g = init_idt_nth [OF assms(1)]
  have l: "10 \<le> length (idt t)" using assms by (simp add: length_init_idt)
  have off: "gate_offset (idt t ! v) = sym s (vector_symbol v)" if "v < 10" for v
    using that unfolding assms(2) by (subst g) (simp_all add: init_entry_fields)
  have p: "present (idt t ! 15) \<noteq> 1" unfolding assms(2) by (subst g) (simp_all add: init_entry_fields)
  have spins: "Inr (1, Spins (fold putc msg t)) \<noteq> Inr (1, Returns t)" for msg :: "u8 list" by simp
  from idt_test_loop_verdict [OF l, of 0 PASS] off
  show "(\<forall>v < 10. sym s (vector_symbol v) \<noteq> 0) \<longleftrightarrow> idt_test_loop 0 PASS t = Inr (PASS, Returns t)"
    "idt_test_loop 0 PASS t \<noteq> Inr (FAIL, Returns u)"
    by (auto split: if_splits)
  show "assertion_failure t = exp_np t"
    using p by (simp add: assertion_failure_def vector_symbol_def exception_symbols_def exception_code_def)
qed

section \<open>The tests that fault\<close>

lemma dev_by_zero_faults: "dev_by_zero = Inl DivideError"
  by (simp add: dev_by_zero_def)

text \<open>With the page tables of the boot, \<^verbatim>\<open>paging_test\<close> reads its local variable, prints its address and faults on the null pointer.\<close>

lemma paging_test_faults:
  fixes s u :: "'a kern_scheme"
  assumes "tables_ok u" and "tables s = tables (paging_setup u)" and "0x400000 \<le> unat a" and "unat a + 4 \<le> 0x800000"
  shows "\<exists>t. say (''Test %d '' @ newline) [a] (s\<lparr>mem := wr (mem s) a (bytes32 0xB8000)\<rparr>) = Inr t \<and>
    vload t 0 4 = Inl PageFault \<and> paging_test a s = Inl PageFault"
proof -
  let ?s = "s\<lparr>mem := wr (mem s) a (bytes32 0xB8000)\<rparr>"
  have k: "kernel_mapped s"
    using kernel_mapped_setup [OF assms(1)] by (rule kernel_mapped_cong [rotated 4]) (use assms(2) in \<open>simp_all add: tables_def\<close>)
  have len: "length (bytes32 v) = 4" for v by (simp add: bytes32_def)
  have "vstore a (bytes32 0xB8000) s = Inr ?s"
    using phys_kernel [OF k assms(3), of 4 True] assms(4) len by (simp add: vstore_def)
  moreover have "kernel_mapped ?s" using k by (rule kernel_mapped_cong [rotated 4]) simp_all
  then have "vload ?s a 4 = Inr (rd (mem ?s) a 4)"
    using phys_kernel [of ?s a 4 False] assms(3,4) by (simp add: vload_def)
  moreover have "a \<noteq> 0x80000000" using assms(4) by auto
  then have "fmt_out (\<lambda>_. None) (bytes (''Test %d '' @ newline)) [a] = Some (bytes ''Test '' @ signed_digits a @ bytes '' '' @ [10])"
    by (simp add: bytes_def)
  from say_completes [OF this, of ?s] obtain t where t: "say (''Test %d '' @ newline) [a] ?s = Inr t" "prints ?s t"
    by (auto simp: bytes_def)
  moreover have "tables t = tables s" using t(2) by (auto simp: prints_def)
  then have "mmu False False t 0 = Inl PageFault"
    using mmu_paging_setup [OF assms(1), of False False 0] mmu_cong [of t "paging_setup u" False False 0] assms(2)
    by (simp add: tables_def)
  then have "vload t 0 4 = Inl PageFault" by (simp add: vload_def phys_def)
  ultimately show ?thesis by (simp add: paging_test_def Let_def)
qed

section \<open>The test of the terminal\<close>

text \<open>Printing with no handler in between: the screen, and memory outside it.\<close>

definition printed :: "'a kbd_scheme \<Rightarrow> 'a kbd_scheme \<Rightarrow> bool" where
  "printed s t \<longleftrightarrow> tables t = tables s \<and> (screen_inv s \<longrightarrow> screen_inv t \<and> same_outside_screen (mem s) (mem t))"

interpretation alone: transparent_console "{}" screen_inv printed putc screen_abs vt_putc
proof
  show "printed s t \<Longrightarrow> printed t u \<Longrightarrow> printed s u" for s t u :: "'a kbd_scheme"
    by (auto simp: printed_def intro: same_outside_trans)
  show "printed s (putc c s)" for s :: "'a kbd_scheme" and c by (simp add: printed_def screen_inv_putc putc_outside)
qed (simp_all add: printed_def con.put_refines screen_inv_putc)

lemma term_write_text:
  fixes s :: "'a kbd_scheme"
  assumes "screen_inv s" and "buf \<noteq> 0" and "phys True s buf 128 = Inr pb" and "off_screen pb 128"
    and "rd (mem s) pb 128 = cs @ replicate (128 - length cs) 0" and "0 \<notin> set cs" and "length cs \<le> 127"
  shows "\<exists>s'. term_write fd buf 128 s = Inr (int (length cs), s') \<and> printed s s' \<and> screen_abs s' = fold vt_putc cs (screen_abs s)"
proof -
  have get: "vread t (buf + of_nat i) = Inr ((cs @ replicate (128 - length cs) 0) ! i)" if p: "printed s t" and i: "i < 128" for i t
  proof -
    have "mmu False False t (buf + of_nat i) = mmu False False s (buf + of_nat i)"
      using p by (intro mmu_cong) (simp_all add: printed_def tables_def)
    also have "\<dots> = Inr (pb + of_nat i)"
      using phys_eq [of 128 False s buf pb] assms(3) i by (simp add: phys_kernel_write)
    finally have "vread t (buf + of_nat i) = Inr (mem s (pb + of_nat i))"
      using p off_screen_byte [OF _ assms(4) i, of "mem s" "mem t"] assms(1) by (simp add: vread_def printed_def)
    then show ?thesis using nth_rd [OF i, of "mem s" pb] assms(5) by simp
  qed
  have "\<exists>s'. preempted_output (\<lambda>_. []) (\<lambda>i s. vread s (buf + of_nat i)) putc 128 0 s = Inr (int (length cs), s') \<and> printed s s' \<and>
      screen_abs s' = fold vt_putc cs (screen_abs s)"
    using assms(1,6,7) get by (intro alone.output_shows) (auto simp: nth_append)
  then show ?thesis using assms(2) by (simp flip: term_write_preempted_none [of fd buf 128 s] add: term_write_preempted_def)
qed

text \<open>
  A line of ordinary characters typed during \<^verbatim>\<open>terminal_test\<close> is echoed, read and written back, and the two counts agree. For an empty
  line the result is up to the uninitialised variable.
\<close>

lemma terminal_test_echo:
  fixes s :: "'a kern_scheme" and j0 :: u32
  assumes "kbd_inv s" and "line_abs (cur_term s) = ([], None)" and "plain_chars cs" and "length cs \<le> 127"
    and "buf \<noteq> 0" and "phys True s buf 128 = Inr pb" and "off_screen pb 128"
  defines "j \<equiv> if cs = [] then j0 else of_nat (length cs)"
  assumes "j \<noteq> 0x80000000"
  shows "\<exists>s'. terminal_test (map insert_op (cs @ [10])) buf j0 s = Inr (if of_nat (length cs) = j then PASS else FAIL, s') \<and> screen_inv s' \<and>
    screen_abs s' = fold vt_putc (cs @ [10] @ cs @ bytes ''read buf:'' @ signed_digits (of_nat (length cs)) @ bytes '', wrtie buf:'' @
      signed_digits j @ [10]) (screen_abs s)"
proof -
  let ?n = "of_nat (length cs) :: u32"
  obtain s1 where s1: "term_read (map insert_op (cs @ [10])) 0 buf 128 s = Inr (int (length cs), s1)"
    "rd (mem s1) pb 128 = cs @ replicate (128 - length cs) 0" "kbd_inv s1" "tables s1 = tables s"
    "screen_abs s1 = fold vt_putc (cs @ [10]) (screen_abs s)"
    using term_read_typed [OF assms(1-5) _ assms(6), of 128 0] assms(7) by auto
  have inv: "screen_inv s1" using s1(3) by (simp add: kbd_inv_def)
  have ph: "phys True s1 buf 128 = Inr pb" using assms(6) tables_phys [OF s1(4)] by simp
  have nz: "0 \<notin> set cs" using assms(3) by (auto simp: plain_chars_def)
  obtain s2 where s2: "term_write 0 buf 128 s1 = Inr (int (length cs), s2)" "printed s1 s2" "screen_abs s2 = fold vt_putc cs (screen_abs s1)"
    using term_write_text [OF inv assms(5) ph assms(7) s1(2) nz assms(4), of 0] by blast
  have n: "unat ?n = length cs" using assms(4) by (simp add: unsigned_of_nat take_bit_nat_eq_self)
  then have pos: "?n > 0 \<longleftrightarrow> cs \<noteq> []" by (auto simp: word_less_nat_alt)
  have nl: "?n \<noteq> 0x80000000"
  proof
    assume "?n = 0x80000000"
    then have "unat ?n = 0x80000000" by simp
    with n assms(4) show False by simp
  qed
  define s3 where "s3 = (if cs = [] then s1 else s2)"
  have s3: "screen_inv s3" "screen_abs s3 = fold vt_putc cs (screen_abs s1)"
    using inv s2(2,3) by (auto simp: s3_def printed_def)
  let ?out = "bytes ''read buf:'' @ signed_digits ?n @ bytes '', wrtie buf:'' @ signed_digits j @ [10]"
  have "say (''read buf:%d, wrtie buf:%d'' @ newline) [?n, j] s3 = Inr (fold putc ?out s3)"
    using nl assms(9) by (intro say_text [of "\<lambda>_. None"]) (simp_all add: bytes_def)
  then have "terminal_test (map insert_op (cs @ [10])) buf j0 s = Inr (if ?n = j then PASS else FAIL, fold putc ?out s3)"
    using s1(1) s2(1) pos by (auto simp: terminal_test_def Let_def s3_def j_def)
  moreover have "screen_abs (fold putc ?out s3) = fold vt_putc ?out (screen_abs s3)" "screen_inv (fold putc ?out s3)"
    using con.put_all_refines [OF s3(1)] con.put_all_inv [OF s3(1)] by blast+
  ultimately show ?thesis using s3(2) s1(5) by simp
qed

text \<open>The report on the screen, when the strings it names are in memory.\<close>

lemma launch_tests_report:
  assumes "terminal_test irqs buf j0 s = Inr (result, t)" and "texts_at strs t" and "screen_inv t"
    and "strs test_name = Some name" and "strs pass = Some (bytes ''PASS'')" and "strs fail = Some (bytes ''FAIL'')"
  shows "\<exists>s'. launch_tests test_name pass fail irqs buf j0 s = Inr s' \<and>
    screen_abs s' = fold vt_putc (bytes ''[TEST '' @ name @ bytes ''] Result = '' @ bytes (if result \<noteq> 0 then ''PASS'' else ''FAIL'') @ [10]) (screen_abs t)"
proof -
  let ?out = "bytes ''[TEST '' @ name @ bytes ''] Result = '' @ bytes (if result \<noteq> 0 then ''PASS'' else ''FAIL'') @ [10]"
  have "TEST_OUTPUT test_name pass fail result t = Inr (fold putc ?out t)"
    unfolding TEST_OUTPUT_def using assms(2,4-6) by (intro say_text [of strs]) (auto simp: bytes_def)
  moreover have "screen_abs (set_cursor_loc l u) = screen_abs u" for l and u :: "'a kern_scheme"
    by (rule screen_abs_cong) simp_all
  ultimately show ?thesis using assms(1) con.put_all_refines [OF assms(3), of ?out]
    by (simp add: launch_tests_def)
qed

section \<open>The test of the file system\<close>

lemma dir_fold_putc: "boot_block (fold putc cs s) = boot_block s \<and> dir_count (fold putc cs s) = dir_count s"
  by (induction cs arbitrary: s) (simp_all add: putc_def Let_def scroll_def set_cursor_loc_def io_defs)

text \<open>
  The loop of \<^verbatim>\<open>fs_test\<close> shows the names of the directory, one on each line, when each is shorter than the buffer (a name of
  32 characters is printed past its end) and none is empty (an empty name ends the loop early); one more round than there are entries
  is enough.
\<close>

lemma fs_test_lists:
  fixes s :: "'a kern_scheme"
  assumes "length bb = 4096" and "unat (bb_dir_count bb) = N" and "N < 63" and "\<forall>i \<le> N. 0 \<in> set (direntries bb i)"
    and "\<forall>i < N. entry_name bb i \<noteq> [] \<and> length (entry_name bb i) < 32"
  shows "boot_block s = bb \<Longrightarrow> unat (dir_count s) = i \<Longrightarrow> i \<le> N \<Longrightarrow> phys True s buf 32 = Inr buf \<Longrightarrow> off_screen buf 32 \<Longrightarrow> screen_inv s \<Longrightarrow>
    \<exists>s'. fs_test_list (Suc (N - i)) buf s = Inr s' \<and>
      screen_abs s' = fold vt_putc (concat (map (\<lambda>i. entry_name bb i @ [10]) [i..<N])) (screen_abs s)"
proof (induction "N - i" arbitrary: i s)
  case 0
  then have "i = N" by simp
  with 0 show ?case
    using fs_dir_read_eq [of s buf buf 0 32] assms(1-4) u32_less_add_eq [of "dir_count s" 1] screen_rows_wr [of buf _ "mem s"]
    by (simp add: Let_def word_less_nat_alt screen_abs_def)
next
  case (Suc k)
  then have i: "i < N" by simp
  let ?name = "entry_name bb i"
  let ?line = "?name @ replicate (32 - length ?name) 0"
  let ?t = "s\<lparr>dentry_global := direntries bb i, mem := wr (mem s) buf ?line, dir_count := dir_count s + 1\<rparr>"
  have nm: "?name \<noteq> []" "length ?name < 32" "length ?line = 32" using assms(5) i by auto
  have suc: "unat (dir_count s + 1) = Suc i" using Suc.prems(2,3) assms(3) u32_less_add_eq [of "dir_count s" 1] by simp
  have rd: "fs_dir_read 0 buf 32 s = Inr (int (length ?name), ?t)"
    using fs_dir_read_eq [of s buf buf 0 32] Suc.prems assms(1-4) i suc
    by (simp add: Let_def word_less_nat_alt entry_name_take)
  have m: "mem ?t (buf + of_nat j) = ?line ! j" if "j < 32" for j using that nm(3) by (simp add: wr_inside)
  have tx: "texts_at [buf \<mapsto> ?name] ?t"
    unfolding texts_at_def
  proof (intro allI impI)
    fix a xs
    assume "[buf \<mapsto> ?name] a = Some xs"
    then have a: "a = buf" "xs = ?name" by (auto split: if_splits)
    have "off_screen buf (Suc (length ?name))" using Suc.prems(5) nm(2) by (auto simp: off_screen_def disjoint_ranges_def)
    moreover have "0 \<notin> set ?name" by (auto simp: entry_name_def dest: set_takeWhileD)
    moreover have "mem ?t (buf + of_nat j) = (?name @ [0]) ! j" if "j \<le> length ?name" for j
      using m [of j] nm(2) that by (simp add: nth_append)
    ultimately show "screen_inv ?t \<and> off_screen a (Suc (length xs)) \<and> length xs < 2147483648 \<and> 0 \<notin> set xs \<and>
        (\<forall>i \<le> length xs. mem ?t (a + of_nat i) = (xs @ [0]) ! i)"
      using a nm(2) Suc.prems(6) by (simp add: screen_inv_def)
  qed
  let ?u = "fold putc (?name @ [10]) ?t"
  have say: "say (''%s'' @ newline) [buf] ?t = Inr ?u"
    using tx by (intro say_text [of "[buf \<mapsto> ?name]"]) (simp_all add: bytes_def)
  have inv: "screen_inv ?t" using Suc.prems(6) by (simp add: screen_inv_def)
  have "screen_abs ?t = screen_abs s" using screen_rows_wr [of buf ?line "mem s"] Suc.prems(5) nm(3) by (simp add: screen_abs_def)
  then have u: "screen_abs ?u = fold vt_putc (?name @ [10]) (screen_abs s)" "screen_inv ?u"
    using con.put_all_refines [OF inv] con.put_all_inv [OF inv] by metis+
  have "tables ?t = tables s" by (simp add: tables_def)
  then have "phys True ?u buf 32 = phys True s buf 32" by (intro tables_phys) (simp only: console_fold)
  moreover have "boot_block ?u = bb" "unat (dir_count ?u) = Suc i" using dir_fold_putc [of "?name @ [10]" ?t] Suc.prems(1) suc by simp_all
  ultimately have "\<exists>s'. fs_test_list (Suc (N - Suc i)) buf ?u = Inr s' \<and>
      screen_abs s' = fold vt_putc (concat (map (\<lambda>i. entry_name bb i @ [10]) [Suc i..<N])) (screen_abs ?u)"
    using Suc.hyps i Suc.prems u(2) by (intro Suc.hyps(1)) auto
  moreover have "Suc (N - i) = Suc (Suc (N - Suc i))" "[i..<N] = i # [Suc i..<N]" using i by (simp_all add: upt_conv_Cons)
  ultimately show ?case using rd say nm(1) u(1) by (simp del: fs_test_list.simps add: fs_test_list.simps(2) [of "Suc _"])
qed

end
