(* ===== verification/Spec2Isabelle.thy ===== *)
theory Spec2Isabelle
  imports Lib_Memory Lib_String Start Failures Preempt_Read Selftest
begin

text \<open>
  A verification library for a small x86 kernel written in C and assembly: console, interrupt controllers, paging, real-time
  clock, read-only file system, keyboard and terminals, processes with eight system calls, timer, and the boot that ties them together.
  The sources are the files under \<^verbatim>\<open>src/\<close>; every definition names the function or structure it translates.

  \<^bold>\<open>How the code is represented.\<close> The state of the machine is one record that grows with the components: \<open>hw\<close> (memory, log of
  port accesses, interrupt flag) in \<open>Port_IO\<close>, extended by \<open>pic\<close>, \<open>vga\<close>, \<open>screen\<close>, \<open>idt_st\<close>, \<open>paging\<close>, \<open>rtc\<close>, \<open>fs\<close>, \<open>kbd\<close>, \<open>proc\<close>,
  \<open>sched\<close> and \<open>kern\<close>, each holding the static variables of one source file. A function of the program is a HOL function on the
  state, polymorphic in what later components add. Machine integers are words of their width; \<^verbatim>\<open>int32_t\<close> counters are integers
  with their bounds written out where they can overflow. A statement that leaves the defined behaviour of C is a value of
  \<open>fault\<close>: an index outside an array, an access the page tables do not map, a division by zero, an undefined arithmetic operation,
  a loop that never ends. All accesses through pointers go through \<open>mmu\<close>, the translation by the page tables the code has built.
  A C loop is a recursive function with its termination proof; the loop over the memory map, which may run for ever on bad boot
  information, has fuel, and \<open>mmap_loop_terminates\<close> gives an amount that is enough: one round for every four bytes of the map, and one more;
  so has the directory loop of \<^verbatim>\<open>fs_test\<close>, for which one round more than there are entries is enough (\<open>fs_test_lists\<close>).

  \<^bold>\<open>The theories\<close>, in the order of the code's layers:

  \<^item> \<open>Kernel_Prelude\<close>: words, byte memory, faults, pointers, and the lemma collections shared by all. \<open>Port_IO\<close>: ports and interrupt flag.
  \<^item> \<open>Lib_Memory\<close>, \<open>Lib_String\<close> (\<^verbatim>\<open>lib.c\<close>): block operations with their inline assembly, and the string functions; \<open>memset\<close>
    equals byte stores, \<open>memmove\<close> is right for every overlap (locale \<open>block_copy\<close>), \<open>itoa\<close> round trip.
  \<^item> \<open>I8259\<close>, \<open>Vga\<close>, \<open>Screen\<close>, \<open>Printf\<close> (\<^verbatim>\<open>i8259.c\<close>, \<^verbatim>\<open>vga.c\<close>, \<^verbatim>\<open>lib.c\<close>): interrupt lines (locale \<open>irq_lines\<close>), cursor, text console with
    its refinement of a 25 by 80 character screen (locale \<open>char_console\<close>), formatted output against a specification of formats.
  \<^item> \<open>Idt\<close>, \<open>Paging\<close>, \<open>Rtc\<close> (\<^verbatim>\<open>idt.c\<close>, \<^verbatim>\<open>intr_util.c\<close>, \<^verbatim>\<open>paging.c\<close>, \<^verbatim>\<open>rtc.c\<close>): vectors and exceptions; the address spaces set
    up for kernel, programs and video; the clock driver, whose wait takes the interrupts that arrive as an argument.
  \<^item> \<open>Filesystem\<close> (\<^verbatim>\<open>filesystem.c\<close>): directory and file reads against the file as a sequence of bytes.
  \<^item> \<open>Terminal\<close>, \<open>Keyboard\<close> (\<^verbatim>\<open>dev_term.c\<close>, \<^verbatim>\<open>dev_kbd.c\<close>): saved screens, scancodes, line editing (locale \<open>line_editor\<close>), and
    the read that a typed line completes.
  \<^item> \<open>Process\<close>, \<open>Syscalls\<close>, \<open>Schedule\<close> (\<^verbatim>\<open>syscalls.c\<close>, \<^verbatim>\<open>isr_wrapper.S\<close>, \<^verbatim>\<open>schedule.c\<close>): control blocks and descriptor tables (locale
    \<open>descriptor_table\<close>), the dispatch of system calls, \<^verbatim>\<open>execute\<close> and \<^verbatim>\<open>halt\<close>, the timer. A call that does not come
    back is a value of \<open>control\<close>: \<open>ToUser\<close> with the entry point and stack of the program, \<open>ToExecRet\<close> for the jump into the parent.
    \<open>Failures\<close>: what \<^verbatim>\<open>execute\<close> and \<^verbatim>\<open>halt\<close> leave behind when they fail too late.
  \<^item> \<open>Kernel\<close>, \<open>Boot\<close>, \<open>Start\<close> (\<^verbatim>\<open>kernel.c\<close>, \<^verbatim>\<open>boot.S\<close>, \<^verbatim>\<open>x86_desc.S\<close>): descriptors, the report on the boot information, the
    initialisation in its order, and the whole boot up to the first shell.
  \<^item> \<open>System\<close>, \<open>Machine\<close>: what each handler and each system call keeps of the joint invariant; the step relation \<open>machine_step\<close> of a
    running machine, its reachable states, and isolation, typing of descriptors, service of interrupts and process life in them.
  \<^item> \<open>Preempt\<close>, \<open>Preempt_Read\<close>: \<^verbatim>\<open>term_write\<close> with handlers running between its characters (locales \<open>preemptible_console\<close> and
    \<open>transparent_console\<close>, which extend \<open>interrupt_service\<close> and \<open>char_console\<close>) and \<^verbatim>\<open>read_data\<close> with handlers between the rounds of
    its loop, each against the call taken as one step.
    \<open>Selftest\<close> (\<^verbatim>\<open>tests.c\<close>): the kernel's own tests, and which of them pass, fault or cannot fail.

  This theory joins the two ends: \<open>boot_reaches_machine\<close> takes the state the boot ends in as the start of the running machine.

  \<^bold>\<open>Parameters and hypotheses.\<close> What devices answer to port reads (\<open>device\<close>), the linker's addresses (\<open>sym\<close>, with \<open>linked\<close>: tables
  aligned and in the kernel's 4 MB), the place of local buffers on the stack relative to it (\<open>probe_off\<close>), the contents of memory at the boot
  (\<open>bootable\<close>: boot information the report gets through, and a file system image with a program called \<^verbatim>\<open>shell\<close>).
  Each is shown to be satisfiable by a concrete state (\<open>boot_state\<close>, \<open>shell_state\<close>, \<open>run_state\<close>), from which the witnesses are computed.

  \<^bold>\<open>Granularity.\<close> Interrupt handlers and system calls are atomic steps, except that the two reads that block take the list of handlers that run
  while they wait (locale \<open>interrupt_service\<close>), and that \<^verbatim>\<open>term_write\<close> and
  \<^verbatim>\<open>read_data\<close> are also given with handlers before each character and before each block. For the handlers this is the code's own discipline: their gates leave interrupts on, but each
  runs between \<^verbatim>\<open>cli\<close> and \<^verbatim>\<open>sti\<close>, so that an interrupt in its entry or exit code is one before or after it. System calls run with interrupts on
  (\<^verbatim>\<open>execute\<close> turns them off); an interrupt inside another call, or within the printing of one character or the
  copying of one block, is not interleaved.

  \<^bold>\<open>Separation.\<close> Page tables, control blocks, terminals and the copied boot block are fields of the record, not bytes of
  \<open>mem\<close>; a store through a pointer cannot alias them. The kernel maps process 0 onto its own 4 MB frame (\<open>program_frames\<close>), so on the real
  machine the stores of that process can reach those objects; what they do there is outside the model. A range that is
  translated as one piece is required to be contiguous in physical memory.

  \<^bold>\<open>Not modelled.\<close> The value of \<^verbatim>\<open>eax\<close> at \<^verbatim>\<open>EXEC_RET\<close> (the code leaves it open), the code of \<^verbatim>\<open>kbd_init\<close> after \<^verbatim>\<open>execute\<close>
  has left it, caches and the translation lookaside buffer, the instructions of user programs other than system calls and stores, and the binary images.
  Steps that end in an exception handler are ends of a run, since the handlers never return; two misbehaviours of \<^verbatim>\<open>execute\<close> and \<^verbatim>\<open>halt\<close> on
  broken file systems (\<open>execute_bad_image\<close>, \<open>halt_without_shell\<close>) are no steps of the machine: they leave the kernel in a state
  its invariant excludes.
\<close>

section \<open>From the boot to the running machine\<close>

text \<open>
  The zero-initialised tables the boot relies on: no process counted, the buffers of the terminals and the descriptor
  arrays of the control blocks at their declared lengths.
\<close>

definition cleared :: "'a kern_scheme \<Rightarrow> bool" where
  "cleared s \<longleftrightarrow> process_counter s = 0 \<and>
     (\<forall>t \<in> set (term_arr s). length (kbd_line_buf t) = 128 \<and> length (kbd_out_buf t) = 128 \<and> length (vid_buf t) = 4096) \<and>
     (\<forall>p. 0 \<le> p \<and> p \<le> 5 \<longrightarrow> length (file_array (pcbs s (KSTACK_TO_PCB p))) = 8)"

lemma term_bufs_lengths:
  "(\<forall>t \<in> set ts. length (kbd_line_buf t) = 128 \<and> length (kbd_out_buf t) = 128 \<and> length (vid_buf t) = 4096) \<longleftrightarrow>
   (\<forall>(l, b, v) \<in> set (term_bufs ts). length l = 128 \<and> length b = 128 \<and> length v = 4096)"
  by (auto simp: term_bufs_def)

lemma cleared_core: "core t = core s \<Longrightarrow> cleared t = cleared s"
  by (simp add: cleared_def term_bufs_lengths core_def)

lemma cleared_mounted: "cleared (mounted (s\<lparr>fs_start := a\<rparr>)) = cleared s"
  by (simp add: cleared_def mounted_def Let_def)

lemma paging_setup_dir_ok:
  assumes "tables_ok u"
  shows "dir_ok (paging_setup u)"
proof -
  have "take_bit 12 (sym u Sym_page_table) = 0" using assms by (simp add: tables_ok_def linked_def)
  then have "\<not> bit (sym u Sym_page_table OR 3) 2"
    using entry_ok_flags(1) [of "sym u Sym_page_table" True False] by (simp add: entry_ok_def bit_or_iff)
  then show ?thesis
    using paging_setup_tables(1) [OF assms] by (auto simp: dir_ok_def nth_list_update)
qed

text \<open>The state in which the first shell is executed is stable, with no program running.\<close>

lemma before_shell_stable:
  fixes s t v :: "'a kern_scheme"
  assumes ready: "devices_ready s t" and bs: "before_shell t v" and cl: "cleared v" and none: "active_proc v = -1" "unat (term_flag v) < 3"
  shows "stable v \<and> lines_on v"
proof -
  obtain ts where ts: "term_arr v = [init_term 0 (ts ! 0), init_term 1 (ts ! 1), init_term 2 (ts ! 2)]"
    using bs by (auto simp: before_shell_def)
  have "term_ok x" if "x \<in> set (term_arr v)" for x
    using that cl by (auto simp: ts cleared_def term_ok_def init_term_def)
  moreover have "screen_inv v" using ready bs by (simp add: devices_ready_def before_shell_def)
  ultimately have "kbd_inv v" using none(2) by (simp add: kbd_inv_def ts)
  moreover have "counters_ok v"
    using cl none by (simp add: counters_ok_def programs_def ts cleared_def init_term_def)
  moreover have "procs_ok v" using cl none by (auto simp: procs_ok_def cleared_def)
  moreover have "dir_ok v"
  proof -
    obtain u :: "'a kern_scheme" where u: "tables_ok u" "tables t = tables (paging_setup u)"
      using ready unfolding devices_ready_def by blast
    then have "page_directory v = page_directory (paging_setup u)" using bs by (simp add: before_shell_def tables_def)
    then show ?thesis using paging_setup_dir_ok [OF u(1)] by (simp add: dir_ok_def)
  qed
  moreover have "irq_delivered v 0" "irq_delivered v 1" "irq_delivered v 8"
    using ready bs by (simp_all add: devices_ready_def before_shell_def)
  ultimately show ?thesis by (simp add: stable_def lines_on_def)
qed

lemma boot_machine_ok:
  fixes s :: "'a kern_scheme"
  assumes boot: "bootable fuel addr b L s" and cl: "cleared s"
  shows "\<exists>pc s'. entry fuel 0x2BADB002 addr s = Inr (Left (ToUser pc 0x83FFFFC), s') \<and> machine_ok s' \<and> programs s' = 1"
proof -
  let ?m = "mounted (s\<lparr>fs_start := module_start addr s\<rparr>)"
  obtain s1 t v s' where e: "entry fuel 0x2BADB002 addr s = Inr (Left (ToUser (le32 (map (file_byte ?m b) [24..<28])) 0x83FFFFC), s')"
    and c: "core (mounted s1) = core ?m" and r: "devices_ready s1 t" "before_shell t v" "first_shell b L t s'"
    and x: "\<exists>pc sp. execute (lit ''shell'') v = Inr (ToUser pc sp, s')"
    using entry_first_shell [OF boot refl] by blast
  have cv: "core v = core ?m" using c r by (simp add: devices_ready_def before_shell_def)
  have "cleared v" using cleared_core [OF cv] cleared_mounted cl by blast
  moreover have "active_proc v = -1" "unat (term_flag v) < 3"
    using cv boot unfolding bootable_def by (simp_all add: core_def shell_ready_def)
  ultimately have v: "stable v" "lines_on v" using before_shell_stable [OF r(1,2)] by blast+
  obtain pc sp where "execute (lit ''shell'') v = Inr (ToUser pc sp, s')" using x by blast
  then have "machine_ok s'" using execute_stable [OF _ v] by (simp add: machine_ok_def)
  moreover have "programs s' = 1" using r(3) by (simp add: first_shell_def)
  ultimately show ?thesis using e by blast
qed

section \<open>Properties\<close>



end
